(* ===== verification/Prelude.thy ===== *)
theory Prelude
  imports Main "HOL-Library.Word"
begin

text \<open>
  Shared vocabulary of the development: the machine integers of the Rust sources, the
  result type of a Rust call (a value, an error value, or a panic), the checked and
  saturating integer operations of Rust's standard library, slices, little-endian
  bytes, and the generic lemmas and rule collections the component theories use.
\<close>

section \<open>Machine integers\<close>

type_synonym u8 = "8 word"
type_synonym u16 = "16 word"
type_synonym u32 = "32 word"
type_synonym u64 = "64 word"
type_synonym u128 = "128 word"

abbreviation u64_MAX :: u64 where
  "u64_MAX \<equiv> 18446744073709551615"

section \<open>Results: a value, an error, or a panic\<close>

text \<open>
  A Rust call returns a value (\<open>Ok\<close>), returns an error value (\<open>Err\<close>), or panics.
  A panic is kept apart from an error value because no caller in this program can
  catch it.
\<close>

datatype 'e fault = Error 'e | Panicked

type_synonym ('e, 'a) res = "'e fault + 'a"

abbreviation Ok :: "'a \<Rightarrow> ('e, 'a) res" where
  "Ok \<equiv> Inr"

abbreviation Err :: "'e \<Rightarrow> ('e, 'a) res" where
  "Err e \<equiv> Inl (Error e)"

abbreviation Panic :: "('e, 'a) res" where
  "Panic \<equiv> Inl Panicked"

definition bindR :: "('e, 'a) res \<Rightarrow> ('a \<Rightarrow> ('e, 'b) res) \<Rightarrow> ('e, 'b) res" where
  "bindR m k = (case m of Inl x \<Rightarrow> Inl x | Inr a \<Rightarrow> k a)"

text \<open>\<open>Option::ok_or\<close>, \<open>Option::unwrap\<close>, \<open>Result::map_err\<close> and a guard.\<close>

definition ok_or :: "'a option \<Rightarrow> 'e \<Rightarrow> ('e, 'a) res" where
  "ok_or x e = (case x of None \<Rightarrow> Err e | Some a \<Rightarrow> Ok a)"

definition unwrap :: "'a option \<Rightarrow> ('e, 'a) res" where
  "unwrap x = (case x of None \<Rightarrow> Panic | Some a \<Rightarrow> Ok a)"

definition map_err :: "('e \<Rightarrow> 'f) \<Rightarrow> ('e, 'a) res \<Rightarrow> ('f, 'a) res" where
  "map_err f m =
     (case m of Inl (Error e) \<Rightarrow> Err (f e) | Inl Panicked \<Rightarrow> Panic | Inr a \<Rightarrow> Ok a)"

definition require :: "bool \<Rightarrow> 'e \<Rightarrow> ('e, unit) res" where
  "require b e = (if b then Ok () else Err e)"

definition is_ok :: "('e, 'a) res \<Rightarrow> bool" where
  "is_ok m = (case m of Inl _ \<Rightarrow> False | Inr _ \<Rightarrow> True)"

named_theorems res_simps \<open>how the result combinators compute\<close>
named_theorems res_inv \<open>inversion of a successful computation\<close>

lemma bindR_Inr [simp, res_simps]: "bindR (Inr a) k = k a"
  by (simp add: bindR_def)

lemma bindR_Inl [simp, res_simps]: "bindR (Inl x) k = Inl x"
  by (simp add: bindR_def)

lemma is_ok_iff: "is_ok m \<longleftrightarrow> (\<exists>a. m = Inr a)"
  by (cases m) (auto simp: is_ok_def)

lemma bindR_eq_Inr [res_inv]: "bindR m k = Inr b \<longleftrightarrow> (\<exists>a. m = Inr a \<and> k a = Inr b)"
  by (cases m) auto

lemma bindR_eq_Inl: "bindR m k = Inl x \<longleftrightarrow> m = Inl x \<or> (\<exists>a. m = Inr a \<and> k a = Inl x)"
  by (cases m) auto

lemma ok_or_simps [simp, res_simps]: "ok_or None e = Err e" "ok_or (Some a) e = Ok a"
  by (simp_all add: ok_or_def)

lemma ok_or_eq_Inr [res_inv]: "ok_or x e = Inr a \<longleftrightarrow> x = Some a"
  by (cases x) auto

lemma unwrap_simps [simp, res_simps]: "unwrap None = Panic" "unwrap (Some a) = Ok a"
  by (simp_all add: unwrap_def)

lemma unwrap_eq_Inr [res_inv]: "unwrap x = Inr a \<longleftrightarrow> x = Some a"
  by (cases x) auto

lemma map_err_simps [simp, res_simps]:
  "map_err f (Ok a) = Ok a" "map_err f (Err e) = Err (f e)" "map_err f Panic = Panic"
  by (simp_all add: map_err_def)

lemma map_err_eq_Inr [res_inv]: "map_err f m = Inr a \<longleftrightarrow> m = Inr a"
  by (auto simp: map_err_def split: sum.splits fault.splits)

lemma map_err_eq_Panic: "map_err f m = Panic \<longleftrightarrow> m = Panic"
  by (auto simp: map_err_def split: sum.splits fault.splits)

lemma require_simps [simp, res_simps]: "require True e = Ok ()" "require False e = Err e"
  by (simp_all add: require_def)

lemma require_eq_Inr [res_inv]: "require b e = Inr u \<longleftrightarrow> b"
  by (simp add: require_def)

lemma require_no_panic [simp]: "require b e \<noteq> Panic"
  by (simp add: require_def)

lemma ok_or_no_panic [simp]: "ok_or x e \<noteq> Panic"
  by (cases x) auto

section \<open>Methods that change their receiver\<close>

text \<open>
  A method on \<open>&mut self\<close> takes the state and returns its result with the new state; an
  error or a panic keeps the changes made before it.
\<close>

type_synonym ('s, 'e, 'a) stateful = "'s \<Rightarrow> ('e, 'a) res \<times> 's"

definition bindS :: "('s, 'e, 'a) stateful \<Rightarrow> ('a \<Rightarrow> ('s, 'e, 'b) stateful) \<Rightarrow> ('s, 'e, 'b) stateful" where
  "bindS m k s = (case m s of (Inl x, s') \<Rightarrow> (Inl x, s') | (Inr a, s') \<Rightarrow> k a s')"

definition liftS :: "('e, 'a) res \<Rightarrow> ('s, 'e, 'a) stateful" where
  "liftS r s = (r, s)"

definition modifyS :: "('s \<Rightarrow> 's) \<Rightarrow> ('s, 'e, unit) stateful" where
  "modifyS f s = (Ok (), f s)"

definition getS :: "('s, 'e, 's) stateful" where
  "getS s = (Ok s, s)"

lemma bindS_simps [simp, res_simps]:
  "m s = (Inr a, s') \<Longrightarrow> bindS m k s = k a s'"
  "m s = (Inl x, s') \<Longrightarrow> bindS m k s = (Inl x, s')"
  by (simp_all add: bindS_def)

lemma bindS_liftS [simp, res_simps]:
  "bindS (liftS (Inr a)) k s = k a s" "bindS (liftS (Inl x)) k s = (Inl x, s)"
  by (simp_all add: bindS_def liftS_def)

lemma bindS_modifyS [simp, res_simps]: "bindS (modifyS f) k s = k () (f s)"
  by (simp add: bindS_def modifyS_def)

lemma bindS_getS [simp, res_simps]: "bindS getS k s = k s s"
  by (simp add: bindS_def getS_def)

lemma bindS_eq_Inr [res_inv]:
  "bindS m k s = (Inr b, s'') \<longleftrightarrow> (\<exists>a s'. m s = (Inr a, s') \<and> k a s' = (Inr b, s''))"
  by (auto simp: bindS_def split: prod.splits sum.splits)

lemma liftS_eq_Inr [res_inv]: "liftS r s = (Inr a, s') \<longleftrightarrow> r = Inr a \<and> s' = s"
  by (auto simp: liftS_def)

lemma modifyS_eq_Inr [res_inv]: "modifyS f s = (Inr a, s') \<longleftrightarrow> s' = f s"
  by (auto simp: modifyS_def)

lemma getS_eq_Inr [res_inv]: "getS s = (Inr a, s') \<longleftrightarrow> a = s \<and> s' = s"
  by (auto simp: getS_def)

text \<open>A property of the state that every step keeps.\<close>

definition keeps :: "('s \<Rightarrow> bool) \<Rightarrow> ('s, 'e, 'a) stateful \<Rightarrow> bool" where
  "keeps P m \<longleftrightarrow> (\<forall>s. P s \<longrightarrow> P (snd (m s)))"

named_theorems keeps_intros \<open>how the method combinators keep an invariant\<close>

lemma keeps_bindS [keeps_intros]:
  "keeps P m \<Longrightarrow> (\<And>a. keeps P (k a)) \<Longrightarrow> keeps P (bindS m k)"
  by (fastforce simp: keeps_def bindS_def split: prod.splits sum.splits)

lemma keeps_liftS [keeps_intros]: "keeps P (liftS r)"
  by (simp add: keeps_def liftS_def)

lemma keeps_getS [keeps_intros]: "keeps P getS"
  by (simp add: keeps_def getS_def)

lemma keeps_modifyS [keeps_intros]: "(\<And>s. P s \<Longrightarrow> P (f s)) \<Longrightarrow> keeps P (modifyS f)"
  by (simp add: keeps_def modifyS_def)

section \<open>Integer operations of Rust's standard library\<close>

definition checked_add :: "'w::len word \<Rightarrow> 'w word \<Rightarrow> 'w word option" where
  "checked_add a b = (if unat a + unat b < 2 ^ LENGTH('w) then Some (a + b) else None)"

definition checked_sub :: "'w::len word \<Rightarrow> 'w word \<Rightarrow> 'w word option" where
  "checked_sub a b = (if b \<le> a then Some (a - b) else None)"

definition checked_mul :: "'w::len word \<Rightarrow> 'w word \<Rightarrow> 'w word option" where
  "checked_mul a b = (if unat a * unat b < 2 ^ LENGTH('w) then Some (a * b) else None)"

definition checked_div :: "'w::len word \<Rightarrow> 'w word \<Rightarrow> 'w word option" where
  "checked_div a b = (if b = 0 then None else Some (a div b))"

definition checked_rem :: "'w::len word \<Rightarrow> 'w word \<Rightarrow> 'w word option" where
  "checked_rem a b = (if b = 0 then None else Some (a mod b))"

definition saturating_add :: "'w::len word \<Rightarrow> 'w word \<Rightarrow> 'w word" where
  "saturating_add a b = (if unat a + unat b < 2 ^ LENGTH('w) then a + b else - 1)"

definition saturating_sub :: "'w::len word \<Rightarrow> 'w word \<Rightarrow> 'w word" where
  "saturating_sub a b = (if b \<le> a then a - b else 0)"

definition saturating_mul :: "'w::len word \<Rightarrow> 'w word \<Rightarrow> 'w word" where
  "saturating_mul a b = (if unat a * unat b < 2 ^ LENGTH('w) then a * b else - 1)"

text \<open>
  The plain operators \<open>+\<close>, \<open>-\<close>, \<open>*\<close>, \<open>/\<close>: overflow and division by zero panic
  (the development profile of both crates, and every profile of the on-chain program,
  which sets \<open>overflow-checks = true\<close>). Where no panic is proved, the wrapping
  release build of the off-chain crate computes the same value.
\<close>

definition add_p :: "'w::len word \<Rightarrow> 'w word \<Rightarrow> ('e, 'w word) res" where
  "add_p a b = unwrap (checked_add a b)"

definition sub_p :: "'w::len word \<Rightarrow> 'w word \<Rightarrow> ('e, 'w word) res" where
  "sub_p a b = unwrap (checked_sub a b)"

definition mul_p :: "'w::len word \<Rightarrow> 'w word \<Rightarrow> ('e, 'w word) res" where
  "mul_p a b = unwrap (checked_mul a b)"

definition div_p :: "'w::len word \<Rightarrow> 'w word \<Rightarrow> ('e, 'w word) res" where
  "div_p a b = unwrap (checked_div a b)"

lemma unat_add_fits: "unat a + unat b < 2 ^ LENGTH('w) \<Longrightarrow> unat (a + b) = unat a + unat b"
  for a b :: "'w::len word"
  by (simp add: unat_word_ariths)

lemma unat_mult_fits: "unat a * unat b < 2 ^ LENGTH('w) \<Longrightarrow> unat (a * b) = unat a * unat b"
  for a b :: "'w::len word"
  by (simp add: unat_word_ariths)

lemma unat_sub_le: "b \<le> a \<Longrightarrow> unat (a - b) = unat a - unat b"
  for a b :: "'w::len word"
  by (rule unat_sub) simp

lemma unat_minus_one_word_len: "unat (- 1 :: 'w::len word) = 2 ^ LENGTH('w) - 1"
  by (simp add: unsigned_minus_1_eq_mask mask_eq_exp_minus_1)

lemma unat_lt_len: "unat (a :: 'w::len word) < 2 ^ LENGTH('w)"
  by simp

lemma checked_add_eq_Some:
  "checked_add a b = Some c \<longleftrightarrow> unat a + unat b < 2 ^ LENGTH('w) \<and> c = a + b"
  for a b :: "'w::len word"
  by (auto simp: checked_add_def)

lemma checked_sub_eq_Some: "checked_sub a b = Some c \<longleftrightarrow> b \<le> a \<and> c = a - b"
  for a b :: "'w::len word"
  by (auto simp: checked_sub_def)

lemma checked_mul_eq_Some:
  "checked_mul a b = Some c \<longleftrightarrow> unat a * unat b < 2 ^ LENGTH('w) \<and> c = a * b"
  for a b :: "'w::len word"
  by (auto simp: checked_mul_def)

lemma checked_div_eq_Some: "checked_div a b = Some c \<longleftrightarrow> b \<noteq> 0 \<and> c = a div b"
  by (auto simp: checked_div_def)

lemma checked_rem_eq_Some: "checked_rem a b = Some c \<longleftrightarrow> b \<noteq> 0 \<and> c = a mod b"
  by (auto simp: checked_rem_def)

lemmas checked_eq_Some =
  checked_add_eq_Some checked_sub_eq_Some checked_mul_eq_Some checked_div_eq_Some
  checked_rem_eq_Some

text \<open>The same operations read as natural numbers.\<close>

named_theorems unat_ops \<open>reading the word operations as natural numbers\<close>

lemma unat_saturating_sub [unat_ops]: "unat (saturating_sub a b) = unat a - unat b"
  by (auto simp: saturating_sub_def unat_sub_le word_le_nat_alt)

lemma unat_saturating_add [unat_ops]:
  "unat (saturating_add a b) = min (unat a + unat b) (2 ^ LENGTH('w) - 1)"
  for a b :: "'w::len word"
  by (auto simp: saturating_add_def unat_add_fits unat_minus_one_word_len)

lemma unat_saturating_mul [unat_ops]:
  "unat (saturating_mul a b) = min (unat a * unat b) (2 ^ LENGTH('w) - 1)"
  for a b :: "'w::len word"
  by (auto simp: saturating_mul_def unat_mult_fits unat_minus_one_word_len)

lemma unat_min [unat_ops]: "unat (min a b) = min (unat a) (unat b)"
  for a b :: "'w::len word"
  by (simp add: min_def word_le_nat_alt)

lemma unat_max [unat_ops]: "unat (max a b) = max (unat a) (unat b)"
  for a b :: "'w::len word"
  by (simp add: max_def word_le_nat_alt)

lemma unat_widen [unat_ops]:
  "unat (ucast a :: u128) = unat a" for a :: u64
  by (simp add: unsigned_ucast_eq take_bit_nat_eq_self unat_lt_len [THEN order_less_le_trans])

lemma widen_nonzero: "a \<noteq> 0 \<Longrightarrow> (ucast a :: u128) \<noteq> 0" for a :: u64
  by (simp add: word_unat_eq_iff unat_widen)

lemma unat_widen16 [unat_ops]:
  "unat (ucast a :: u128) = unat a" for a :: u16
  by (simp add: unsigned_ucast_eq take_bit_nat_eq_self unat_lt_len [THEN order_less_le_trans])

lemma unat_narrow: "unat (ucast a :: u64) = unat a mod 2 ^ 64" for a :: u128
  by (simp add: unsigned_ucast_eq take_bit_eq_mod)

lemma unat_narrow_fits: "unat a < 2 ^ 64 \<Longrightarrow> unat (ucast a :: u64) = unat a" for a :: u128
  by (simp add: unat_narrow)

lemma unat_lt_64 [simp]: "unat (a :: u64) < 18446744073709551616"
  using unat_lt_len [of a] by simp

lemma mult_u64_fits: "unat (a :: u64) * unat (b :: u64) < 2 ^ 128"
proof -
  have "unat a * unat b \<le> unat a * 2 ^ 64"
    using unat_lt_64 [of b] by (intro mult_le_mono) (auto simp del: unat_lt_64)
  also have "\<dots> < 2 ^ 64 * 2 ^ 64"
    using unat_lt_len [of a] by (intro mult_strict_right_mono) simp_all
  finally show ?thesis by simp
qed

lemma unat_mult_widen [unat_ops]:
  "unat (ucast a * ucast b :: u128) = unat a * unat b" for a b :: u64
  using mult_u64_fits [of a b] by (subst unat_mult_fits) (simp_all add: unat_ops)

lemma unat_of_nat_less: "n < 2 ^ LENGTH('w) \<Longrightarrow> unat (of_nat n :: 'w::len word) = n"
  by (simp add: unat_of_nat)

section \<open>Division rounded up\<close>

definition ceil_div :: "nat \<Rightarrow> nat \<Rightarrow> nat" where
  "ceil_div a b = (a + (b - 1)) div b"

lemma ceil_div_le_iff: "0 < b \<Longrightarrow> ceil_div a b \<le> c \<longleftrightarrow> a \<le> b * c"
proof -
  assume b: "0 < b"
  have "ceil_div a b \<le> c \<longleftrightarrow> ceil_div a b < Suc c" by (rule less_Suc_eq_le [symmetric])
  also have "\<dots> \<longleftrightarrow> a + (b - 1) < Suc c * b"
    using b by (simp add: ceil_div_def div_less_iff_less_mult)
  also have "\<dots> \<longleftrightarrow> a \<le> b * c" using b by (cases b) (auto simp: algebra_simps)
  finally show ?thesis .
qed

lemma ceil_div_ge: "0 < b \<Longrightarrow> a \<le> b * ceil_div a b"
  by (simp flip: ceil_div_le_iff)

lemma ceil_div_mono: "0 < b \<Longrightarrow> a \<le> a' \<Longrightarrow> ceil_div a b \<le> ceil_div a' b"
  by (simp add: ceil_div_def div_le_mono)

lemma ceil_div_div_mod:
  assumes b: "0 < b"
  shows "ceil_div a b = a div b + (if a mod b = 0 then 0 else 1)"
proof -
  have "a + (b - 1) = (a mod b + (b - 1)) + b * (a div b)" by simp
  then have "ceil_div a b = a div b + (a mod b + (b - 1)) div b"
    using b unfolding ceil_div_def by (metis add.commute div_mult_self2 less_numeral_extra(3))
  moreover have "(a mod b + (b - 1)) div b = (if a mod b = 0 then 0 else 1)"
  proof (cases "a mod b = 0")
    case True
    then show ?thesis using b by simp
  next
    case False
    then have "a mod b + (b - 1) = (a mod b - 1) + b" "a mod b - 1 < b"
      using b mod_less_divisor [OF b, of a] by linarith+
    then show ?thesis using False b by (simp only: div_add_self2) simp
  qed
  ultimately show ?thesis by simp
qed

lemma div_le_cross:
  fixes a b c d :: nat
  assumes "a * d \<le> c * b" "0 < b" "0 < d"
  shows "a div b \<le> c div d"
proof -
  have "(a div b) * d * b \<le> a * d"
    using mult_le_mono1 [OF div_times_less_eq_dividend, of a b d] by (simp add: ac_simps)
  then have "(a div b) * d * b \<le> c * b" using assms(1) by (rule order_trans)
  then have "(a div b) * d \<le> c" by (rule mult_right_le_imp_le) (rule assms(2))
  then show ?thesis using assms(3) by (simp add: less_eq_div_iff_mult_less_eq)
qed

lemma ceil_div_0 [simp]: "ceil_div 0 b = 0"
  by (cases b) (auto simp: ceil_div_def)

lemma ceil_div_pos: "0 < b \<Longrightarrow> 0 < a \<Longrightarrow> 0 < ceil_div a b"
  using ceil_div_le_iff [of b a 0] by simp

section \<open>Slices\<close>

text \<open>\<open>slice.get(i)\<close> and \<open>slice.get(i..j)\<close>: \<open>None\<close> out of range.\<close>

definition get :: "'a list \<Rightarrow> nat \<Rightarrow> 'a option" where
  "get xs i = (if i < length xs then Some (xs ! i) else None)"

definition get_range :: "'a list \<Rightarrow> nat \<Rightarrow> nat \<Rightarrow> 'a list option" where
  "get_range xs i j = (if i \<le> j \<and> j \<le> length xs then Some (take (j - i) (drop i xs)) else None)"

lemma get_eq_Some: "get xs i = Some x \<longleftrightarrow> i < length xs \<and> xs ! i = x"
  by (auto simp: get_def)

lemma length_get_range: "get_range xs i j = Some ys \<Longrightarrow> length ys = j - i"
  by (auto simp: get_range_def split: if_splits)

text \<open>
  The operators that panic: \<open>&xs[i..j]\<close> out of range, \<open>a - b\<close> on \<open>usize\<close> below zero,
  \<open>a << i\<close> by the width of the type or more.
\<close>

definition slice_p :: "'a list \<Rightarrow> nat \<Rightarrow> nat \<Rightarrow> ('e, 'a list) res" where
  "slice_p xs i j = unwrap (get_range xs i j)"

definition usub_p :: "nat \<Rightarrow> nat \<Rightarrow> ('e, nat) res" where
  "usub_p a b = (if b \<le> a then Ok (a - b) else Panic)"

definition shl_p :: "'w::len word \<Rightarrow> nat \<Rightarrow> ('e, 'w word) res" where
  "shl_p a i = (if i < LENGTH('w) then Ok (push_bit i a) else Panic)"

lemma slice_p_eq_Inr [res_inv]:
  "slice_p xs i j = Inr ys \<longleftrightarrow> i \<le> j \<and> j \<le> length xs \<and> ys = take (j - i) (drop i xs)"
  by (auto simp: slice_p_def unwrap_eq_Inr get_range_def)

lemma usub_p_eq_Inr [res_inv]: "usub_p a b = Inr c \<longleftrightarrow> b \<le> a \<and> c = a - b"
  by (auto simp: usub_p_def)

lemma shl_p_eq_Inr [res_inv]: "shl_p a i = Inr b \<longleftrightarrow> i < LENGTH('w) \<and> b = push_bit i a"
  for a b :: "'w::len word"
  by (auto simp: shl_p_def)

lemma slice_p_Ok [simp]:
  "i \<le> j \<Longrightarrow> j \<le> length xs \<Longrightarrow> slice_p xs i j = Ok (take (j - i) (drop i xs))"
  by (simp add: slice_p_eq_Inr)

lemma slice_p_Panic [simp]: "j < i \<or> length xs < j \<Longrightarrow> slice_p xs i j = Panic"
  by (auto simp: slice_p_def get_range_def)

lemma usub_p_Ok [simp]: "b \<le> a \<Longrightarrow> usub_p a b = Ok (a - b)"
  by (simp add: usub_p_def)

lemma shl_p_Ok [simp]: "i < LENGTH('w) \<Longrightarrow> shl_p a i = Ok (push_bit i a)" for a :: "'w::len word"
  by (simp add: shl_p_def)

lemma get_last [simp]: "xs \<noteq> [] \<Longrightarrow> get xs (length xs - Suc 0) = Some (last xs)"
  by (simp add: get_eq_Some last_conv_nth)

text \<open>\<open>iter().position(p)\<close>: the index of the first element that satisfies \<open>p\<close>.\<close>

fun position :: "('a \<Rightarrow> bool) \<Rightarrow> 'a list \<Rightarrow> nat option" where
  "position p [] = None"
| "position p (x # xs) = (if p x then Some 0 else map_option Suc (position p xs))"

lemma position_eq_Some:
  "position p xs = Some i \<longleftrightarrow> i < length xs \<and> p (xs ! i) \<and> (\<forall>j<i. \<not> p (xs ! j))"
proof (induction xs arbitrary: i)
  case Nil
  then show ?case by simp
next
  case (Cons x xs)
  show ?case
  proof (cases i)
    case 0
    then show ?thesis by auto
  next
    case (Suc k)
    then show ?thesis by (auto simp: Cons.IH All_less_Suc2)
  qed
qed

lemma position_eq_None: "position p xs = None \<longleftrightarrow> (\<forall>x\<in>set xs. \<not> p x)"
  by (induction xs) auto

text \<open>\<open>filter_map\<close>.\<close>

lemma in_map_filter: "y \<in> set (List.map_filter f xs) \<longleftrightarrow> (\<exists>x\<in>set xs. f x = Some y)"
  by (force simp: List.map_filter_def)

end
