(* ===== verification/F64.thy ===== *)
theory F64
  imports Complex_Main Prelude "HOL-Library.Log_Nat"
begin

text \<open>
  Rust's \<open>f64\<close>: IEEE 754 binary64 values with rounding to nearest, ties to even. A
  finite value is the rational number it denotes; every arithmetic result is the exact
  rational result rounded by \<open>round64\<close> (53 significant bits, subnormals down to
  \<open>2^-1074\<close>, overflow to infinity from \<open>2^1024\<close>). The two zeros are one value: the
  sources divide only by values converted from integers or by positive constants, so
  the sign of a zero is never observed.
  The lemmas say that rounding is monotone, that it keeps powers of two and small
  integers, and hence that it keeps bounds and signs.
\<close>

section \<open>Rounding a rational\<close>

datatype f64 = NaN | Infinite bool | Finite rat

definition rne :: "rat \<Rightarrow> int" where
  "rne x = (let f = \<lfloor>x\<rfloor>; d = x - of_int f in
     if d < 1 / 2 then f else if 1 / 2 < d then f + 1 else if even f then f else f + 1)"

definition log2_floor :: "rat \<Rightarrow> int" where
  "log2_floor x = (case quotient_of x of (p, q) \<Rightarrow>
     let k = bitlen p - bitlen q in if x < 2 powi k then k - 1 else k)"

definition exponent :: "rat \<Rightarrow> int" where
  "exponent x = max (- 1074) (log2_floor x - 52)"

definition round_pos :: "rat \<Rightarrow> rat" where
  "round_pos x = of_int (rne (x / 2 powi exponent x)) * 2 powi exponent x"

definition round64 :: "rat \<Rightarrow> f64" where
  "round64 x =
     (if x = 0 then Finite 0
      else let y = round_pos \<bar>x\<bar> in
        if 2 ^ 1024 \<le> y then Infinite (x < 0) else Finite (if x < 0 then - y else y))"

lemma rne_bounds: "\<lfloor>x\<rfloor> \<le> rne x" "rne x \<le> \<lfloor>x\<rfloor> + 1"
  by (auto simp: rne_def Let_def)

lemma rne_of_int [simp]: "rne (of_int k) = k"
  by (simp add: rne_def)

lemma rne_mono: "x \<le> y \<Longrightarrow> rne x \<le> rne y"
proof (cases "\<lfloor>x\<rfloor> = \<lfloor>y\<rfloor>")
  case True
  moreover assume "x \<le> y"
  ultimately show ?thesis by (auto simp: rne_def Let_def)
next
  case False
  assume "x \<le> y"
  then have "\<lfloor>x\<rfloor> \<le> \<lfloor>y\<rfloor>" by (rule floor_mono)
  with False have "\<lfloor>x\<rfloor> + 1 \<le> \<lfloor>y\<rfloor>" by simp
  then show ?thesis using rne_bounds [of x] rne_bounds [of y] by linarith
qed

lemma rne_ge_int: "of_int k \<le> x \<Longrightarrow> k \<le> rne x"
  using rne_mono [of "of_int k" x] by simp

lemma rne_le_int: "x \<le> of_int k \<Longrightarrow> rne x \<le> k"
  using rne_mono [of x "of_int k"] by simp

lemma powi_pos [simp]: "(0::rat) < 2 powi k"
  by simp

lemma powi_mono: "j \<le> k \<Longrightarrow> (2::rat) powi j \<le> 2 powi k"
  by (rule power_int_increasing) auto

lemma powi_strict_mono: "j < k \<Longrightarrow> (2::rat) powi j < 2 powi k"
  by (rule power_int_strict_increasing) auto

lemma powi_less_imp_less: "(2::rat) powi j < 2 powi k \<Longrightarrow> j < k"
  using powi_mono [of k j] by linarith

lemma powi_add: "(2::rat) powi (j + k) = 2 powi j * 2 powi k"
  by (simp add: power_int_add)

lemma powi_53: "(2::rat) powi (k + 53) = of_int (2 ^ 53) * 2 powi k"
  by (subst powi_add) simp

lemma powi_52: "(2::rat) powi (k + 52) = of_int (2 ^ 52) * 2 powi k"
  by (subst powi_add) simp

lemma powi_nat: "0 \<le> k \<Longrightarrow> (2::rat) powi k = of_int (2 ^ nat k)"
  by (simp add: power_int_def)

lemma bitlen_bounds_rat:
  assumes "0 < n"
  shows "(2::rat) powi (bitlen n - 1) \<le> of_int n" "of_int n < (2::rat) powi bitlen n"
proof -
  have b: "2 ^ nat (bitlen n - 1) \<le> n \<and> n < 2 ^ nat (bitlen n)"
    using assms by (rule bitlen_bounds)
  have "1 \<le> bitlen n"
    using assms by (simp add: bitlen_ge_iff_power)
  then have "(2::rat) powi (bitlen n - 1) = of_int (2 ^ nat (bitlen n - 1))"
    and "(2::rat) powi bitlen n = of_int (2 ^ nat (bitlen n))"
    by (simp_all add: powi_nat)
  with b show "(2::rat) powi (bitlen n - 1) \<le> of_int n" "of_int n < (2::rat) powi bitlen n"
    by (simp_all only: of_int_le_iff of_int_less_iff)
qed

lemma log2_floor_bounds:
  assumes "0 < x"
  shows "2 powi log2_floor x \<le> x" and "x < 2 powi (log2_floor x + 1)"
proof -
  obtain p q where pq: "quotient_of x = (p, q)" by fastforce
  have q: "0 < q" using quotient_of_denom_pos [OF pq] .
  have x: "x = of_int p / of_int q" using quotient_of_div [OF pq] .
  with assms q have p: "0 < p" by (simp add: zero_less_divide_iff)
  let ?k = "bitlen p - bitlen q"
  have "2 powi (?k - 1) = (2::rat) powi (bitlen p - 1 - bitlen q)"
    by (simp add: algebra_simps)
  also have "\<dots> = 2 powi (bitlen p - 1) / 2 powi bitlen q"
    by (rule power_int_diff) simp
  also have "\<dots> \<le> x"
    unfolding x using bitlen_bounds_rat [OF p] bitlen_bounds_rat [OF q] q p
    by (intro frac_le) auto
  finally have lo: "2 powi (?k - 1) \<le> x" .
  have "x < (2::rat) powi bitlen p / 2 powi (bitlen q - 1)"
    unfolding x using bitlen_bounds_rat [OF p] bitlen_bounds_rat [OF q] q p
    by (intro frac_less) auto
  also have "\<dots> = 2 powi (bitlen p - (bitlen q - 1))"
    by (rule power_int_diff [symmetric]) simp
  also have "bitlen p - (bitlen q - 1) = ?k + 1" by simp
  finally have hi: "x < 2 powi (?k + 1)" .
  show "2 powi log2_floor x \<le> x" "x < 2 powi (log2_floor x + 1)"
    using lo hi by (auto simp: log2_floor_def pq Let_def)
qed

lemma log2_floor_mono: "0 < x \<Longrightarrow> x \<le> y \<Longrightarrow> log2_floor x \<le> log2_floor y"
proof -
  assume "0 < x" "x \<le> y"
  then have "2 powi log2_floor x < (2::rat) powi (log2_floor y + 1)"
    using log2_floor_bounds [of x] log2_floor_bounds [of y] by linarith
  then show ?thesis using powi_less_imp_less by fastforce
qed

lemma log2_floor_unique: "2 powi k \<le> x \<Longrightarrow> x < 2 powi (k + 1) \<Longrightarrow> log2_floor x = k"
proof -
  assume k: "2 powi k \<le> x" "x < 2 powi (k + 1)"
  have "0 < x" using k(1) powi_pos [of k] by linarith
  then have "2 powi log2_floor x < (2::rat) powi (k + 1)" "2 powi k < (2::rat) powi (log2_floor x + 1)"
    using k log2_floor_bounds [of x] by linarith+
  then have "log2_floor x < k + 1" "k < log2_floor x + 1" by (blast dest: powi_less_imp_less)+
  then show ?thesis by simp
qed

lemma exponent_mono: "0 < x \<Longrightarrow> x \<le> y \<Longrightarrow> exponent x \<le> exponent y"
  using log2_floor_mono [of x y] by (simp add: exponent_def)

text \<open>A multiple of the unit of its own binade is representable.\<close>

lemma round_pos_exact: "x = of_int m * 2 powi t \<Longrightarrow> exponent x \<le> t \<Longrightarrow> round_pos x = x"
proof -
  assume x: "x = of_int m * 2 powi t" and t: "exponent x \<le> t"
  have "x / 2 powi exponent x = of_int m * 2 powi (t - exponent x)"
    using x by (simp add: power_int_diff)
  also have "\<dots> = of_int (m * 2 ^ nat (t - exponent x))"
    using t by (simp add: powi_nat)
  finally have "rne (x / 2 powi exponent x) = m * 2 ^ nat (t - exponent x)"
    by (simp only: rne_of_int)
  then have "round_pos x = of_int m * 2 powi (t - exponent x) * 2 powi exponent x"
    using t by (simp add: round_pos_def powi_nat)
  also have "\<dots> = x" using x by (simp add: power_int_diff)
  finally show ?thesis .
qed

lemma round_pos_powi: "- 1074 \<le> k \<Longrightarrow> round_pos (2 powi k) = 2 powi k"
proof (rule round_pos_exact [where m = 1 and t = k])
  assume "- 1074 \<le> k"
  moreover have "log2_floor (2 powi k) = k"
    by (rule log2_floor_unique) (simp_all add: powi_strict_mono)
  ultimately show "exponent (2 powi k) \<le> k" by (simp add: exponent_def)
qed simp

lemma round_pos_int:
  assumes "0 < n" "n < 2 ^ 53"
  shows "round_pos (of_int n) = of_int n"
proof (rule round_pos_exact [where m = n and t = 0])
  have "(2::rat) powi log2_floor (of_int n) \<le> of_int n"
    using assms by (intro log2_floor_bounds) simp
  also have "of_int n < (2::rat) powi 53"
  proof -
    have "(of_int n :: rat) < of_int (2 ^ 53)"
      using assms(2) by (simp only: of_int_less_iff)
    then show ?thesis by simp
  qed
  finally have "log2_floor (of_int n) < 53" by (rule powi_less_imp_less)
  then show "exponent (of_int n) \<le> 0" by (simp add: exponent_def)
qed simp

lemma round_pos_mono:
  assumes "0 < x" "x \<le> y"
  shows "round_pos x \<le> round_pos y"
proof (cases "exponent x = exponent y")
  case True
  have "x / 2 powi exponent x \<le> y / 2 powi exponent x"
    using assms by (intro divide_right_mono) auto
  then have "rne (x / 2 powi exponent x) \<le> rne (y / 2 powi exponent x)" by (rule rne_mono)
  with True show ?thesis by (simp add: round_pos_def mult_right_mono)
next
  case False
  with exponent_mono [OF assms] have less: "exponent x < exponent y" by simp
  let ?ex = "exponent x" and ?ey = "exponent y"
  have "x < 2 powi (log2_floor x + 1)" using assms by (intro log2_floor_bounds)
  also have "\<dots> \<le> 2 powi (?ex + 53)" by (rule powi_mono) (simp add: exponent_def)
  also have "\<dots> = of_int (2 ^ 53) * 2 powi ?ex" by (rule powi_53)
  finally have "x / 2 powi ?ex \<le> of_int (2 ^ 53)" by (simp add: divide_le_eq)
  then have "rne (x / 2 powi ?ex) \<le> 2 ^ 53" by (rule rne_le_int)
  then have "of_int (rne (x / 2 powi ?ex)) * 2 powi ?ex \<le> (of_int (2 ^ 53) :: rat) * 2 powi ?ex"
    by (intro mult_right_mono) (simp_all only: of_int_le_iff, simp)
  then have "round_pos x \<le> of_int (2 ^ 53) * 2 powi ?ex" by (simp only: round_pos_def)
  also have "\<dots> = 2 powi (?ex + 53)" by (rule powi_53 [symmetric])
  also have "\<dots> \<le> 2 powi (?ey + 52)" using less by (intro powi_mono) simp
  also have "\<dots> = of_int (2 ^ 52) * 2 powi ?ey" by (rule powi_52)
  finally have left: "round_pos x \<le> of_int (2 ^ 52) * 2 powi ?ey" .
  have "?ey = log2_floor y - 52" using less by (auto simp: exponent_def)
  then have "of_int (2 ^ 52) * 2 powi ?ey \<le> y"
    using log2_floor_bounds [of y] assms powi_52 [of ?ey] by simp
  then have "of_int (2 ^ 52) \<le> y / 2 powi ?ey" by (simp add: le_divide_eq)
  then have "2 ^ 52 \<le> rne (y / 2 powi ?ey)" by (rule rne_ge_int)
  then have "(of_int (2 ^ 52) :: rat) * 2 powi ?ey \<le> of_int (rne (y / 2 powi ?ey)) * 2 powi ?ey"
    by (intro mult_right_mono) (simp_all only: of_int_le_iff, simp)
  with left show ?thesis by (simp only: round_pos_def)
qed

section \<open>Values, order, arithmetic\<close>

text \<open>
  Comparison is IEEE's: false as soon as an operand is NaN. The arithmetic rounds the
  exact result; division of a non-zero finite value by zero is an infinity.
\<close>

fun f_le :: "f64 \<Rightarrow> f64 \<Rightarrow> bool" where
  "f_le NaN _ = False"
| "f_le _ NaN = False"
| "f_le (Infinite s) (Infinite t) = (s \<or> \<not> t)"
| "f_le (Infinite s) (Finite y) = s"
| "f_le (Finite x) (Infinite t) = (\<not> t)"
| "f_le (Finite x) (Finite y) = (x \<le> y)"

definition f_lt :: "f64 \<Rightarrow> f64 \<Rightarrow> bool" where
  "f_lt x y = (f_le x y \<and> \<not> f_le y x)"

fun f_neg :: "f64 \<Rightarrow> f64" where
  "f_neg NaN = NaN"
| "f_neg (Infinite s) = Infinite (\<not> s)"
| "f_neg (Finite x) = Finite (- x)"

fun f_add :: "f64 \<Rightarrow> f64 \<Rightarrow> f64" where
  "f_add NaN _ = NaN"
| "f_add _ NaN = NaN"
| "f_add (Infinite s) (Infinite t) = (if s = t then Infinite s else NaN)"
| "f_add (Infinite s) (Finite _) = Infinite s"
| "f_add (Finite _) (Infinite t) = Infinite t"
| "f_add (Finite x) (Finite y) = round64 (x + y)"

definition f_sub :: "f64 \<Rightarrow> f64 \<Rightarrow> f64" where
  "f_sub x y = f_add x (f_neg y)"

fun f_mul :: "f64 \<Rightarrow> f64 \<Rightarrow> f64" where
  "f_mul NaN _ = NaN"
| "f_mul _ NaN = NaN"
| "f_mul (Infinite s) (Infinite t) = Infinite (s \<noteq> t)"
| "f_mul (Infinite s) (Finite y) = (if y = 0 then NaN else Infinite (s \<noteq> (y < 0)))"
| "f_mul (Finite x) (Infinite t) = (if x = 0 then NaN else Infinite (t \<noteq> (x < 0)))"
| "f_mul (Finite x) (Finite y) = round64 (x * y)"

fun f_div :: "f64 \<Rightarrow> f64 \<Rightarrow> f64" where
  "f_div NaN _ = NaN"
| "f_div _ NaN = NaN"
| "f_div (Infinite s) (Infinite t) = NaN"
| "f_div (Infinite s) (Finite y) = Infinite (s \<noteq> (y < 0))"
| "f_div (Finite x) (Infinite t) = Finite 0"
| "f_div (Finite x) (Finite y) =
     (if y = 0 then (if x = 0 then NaN else Infinite (x < 0)) else round64 (x / y))"

text \<open>
  The casts: \<open>u64 as f64\<close> rounds, \<open>f64 as u64\<close> truncates and saturates (NaN gives 0).
\<close>

definition f_of_nat :: "nat \<Rightarrow> f64" where
  "f_of_nat n = round64 (of_nat n)"

definition f_of_u64 :: "u64 \<Rightarrow> f64" where
  "f_of_u64 n = f_of_nat (unat n)"

definition f_of_u16 :: "u16 \<Rightarrow> f64" where
  "f_of_u16 n = f_of_nat (unat n)"

fun f_to_u64 :: "f64 \<Rightarrow> u64" where
  "f_to_u64 NaN = 0"
| "f_to_u64 (Infinite s) = (if s then 0 else u64_MAX)"
| "f_to_u64 (Finite x) =
     (if x \<le> 0 then 0 else if 2 ^ 64 \<le> x then u64_MAX else of_int \<lfloor>x\<rfloor>)"

subsection \<open>Laws\<close>

lemma f_le_refl: "x \<noteq> NaN \<Longrightarrow> f_le x x"
  by (cases x) auto

lemma f_le_trans: "f_le x y \<Longrightarrow> f_le y z \<Longrightarrow> f_le x z"
  by (cases x; cases y; cases z) auto

lemma f_le_antisym: "f_le x y \<Longrightarrow> f_le y x \<Longrightarrow> x = y"
  by (cases x; cases y) auto

lemma f_lt_simps [simp]:
  "f_lt (Finite x) (Finite y) = (x < y)" "f_lt (Finite x) (Infinite t) = (\<not> t)"
  "\<not> f_lt v NaN" "\<not> f_lt NaN v"
  by (auto simp: f_lt_def) (cases v; simp)

lemma f_lt_le_trans: "f_lt x y \<Longrightarrow> f_le y z \<Longrightarrow> f_lt x z"
  by (meson f_le_trans f_lt_def)

lemma round_pos_nonneg: "0 < x \<Longrightarrow> 0 \<le> round_pos x"
proof -
  assume "0 < x"
  then have "0 \<le> rne (x / 2 powi exponent x)" by (intro rne_ge_int) simp
  then show ?thesis by (simp add: round_pos_def)
qed

lemma round64_not_NaN [simp]: "round64 x \<noteq> NaN"
  by (simp add: round64_def Let_def)

lemma round64_zero [simp]: "round64 0 = Finite 0"
  by (simp add: round64_def)

lemma round64_pos:
  "0 < x \<Longrightarrow> round64 x = (if 2 ^ 1024 \<le> round_pos x then Infinite False else Finite (round_pos x))"
  by (simp add: round64_def Let_def)

lemma round64_neg: "round64 (- x) = f_neg (round64 x)"
  by (auto simp: round64_def Let_def)

lemma f_neg_le: "f_le (f_neg x) (f_neg y) = f_le y x"
  by (cases x; cases y) auto

lemma round64_mono_pos: "0 < x \<Longrightarrow> x \<le> y \<Longrightarrow> f_le (round64 x) (round64 y)"
  using round_pos_mono [of x y] by (auto simp: round64_pos)

lemma round64_nonneg: "0 \<le> x \<Longrightarrow> f_le (Finite 0) (round64 x)"
  using round_pos_nonneg [of x] by (cases "x = 0") (auto simp: round64_pos)

theorem round64_mono: "x \<le> y \<Longrightarrow> f_le (round64 x) (round64 y)"
proof -
  assume le: "x \<le> y"
  consider "0 < x" | "x \<le> 0" "0 \<le> y" | "y < 0" by linarith
  then show ?thesis
  proof cases
    case 1
    then show ?thesis using le by (rule round64_mono_pos)
  next
    case 2
    have "f_le (round64 x) (Finite 0)"
      using round64_nonneg [of "- x"] 2 f_neg_le [of "Finite 0" "round64 x"]
      by (simp add: round64_neg)
    then show ?thesis using round64_nonneg [of y] 2 by (blast intro: f_le_trans)
  next
    case 3
    then have "f_le (round64 (- y)) (round64 (- x))"
      using le by (intro round64_mono_pos) auto
    then show ?thesis by (simp add: round64_neg f_neg_le)
  qed
qed

lemma round64_powi: "- 1074 \<le> k \<Longrightarrow> k < 1024 \<Longrightarrow> round64 (2 powi k) = Finite (2 powi k)"
  using powi_strict_mono [of k 1024] by (simp add: round64_pos round_pos_powi)

lemma round64_int: "0 \<le> n \<Longrightarrow> n < 2 ^ 53 \<Longrightarrow> round64 (of_int n) = Finite (of_int n)"
proof (cases "n = 0")
  case False
  assume n: "0 \<le> n" "n < 2 ^ 53"
  have "(of_int n :: rat) < of_int (2 ^ 53)" using n(2) by (simp only: of_int_less_iff)
  also have "(of_int (2 ^ 53) :: rat) < 2 ^ 1024" by simp
  finally show ?thesis using n False by (simp add: round64_pos round_pos_int)
qed simp

lemma round64_nat: "n < 2 ^ 53 \<Longrightarrow> round64 (of_nat n) = Finite (of_nat n)"
  using round64_int [of "int n"] by simp

text \<open>Rounding keeps a value between two powers of two between them, hence finite and positive.\<close>

lemma round64_between:
  assumes "- 1074 \<le> j" "k < 1024" "2 powi j \<le> x" "x \<le> 2 powi k"
  obtains y where "round64 x = Finite y" "2 powi j \<le> y" "y \<le> 2 powi k"
proof -
  have "(2::rat) powi j \<le> 2 powi k" using assms by linarith
  then have jk: "j < 1024" "- 1074 \<le> k"
    using powi_strict_mono [of k j] assms by linarith+
  have "f_le (Finite (2 powi j)) (round64 x)" "f_le (round64 x) (Finite (2 powi k))"
    using round64_mono [OF assms(3)] round64_mono [OF assms(4)] assms(1,2) jk
    by (simp_all add: round64_powi)
  then show ?thesis by (cases "round64 x") (auto intro: that)
qed

lemma round64_upto:
  assumes "0 \<le> x" "x \<le> 2 powi k" "- 1074 \<le> k" "k < 1024"
  obtains y where "round64 x = Finite y" "0 \<le> y" "y \<le> 2 powi k"
proof -
  have "f_le (Finite 0) (round64 x)" "f_le (round64 x) (Finite (2 powi k))"
    using round64_nonneg [OF assms(1)] round64_mono [OF assms(2)] assms(3,4)
    by (simp_all add: round64_powi)
  then show ?thesis by (cases "round64 x") (auto intro: that)
qed

lemma round64_mono_Finite: "round64 x = Finite u \<Longrightarrow> round64 y = Finite v \<Longrightarrow> x \<le> y \<Longrightarrow> u \<le> v"
  using round64_mono [of x y] by simp

lemma f_of_u64_range:
  obtains v where "f_of_u64 a = Finite v" "0 \<le> v" "v \<le> 2 powi 64" "a \<noteq> 0 \<Longrightarrow> 1 \<le> v"
proof -
  have "rat_of_nat (unat a) \<le> of_nat (2 ^ 64)"
    using unat_lt_64 [of a] by (simp only: of_nat_le_iff) (simp del: unat_lt_64)
  then have ub: "rat_of_nat (unat a) \<le> 2 powi 64" by simp
  show thesis
  proof (rule round64_upto [OF of_nat_0_le_iff ub])
    fix v
    assume v: "round64 (rat_of_nat (unat a)) = Finite v" "0 \<le> v" "v \<le> 2 powi 64"
    have "1 \<le> v" if "a \<noteq> 0"
    proof -
      have "1 \<le> rat_of_nat (unat a)"
        using that unat_gt_0 [of a] by (metis of_nat_1 of_nat_le_iff One_nat_def Suc_le_eq)
      moreover have "round64 1 = Finite 1" using round64_nat [of 1] by simp
      ultimately show ?thesis using v(1) round64_mono_Finite by blast
    qed
    with v show thesis
      unfolding f_of_u64_def f_of_nat_def by (rule that [unfolded f_of_u64_def f_of_nat_def])
  qed simp_all
qed

lemma f_of_u64_mono:
  assumes "a \<le> b" "f_of_u64 a = Finite u" "f_of_u64 b = Finite v"
  shows "u \<le> v"
  using assms unfolding f_of_u64_def f_of_nat_def word_le_nat_alt
  by (blast intro: round64_mono_Finite of_nat_mono)

lemma f_of_u64_0: "f_of_u64 0 = Finite 0"
  by (simp add: f_of_u64_def f_of_nat_def)

lemma f_of_nat_1: "f_of_nat 1 = Finite 1"
  using round64_nat [of 1] by (simp add: f_of_nat_def)

end
