(* ===== verification/Venue_Types.thy ===== *)
theory Venue_Types
  imports F64
begin

text \<open>
  The vocabulary every component shares: keys, accounts and instructions of the chain,
  the error model (\<open>src/trading_venue/error.rs\<close>), protocols, token metadata, quote
  requests and results, the \<open>TradingVenue\<close> trait object with its default methods
  (\<open>src/trading_venue/mod.rs\<close>), and the third-party functions the sources call, gathered
  in a record that the definitions take as an argument.
\<close>

section \<open>Keys, accounts, instructions\<close>

text \<open>A public key is 32 bytes, written as the 256-bit number they spell (big-endian).\<close>

type_synonym pubkey = "256 word"

abbreviation default_pubkey :: pubkey where
  "default_pubkey \<equiv> 0"

record account =
  lamports :: u64
  acc_data :: "u8 list"
  acc_owner :: pubkey
  executable :: bool

record account_meta =
  am_pubkey :: pubkey
  is_signer :: bool
  is_writable :: bool

definition meta_new :: "pubkey \<Rightarrow> bool \<Rightarrow> account_meta" where
  "meta_new k signer = \<lparr>am_pubkey = k, is_signer = signer, is_writable = True\<rparr>"

definition meta_readonly :: "pubkey \<Rightarrow> bool \<Rightarrow> account_meta" where
  "meta_readonly k signer = \<lparr>am_pubkey = k, is_signer = signer, is_writable = False\<rparr>"

record instruction =
  ix_program_id :: pubkey
  ix_accounts :: "account_meta list"
  ix_data :: "u8 list"

section \<open>Protocols and errors\<close>

datatype pool_protocol = RaydiumAMM | Huma

text \<open>\<open>From<PoolProtocol> for String\<close>: the label of a protocol.\<close>

fun protocol_string :: "pool_protocol \<Rightarrow> string" where
  "protocol_string RaydiumAMM = ''RaydiumAMM''"
| "protocol_string Huma = ''Huma''"

datatype error_info = EPubkey pubkey | EString string | EStaticStr string

text \<open>\<open>Display for ErrorInfo\<close>, over the chain library's rendering of a key.\<close>

fun display_error_info :: "(pubkey \<Rightarrow> string) \<Rightarrow> error_info \<Rightarrow> string" where
  "display_error_info show_key (EPubkey k) = show_key k"
| "display_error_info show_key (EString s) = s"
| "display_error_info show_key (EStaticStr s) = s"

text \<open>The RPC client's own error is carried as its message.\<close>

datatype account_cache_error =
  FailedToFetchAccount string
| FailedToAcquireWriteLock
| FailedToAcquireReadLock

datatype venue_error =
  NoAccountFound error_info
| FromAccountError error_info
| FailedToFetchMultipleAccountData
| FailedToFetchAccountData error_info
| DeserializationFailed error_info
| CacheUnlockFailed
| NotInitialized error_info
| MissingState error_info
| InvalidMint error_info
| CheckedMathError error_info
| AmmMethodError error_info
| ExactOutNotSupported
| DataConversionError error_info
| BoundarySearchFailed error_info
| NoQuotableValue error_info
| SomethingWentWrong string
| UnsupportedVenue error_info
| TokenInfoIndexError nat
| MathError error_info
| DeserializationError error_info
| InactivePoolError pubkey pool_protocol
| AccountCacheError account_cache_error

text \<open>\<open>From<&str> for ErrorInfo\<close>, for the errors raised with a literal.\<close>

definition missing_state :: "string \<Rightarrow> venue_error" where
  "missing_state s = MissingState (EStaticStr s)"

definition deserialization_failed :: "string \<Rightarrow> venue_error" where
  "deserialization_failed s = DeserializationFailed (EStaticStr s)"

definition amm_method_error :: "string \<Rightarrow> venue_error" where
  "amm_method_error s = AmmMethodError (EStaticStr s)"

section \<open>Quotes\<close>

datatype swap_type = ExactIn | ExactOut

record quote_request =
  req_input_mint :: pubkey
  req_output_mint :: pubkey
  req_amount :: u64
  req_swap_type :: swap_type

definition exact_in_request :: "pubkey \<Rightarrow> pubkey \<Rightarrow> u64 \<Rightarrow> quote_request" where
  "exact_in_request i out_mint x =
     \<lparr>req_input_mint = i, req_output_mint = out_mint, req_amount = x, req_swap_type = ExactIn\<rparr>"

record quote_result =
  qr_input_mint :: pubkey
  qr_output_mint :: pubkey
  qr_amount :: u64
  qr_expected_output :: u64
  qr_not_enough_liquidity :: bool
  qr_price :: f64

section \<open>Third-party functions\<close>

text \<open>
  The library functions the sources call, as an argument \<open>X\<close> of the definitions that
  use them: program-derived addresses, associated token accounts, SHA-256
  (\<open>hash::hashv\<close>), and the unpacking of SPL mint and token accounts.
  \<open>token_amount_unpack\<close> is \<open>unpack_unchecked\<close>, \<open>token_amount_unpack_checked\<close> is \<open>unpack\<close>,
  which also wants an initialized account; both are read for the amount only.
  \<open>mint_unpack\<close> gives, for a mint account's data, its decimals and the optional
  transfer-fee extension, itself a function of the epoch.
\<close>

record ext =
  find_pda :: "u8 list list \<Rightarrow> pubkey \<Rightarrow> pubkey"
  create_pda :: "u8 list list \<Rightarrow> pubkey \<Rightarrow> pubkey option"
  ata_with_program :: "pubkey \<Rightarrow> pubkey \<Rightarrow> pubkey \<Rightarrow> pubkey"
  hashv :: "u8 list list \<Rightarrow> u8 list"
  mint_unpack :: "u8 list \<Rightarrow> (u8 \<times> (u64 \<Rightarrow> u16 \<times> u64) option) option"
  mint_supply_unpack :: "u8 list \<Rightarrow> string + u64"
  token_amount_unpack :: "u8 list \<Rightarrow> string + u64"
  token_amount_unpack_checked :: "u8 list \<Rightarrow> u64 option"

section \<open>Token metadata (\<open>token_info.rs\<close>)\<close>

definition TOKEN_PROGRAM_ID :: pubkey where
  "TOKEN_PROGRAM_ID =
     3106054211088883198575105191760876350940303353676611666299516346430146937001"

definition TOKEN_2022_PROGRAM_ID :: pubkey where
  "TOKEN_2022_PROGRAM_ID =
     3106054213517619466333521364411816883583182866730275619636245252638471457788"

record token_info =
  ti_pubkey :: pubkey
  ti_decimals :: nat
  is_token_2022 :: bool
  transfer_fee :: "u16 option"
  maximum_fee :: "u64 option"

definition token_info_new ::
  "'x ext_scheme \<Rightarrow> pubkey \<Rightarrow> account \<Rightarrow> u64 \<Rightarrow> (venue_error, token_info) res" where
  "token_info_new X k acc epoch =
     (case mint_unpack X (acc_data acc) of
        None \<Rightarrow> Err (DeserializationFailed (EPubkey k))
      | Some (decimals, fee_config) \<Rightarrow>
          Ok \<lparr>ti_pubkey = k,
              ti_decimals = unat decimals,
              is_token_2022 = (acc_owner acc = TOKEN_2022_PROGRAM_ID),
              transfer_fee = map_option (\<lambda>c. fst (c epoch)) fee_config,
              maximum_fee = map_option (\<lambda>c. snd (c epoch)) fee_config\<rparr>)"

definition get_token_program :: "token_info \<Rightarrow> pubkey" where
  "get_token_program t = (if is_token_2022 t then TOKEN_2022_PROGRAM_ID else TOKEN_PROGRAM_ID)"

definition get_associated_token_address :: "'x ext_scheme \<Rightarrow> token_info \<Rightarrow> pubkey \<Rightarrow> pubkey" where
  "get_associated_token_address X t wallet =
     ata_with_program X wallet (ti_pubkey t) (get_token_program t)"

section \<open>Venue creation (\<open>venue_creation.rs\<close>)\<close>

record parsed_instruction =
  pi_program_id :: pubkey
  pi_accounts :: "pubkey list"
  pi_data :: "u8 list"

record pool_creation =
  pc_protocol :: pool_protocol
  pc_pool :: pubkey
  pc_mints :: "pubkey list"

section \<open>The \<open>TradingVenue\<close> trait object\<close>

text \<open>
  The methods a caller reaches through \<open>&dyn TradingVenue\<close>, closed over the venue's
  state. \<open>update_state\<close>, which changes that state, is a function of each venue's own
  theory. Default methods of the trait are functions of the record.
\<close>

record trading_venue =
  v_initialized :: bool
  v_program_id :: pubkey
  v_program_dependencies :: "pubkey list"
  v_market_id :: pubkey
  v_get_token_info :: "token_info list"
  v_protocol :: pool_protocol
  v_required_pubkeys :: "(venue_error, pubkey list) res"
  v_quote :: "quote_request \<Rightarrow> (venue_error, quote_result) res"
  v_generate_swap_instruction :: "quote_request \<Rightarrow> pubkey \<Rightarrow> (venue_error, instruction) res"

definition tradable_mints :: "trading_venue \<Rightarrow> pubkey list" where
  "tradable_mints v = map ti_pubkey (v_get_token_info v)"

definition decimals :: "trading_venue \<Rightarrow> nat list" where
  "decimals v = map ti_decimals (v_get_token_info v)"

definition label :: "trading_venue \<Rightarrow> string" where
  "label v = protocol_string (v_protocol v)"

text \<open>\<open>get_token\<close>: a token by index.\<close>

definition get_token :: "trading_venue \<Rightarrow> nat \<Rightarrow> (venue_error, token_info) res" where
  "get_token v i = ok_or (get (v_get_token_info v) i) (TokenInfoIndexError i)"

text \<open>
  \<open>directions_num\<close>: all ordered pairs of distinct indices, of the indices that fit a byte.
\<close>

definition u8_indices :: "trading_venue \<Rightarrow> u8 list" where
  "u8_indices v = map of_nat (filter (\<lambda>i. i < 256) [0..<length (v_get_token_info v)])"

definition directions_num :: "trading_venue \<Rightarrow> (u8 \<times> u8) list" where
  "directions_num v =
     concat (map (\<lambda>i. map (\<lambda>j. (i, j)) (filter (\<lambda>j. j \<noteq> i) (u8_indices v))) (u8_indices v))"

lemma set_u8_indices:
  "set (u8_indices v) = {i. unat i < length (v_get_token_info v)}"
proof -
  have "i \<in> of_nat ` {k. k < length (v_get_token_info v) \<and> k < 256}"
    if "unat i < length (v_get_token_info v)" for i :: u8
    using that unat_lt_len [of i] by (intro image_eqI [of _ _ "unat i"]) auto
  then show ?thesis
    by (auto simp: u8_indices_def unat_of_nat)
qed

lemma set_directions_num:
  "set (directions_num v) =
     {(i, j). i \<noteq> j \<and> unat i < length (v_get_token_info v) \<and> unat j < length (v_get_token_info v)}"
  by (auto simp: directions_num_def set_u8_indices)

lemma get_token_no_panic [simp]: "get_token v i \<noteq> Panic"
  by (simp add: get_token_def)

lemma get_token_eq_Inr [res_inv]:
  "get_token v i = Inr t \<longleftrightarrow> i < length (v_get_token_info v) \<and> v_get_token_info v ! i = t"
  by (simp add: get_token_def res_inv get_eq_Some)

end
