(* ===== verification/Bytes.thy ===== *)
theory Bytes
  imports Venue_Types
begin

text \<open>
  Little-endian bytes: \<open>to_le_bytes\<close> and \<open>from_le_bytes\<close> of the machine integers, the
  fields of a byte string read at an offset, the 32 bytes of a key, and the bytes of a
  string literal, with their round trips.
\<close>

section \<open>Natural numbers as little-endian bytes\<close>

fun le_bytes :: "nat \<Rightarrow> nat \<Rightarrow> u8 list" where
  "le_bytes 0 n = []"
| "le_bytes (Suc k) n = word_of_nat n # le_bytes k (n div 256)"

fun le_nat :: "u8 list \<Rightarrow> nat" where
  "le_nat [] = 0"
| "le_nat (b # bs) = unat b + 256 * le_nat bs"

named_theorems byte_simps \<open>lengths, slices and round trips of byte strings\<close>

lemma length_le_bytes [simp, byte_simps]: "length (le_bytes k n) = k"
  by (induction k arbitrary: n) auto

lemma le_nat_le_bytes: "le_nat (le_bytes k n) = n mod 256 ^ k"
proof (induction k arbitrary: n)
  case 0
  then show ?case by simp
next
  case (Suc k)
  have "n mod 256 ^ Suc k = n mod 256 + 256 * (n div 256 mod 256 ^ k)"
    by (simp add: mod_mult2_eq)
  then show ?case by (simp add: Suc.IH unat_of_nat)
qed

lemma le_nat_bound: "le_nat bs < 256 ^ length bs"
proof (induction bs)
  case Nil
  then show ?case by simp
next
  case (Cons b bs)
  have "unat b < 256" using unat_lt_len [of b] by simp
  with Cons show ?case by simp
qed

lemma le_bytes_le_nat: "le_bytes (length bs) (le_nat bs) = bs"
proof (induction bs)
  case Nil
  then show ?case by simp
next
  case (Cons b bs)
  have b: "unat b < 256" using unat_lt_len [of b] by simp
  have "word_of_nat (unat b + 256 * le_nat bs) = b"
    using b by (simp only: word_unat_eq_iff unat_of_nat) simp
  moreover have "(unat b + 256 * le_nat bs) div 256 = le_nat bs" using b by simp
  ultimately have "le_bytes (Suc (length bs)) (unat b + 256 * le_nat bs) = b # le_bytes (length bs) (le_nat bs)"
    by (simp only: le_bytes.simps)
  with Cons show ?case by simp
qed

section \<open>Machine integers\<close>

definition to_le_bytes :: "'w::len word \<Rightarrow> u8 list" where
  "to_le_bytes x = le_bytes (LENGTH('w) div 8) (unat x)"

definition from_le_bytes :: "u8 list \<Rightarrow> 'w::len word" where
  "from_le_bytes bs = word_of_nat (le_nat bs)"

lemma length_to_le_bytes [simp, byte_simps]:
  "length (to_le_bytes (x :: 'w::len word)) = LENGTH('w) div 8"
  by (simp add: to_le_bytes_def)

lemma from_to_le_bytes:
  assumes "8 dvd LENGTH('w)"
  shows "from_le_bytes (to_le_bytes (x :: 'w::len word)) = x"
proof -
  have "(256::nat) ^ (LENGTH('w) div 8) = 2 ^ (8 * (LENGTH('w) div 8))"
    by (simp add: power_mult)
  with assms show ?thesis
    by (simp add: from_le_bytes_def to_le_bytes_def le_nat_le_bytes)
qed

lemma from_to_le_bytes_sizes [simp, byte_simps]:
  "from_le_bytes (to_le_bytes (x64 :: u64)) = x64"
  "from_le_bytes (to_le_bytes (x32 :: u32)) = x32"
  "from_le_bytes (to_le_bytes (x16 :: u16)) = x16"
  "from_le_bytes (to_le_bytes (x128 :: u128)) = x128"
  by (simp_all add: from_to_le_bytes)

lemma to_from_le_bytes:
  assumes "8 * length bs = LENGTH('w)"
  shows "to_le_bytes (from_le_bytes bs :: 'w::len word) = bs"
proof -
  have "2 ^ LENGTH('w) = (256::nat) ^ length bs"
    using assms [symmetric] by (simp add: power_mult)
  then have "unat (from_le_bytes bs :: 'w word) = le_nat bs"
    using le_nat_bound [of bs] by (simp add: from_le_bytes_def unat_of_nat)
  moreover have "LENGTH('w) div 8 = length bs" using assms by simp
  ultimately show ?thesis by (simp add: to_le_bytes_def le_bytes_le_nat)
qed

lemma to_le_bytes_inject:
  assumes "8 dvd LENGTH('w)"
  shows "to_le_bytes (x :: 'w::len word) = to_le_bytes y \<longleftrightarrow> x = y"
  using from_to_le_bytes [OF assms] by metis

section \<open>Fields of a byte string\<close>

definition slice :: "nat \<Rightarrow> nat \<Rightarrow> 'a list \<Rightarrow> 'a list" where
  "slice i n bs = take n (drop i bs)"

lemma slice_append_here [byte_simps]: "i = length xs \<Longrightarrow> n = length ys \<Longrightarrow> slice i n (xs @ ys @ zs) = ys"
  by (simp add: slice_def)

lemma length_slice: "i + n \<le> length bs \<Longrightarrow> length (slice i n bs) = n"
  by (simp add: slice_def)

lemma slice_append_skip [byte_simps]:
  "length xs \<le> i \<Longrightarrow> slice i n (xs @ ys) = slice (i - length xs) n ys"
  by (simp add: slice_def)

lemma slice_append_take [byte_simps]:
  "n = length xs \<Longrightarrow> slice 0 n (xs @ ys) = xs" "n = length xs \<Longrightarrow> slice 0 n xs = xs"
  by (simp_all add: slice_def)

definition u64_at :: "u8 list \<Rightarrow> nat \<Rightarrow> u64" where
  "u64_at bs i = from_le_bytes (slice i 8 bs)"

definition u128_at :: "u8 list \<Rightarrow> nat \<Rightarrow> u128" where
  "u128_at bs i = from_le_bytes (slice i 16 bs)"

text \<open>A key is stored as the 32 bytes it spells, the most significant first.\<close>

definition key_bytes :: "pubkey \<Rightarrow> u8 list" where
  "key_bytes k = rev (to_le_bytes k)"

definition key_of_bytes :: "u8 list \<Rightarrow> pubkey" where
  "key_of_bytes bs = from_le_bytes (rev bs)"

definition key_at :: "u8 list \<Rightarrow> nat \<Rightarrow> pubkey" where
  "key_at bs i = key_of_bytes (slice i 32 bs)"

lemma length_key_bytes [simp, byte_simps]: "length (key_bytes k) = 32"
  by (simp add: key_bytes_def)

lemma key_of_key_bytes [simp, byte_simps]: "key_of_bytes (key_bytes k) = k"
  by (simp add: key_of_bytes_def key_bytes_def from_to_le_bytes)

lemma key_bytes_inject [simp]: "key_bytes a = key_bytes b \<longleftrightarrow> a = b"
  by (simp add: key_bytes_def to_le_bytes_inject)

section \<open>String literals as bytes\<close>

definition ascii :: "string \<Rightarrow> u8 list" where
  "ascii s = map (\<lambda>c. word_of_nat (of_char c)) s"

lemma length_ascii [simp]: "length (ascii s) = length s"
  by (simp add: ascii_def)

end
