(* ===== verification/Raydium_State.thy ===== *)
theory Raydium_State
  imports Bytes
begin

text \<open>
  The Raydium account model: the error enum (\<open>error.rs\<close>), the pool account
  (\<open>state.rs\<close>: status, fees with their pack and unpack, statistics, the whole
  \<open>AmmInfo\<close> read from its packed bytes), the pool authority (\<open>processor.rs\<close>) and the
  swap instruction (\<open>instruction.rs\<close>), all under \<open>src/example/raydium\<close>.
\<close>

section \<open>Errors\<close>

datatype (plugins only: size) amm_error =
  AlreadyInUse
| InvalidProgramAddress
| ExpectedMint
| ExpectedAccount
| InvalidCoinVault
| InvalidPCVault
| InvalidTokenLP
| InvalidDestTokenCoin
| InvalidDestTokenPC
| InvalidPoolMint
| InvalidOpenOrders
| InvalidMarket
| InvalidMarketProgram
| InvalidTargetOrders
| AccountNeedWriteable
| AccountNeedReadOnly
| InvalidCoinMint
| InvalidPCMint
| InvalidOwner
| InvalidSupply
| InvalidDelegate
| InvalidSignAccount
| InvalidStatus
| InvalidInstruction
| WrongAccountsNumber
| InvalidTargetAccountOwner
| InvalidTargetOwner
| InvalidAmmAccountOwner
| InvalidParamsSet
| InvalidInput
| ExceededSlippage
| CalculationExRateFailure
| CheckedSubOverflow
| CheckedAddOverflow
| CheckedMulOverflow
| CheckedDivOverflow
| CheckedEmptyFunds
| CalcPnlError
| InvalidSplTokenProgram
| TakePnlError
| InsufficientFunds
| ConversionFailure
| InvalidUserToken
| InvalidSrmMint
| InvalidSrmToken
| TooManyOpenOrders
| OrderAtSlotIsPlaced
| InvalidSysProgramAddress
| InvalidFee
| RepeatCreateAmm
| NotAllowZeroLP
| InvalidCloseAuthority
| InvalidFreezeAuthority
| InvalidReferPCMint
| InvalidConfigAccount
| RepeatCreateConfigAccount
| MarketLotSizeIsTooLarge
| InitLpAmountTooLess
| UnknownAmmError

text \<open>\<open>From<AmmError> for ProgramError\<close>: the custom code is the declaration index.\<close>

definition amm_errors :: "amm_error list" where
  "amm_errors =
    [AlreadyInUse, InvalidProgramAddress, ExpectedMint, ExpectedAccount, InvalidCoinVault,
     InvalidPCVault, InvalidTokenLP, InvalidDestTokenCoin, InvalidDestTokenPC,
     InvalidPoolMint, InvalidOpenOrders, InvalidMarket, InvalidMarketProgram,
     InvalidTargetOrders, AccountNeedWriteable, AccountNeedReadOnly, InvalidCoinMint,
     InvalidPCMint, InvalidOwner, InvalidSupply, InvalidDelegate, InvalidSignAccount,
     InvalidStatus, InvalidInstruction, WrongAccountsNumber, InvalidTargetAccountOwner,
     InvalidTargetOwner, InvalidAmmAccountOwner, InvalidParamsSet, InvalidInput,
     ExceededSlippage, CalculationExRateFailure, CheckedSubOverflow, CheckedAddOverflow,
     CheckedMulOverflow, CheckedDivOverflow, CheckedEmptyFunds, CalcPnlError,
     InvalidSplTokenProgram, TakePnlError, InsufficientFunds, ConversionFailure,
     InvalidUserToken, InvalidSrmMint, InvalidSrmToken, TooManyOpenOrders,
     OrderAtSlotIsPlaced, InvalidSysProgramAddress, InvalidFee, RepeatCreateAmm,
     NotAllowZeroLP, InvalidCloseAuthority, InvalidFreezeAuthority, InvalidReferPCMint,
     InvalidConfigAccount, RepeatCreateConfigAccount, MarketLotSizeIsTooLarge,
     InitLpAmountTooLess, UnknownAmmError]"

definition amm_error_code :: "amm_error \<Rightarrow> u32" where
  "amm_error_code e = of_nat (the (position (\<lambda>x. x = e) amm_errors))"

section \<open>Pool status\<close>

datatype amm_status_kind =
  Uninitialized | Initialized | Disabled | WithdrawOnly | LiquidityOnly | OrderBookOnly
| SwapOnly | WaitingTrade

text \<open>\<open>AmmStatus::from_u64\<close>: any other number is \<open>unreachable!()\<close>.\<close>

definition status_from_u64 :: "u64 \<Rightarrow> ('e, amm_status_kind) res" where
  "status_from_u64 status =
     (if status = 0 then Ok Uninitialized
      else if status = 1 then Ok Initialized
      else if status = 2 then Ok Disabled
      else if status = 3 then Ok WithdrawOnly
      else if status = 4 then Ok LiquidityOnly
      else if status = 5 then Ok OrderBookOnly
      else if status = 6 then Ok SwapOnly
      else if status = 7 then Ok WaitingTrade
      else Panic)"

fun orderbook_permission :: "amm_status_kind \<Rightarrow> bool" where
  "orderbook_permission Uninitialized = False"
| "orderbook_permission Initialized = True"
| "orderbook_permission Disabled = False"
| "orderbook_permission WithdrawOnly = False"
| "orderbook_permission LiquidityOnly = False"
| "orderbook_permission OrderBookOnly = True"
| "orderbook_permission SwapOnly = False"
| "orderbook_permission WaitingTrade = False"

section \<open>The packed account\<close>

record fees =
  fs_min_separate_numerator :: u64
  fs_min_separate_denominator :: u64
  fs_trade_fee_numerator :: u64
  fs_trade_fee_denominator :: u64
  fs_pnl_numerator :: u64
  fs_pnl_denominator :: u64
  fs_swap_fee_numerator :: u64
  fs_swap_fee_denominator :: u64

text \<open>
  \<open>Pack for Fees\<close>. \<open>pack_into_slice\<close> writes the first 64 bytes of its output and
  keeps the rest; \<open>array_mut_ref!\<close> and \<open>array_ref!\<close> panic on a shorter slice.
\<close>

definition fees_bytes :: "fees \<Rightarrow> u8 list" where
  "fees_bytes f =
     to_le_bytes (fs_min_separate_numerator f) @
     to_le_bytes (fs_min_separate_denominator f) @
     to_le_bytes (fs_trade_fee_numerator f) @
     to_le_bytes (fs_trade_fee_denominator f) @
     to_le_bytes (fs_pnl_numerator f) @
     to_le_bytes (fs_pnl_denominator f) @
     to_le_bytes (fs_swap_fee_numerator f) @
     to_le_bytes (fs_swap_fee_denominator f)"

definition pack_into_slice :: "fees \<Rightarrow> u8 list \<Rightarrow> ('e, u8 list) res" where
  "pack_into_slice f output =
     (if length output < 64 then Panic else Ok (fees_bytes f @ drop 64 output))"

definition fees_at :: "u8 list \<Rightarrow> nat \<Rightarrow> fees" where
  "fees_at data i = (let bs = slice i 64 data in
     \<lparr>fs_min_separate_numerator = u64_at bs 0,
      fs_min_separate_denominator = u64_at bs 8,
      fs_trade_fee_numerator = u64_at bs 16,
      fs_trade_fee_denominator = u64_at bs 24,
      fs_pnl_numerator = u64_at bs 32,
      fs_pnl_denominator = u64_at bs 40,
      fs_swap_fee_numerator = u64_at bs 48,
      fs_swap_fee_denominator = u64_at bs 56\<rparr>)"

definition unpack_from_slice :: "u8 list \<Rightarrow> ('e, fees) res" where
  "unpack_from_slice input = (if length input < 64 then Panic else Ok (fees_at input 0))"

record state_data =
  sd_need_take_pnl_coin :: u64
  sd_need_take_pnl_pc :: u64
  sd_total_pnl_pc :: u64
  sd_total_pnl_coin :: u64
  sd_pool_open_time :: u64
  sd_punish_pc_amount :: u64
  sd_punish_coin_amount :: u64
  sd_orderbook_to_init_time :: u64
  sd_swap_coin_in_amount :: u128
  sd_swap_pc_out_amount :: u128
  sd_swap_acc_pc_fee :: u64
  sd_swap_pc_in_amount :: u128
  sd_swap_coin_out_amount :: u128
  sd_swap_acc_coin_fee :: u64

definition state_data_at :: "u8 list \<Rightarrow> nat \<Rightarrow> state_data" where
  "state_data_at data i = (let bs = slice i 144 data in
     \<lparr>sd_need_take_pnl_coin = u64_at bs 0,
      sd_need_take_pnl_pc = u64_at bs 8,
      sd_total_pnl_pc = u64_at bs 16,
      sd_total_pnl_coin = u64_at bs 24,
      sd_pool_open_time = u64_at bs 32,
      sd_punish_pc_amount = u64_at bs 40,
      sd_punish_coin_amount = u64_at bs 48,
      sd_orderbook_to_init_time = u64_at bs 56,
      sd_swap_coin_in_amount = u128_at bs 64,
      sd_swap_pc_out_amount = u128_at bs 80,
      sd_swap_acc_pc_fee = u64_at bs 96,
      sd_swap_pc_in_amount = u128_at bs 104,
      sd_swap_coin_out_amount = u128_at bs 120,
      sd_swap_acc_coin_fee = u64_at bs 136\<rparr>)"

record amm_info =
  ai_status :: u64
  ai_nonce :: u64
  ai_order_num :: u64
  ai_depth :: u64
  ai_coin_decimals :: u64
  ai_pc_decimals :: u64
  ai_state :: u64
  ai_reset_flag :: u64
  ai_min_size :: u64
  ai_vol_max_cut_ratio :: u64
  ai_amount_wave :: u64
  ai_coin_lot_size :: u64
  ai_pc_lot_size :: u64
  ai_min_price_multiplier :: u64
  ai_max_price_multiplier :: u64
  ai_sys_decimal_value :: u64
  ai_fees :: fees
  ai_state_data :: state_data
  ai_coin_vault :: pubkey
  ai_pc_vault :: pubkey
  ai_coin_vault_mint :: pubkey
  ai_pc_vault_mint :: pubkey
  ai_lp_mint :: pubkey
  ai_open_orders :: pubkey
  ai_market :: pubkey
  ai_market_program :: pubkey
  ai_target_orders :: pubkey
  ai_withdraw_queue :: pubkey
  ai_lp_vault :: pubkey
  ai_amm_owner :: pubkey
  ai_lp_amount :: u64
  ai_client_order_id :: u64
  ai_padding :: "u64 list"

text \<open>
  \<open>AmmInfo\<close> is \<open>repr(C, packed)\<close>: its fields follow each other without padding, in
  752 bytes.
\<close>

definition AMM_INFO_SIZE :: nat where
  "AMM_INFO_SIZE = 752"

definition amm_info_of_bytes :: "u8 list \<Rightarrow> amm_info" where
  "amm_info_of_bytes bs =
     \<lparr>ai_status = u64_at bs 0,
      ai_nonce = u64_at bs 8,
      ai_order_num = u64_at bs 16,
      ai_depth = u64_at bs 24,
      ai_coin_decimals = u64_at bs 32,
      ai_pc_decimals = u64_at bs 40,
      ai_state = u64_at bs 48,
      ai_reset_flag = u64_at bs 56,
      ai_min_size = u64_at bs 64,
      ai_vol_max_cut_ratio = u64_at bs 72,
      ai_amount_wave = u64_at bs 80,
      ai_coin_lot_size = u64_at bs 88,
      ai_pc_lot_size = u64_at bs 96,
      ai_min_price_multiplier = u64_at bs 104,
      ai_max_price_multiplier = u64_at bs 112,
      ai_sys_decimal_value = u64_at bs 120,
      ai_fees = fees_at bs 128,
      ai_state_data = state_data_at bs 192,
      ai_coin_vault = key_at bs 336,
      ai_pc_vault = key_at bs 368,
      ai_coin_vault_mint = key_at bs 400,
      ai_pc_vault_mint = key_at bs 432,
      ai_lp_mint = key_at bs 464,
      ai_open_orders = key_at bs 496,
      ai_market = key_at bs 528,
      ai_market_program = key_at bs 560,
      ai_target_orders = key_at bs 592,
      ai_withdraw_queue = key_at bs 624,
      ai_lp_vault = key_at bs 656,
      ai_amm_owner = key_at bs 688,
      ai_lp_amount = u64_at bs 720,
      ai_client_order_id = u64_at bs 728,
      ai_padding = [u64_at bs 736, u64_at bs 744]\<rparr>"

text \<open>
  The two readers of the source: \<open>bytemuck::from_bytes\<close> panics on a slice of another
  size, \<open>transmute_one_pedantic\<close> returns an error.
\<close>

definition load_from_bytes :: "u8 list \<Rightarrow> ('e, amm_info) res" where
  "load_from_bytes data =
     (if length data = AMM_INFO_SIZE then Ok (amm_info_of_bytes data) else Panic)"

definition transmute_amm_info :: "u8 list \<Rightarrow> amm_info option" where
  "transmute_amm_info data =
     (if length data = AMM_INFO_SIZE then Some (amm_info_of_bytes data) else None)"

section \<open>Authority and swap instruction\<close>

definition AUTHORITY_AMM :: "u8 list" where
  "AUTHORITY_AMM = ascii ''amm authority''"

definition authority_id ::
  "'x ext_scheme \<Rightarrow> pubkey \<Rightarrow> u8 list \<Rightarrow> u8 \<Rightarrow> (amm_error, pubkey) res" where
  "authority_id X program_id amm_seed nonce =
     ok_or (create_pda X [amm_seed, [nonce]] program_id) InvalidProgramAddress"

record swap_instruction_base_in =
  sbi_amount_in :: u64
  sbi_minimum_amount_out :: u64

datatype amm_instruction = SwapBaseInV2 swap_instruction_base_in

fun amm_instruction_pack :: "amm_instruction \<Rightarrow> u8 list" where
  "amm_instruction_pack (SwapBaseInV2 s) =
     [16] @ to_le_bytes (sbi_amount_in s) @ to_le_bytes (sbi_minimum_amount_out s)"

definition swap_base_in_v2 ::
  "pubkey \<Rightarrow> pubkey \<Rightarrow> pubkey \<Rightarrow> pubkey \<Rightarrow> pubkey \<Rightarrow> pubkey \<Rightarrow> pubkey \<Rightarrow> pubkey \<Rightarrow> u64 \<Rightarrow> u64
    \<Rightarrow> instruction" where
  "swap_base_in_v2 amm_program amm_pool amm_authority amm_coin_vault amm_pc_vault
      user_token_source user_token_destination user_source_owner amount_in minimum_amount_out =
     \<lparr>ix_program_id = amm_program,
      ix_accounts =
        [meta_readonly TOKEN_PROGRAM_ID False,
         meta_new amm_pool False,
         meta_readonly amm_authority False,
         meta_new amm_coin_vault False,
         meta_new amm_pc_vault False,
         meta_new user_token_source False,
         meta_new user_token_destination False,
         meta_readonly user_source_owner True],
      ix_data = amm_instruction_pack (SwapBaseInV2
        \<lparr>sbi_amount_in = amount_in, sbi_minimum_amount_out = minimum_amount_out\<rparr>)\<rparr>"

section \<open>Properties\<close>

lemma length_fees_bytes [simp]: "length (fees_bytes f) = 64"
  by (simp add: fees_bytes_def)

lemma fees_at_fees_bytes: "fees_at (fees_bytes f @ rest) 0 = f"
proof -
  have "slice 0 64 (fees_bytes f @ rest) = fees_bytes f"
    by (simp add: byte_simps)
  then show ?thesis
    by (simp add: fees_at_def Let_def) (simp add: fees_bytes_def u64_at_def byte_simps)
qed

lemma fees_bytes_fees_at:
  assumes "64 \<le> length bs"
  shows "fees_bytes (fees_at bs 0) = take 64 bs"
proof -
  have join: "take m xs @ slice m n xs = take (m + n) xs" for m n and xs :: "u8 list"
    by (simp add: slice_def take_add)
  obtain c where c: "c = take 64 bs" by blast
  then have len: "length c = 64" using assms by simp
  have "((((((take 8 c @ slice 8 8 c) @ slice 16 8 c) @ slice 24 8 c) @ slice 32 8 c)
      @ slice 40 8 c) @ slice 48 8 c) @ slice 56 8 c = take 64 c"
    by (simp add: join del: append_assoc)
  moreover have "take 8 c = slice 0 8 c" "take 64 c = c" "slice 0 64 bs = c"
    using len c by (simp_all add: slice_def)
  ultimately show ?thesis
    by (simp add: fees_bytes_def fees_at_def Let_def u64_at_def to_from_le_bytes length_slice len c [symmetric])
qed

lemma position_nth:
  assumes "distinct xs" "i < length xs"
  shows "position (\<lambda>x. x = xs ! i) xs = Some i"
  using assms by (auto simp: position_eq_Some nth_eq_iff_index_eq)

lemma amm_errors_complete: "e \<in> set amm_errors"
  by (cases e) (simp_all add: amm_errors_def)

lemma amm_errors_distinct: "distinct amm_errors"
  by (simp add: amm_errors_def)

lemma length_amm_errors: "length amm_errors = 59"
  by (simp add: amm_errors_def)

lemma amm_error_code_nth: "i < 59 \<Longrightarrow> unat (amm_error_code (amm_errors ! i)) = i"
  by (simp add: amm_error_code_def position_nth amm_errors_distinct length_amm_errors unat_of_nat)

text \<open>
  Writing a \<open>Fees\<close> record into a buffer keeps the buffer's length and its bytes
  after the first 64, and reading the buffer back gives the record; reading the fees of
  a long enough buffer and writing them over it changes nothing.
\<close>

theorem fees_pack_unpack:
  "64 \<le> length output \<longrightarrow>
    (\<exists>out. pack_into_slice f output = (Ok out :: ('e, u8 list) res) \<and> length out = length output \<and>
      drop 64 out = drop 64 output \<and> unpack_from_slice out = (Ok f :: ('e, fees) res)) \<and>
    (\<exists>g. unpack_from_slice output = (Ok g :: ('e, fees) res) \<and>
      pack_into_slice g output = (Ok output :: ('e, u8 list) res))"
  by (auto simp: pack_into_slice_def unpack_from_slice_def fees_at_fees_bytes fees_bytes_fees_at)

theorem fees_pack_unpack_witness:
  "\<exists>out. pack_into_slice (fees_at (replicate 64 1) 0) (replicate 70 7) = (Ok out :: (unit, u8 list) res)
    \<and> unpack_from_slice out = (Ok (fees_at (replicate 64 1) 0) :: (unit, fees) res)"
  using fees_pack_unpack [of "replicate 70 7" "fees_at (replicate 64 1) 0"] by auto

text \<open>
  Every error of the pool program has its own custom code, and the codes are the ones
  the comments of the enum announce every five variants.
\<close>

theorem amm_error_codes:
  "inj amm_error_code \<and>
   map (unat \<circ> amm_error_code)
     [AlreadyInUse, InvalidPCVault, InvalidOpenOrders, AccountNeedReadOnly, InvalidDelegate,
      InvalidTargetAccountOwner, ExceededSlippage, CheckedDivOverflow, InsufficientFunds,
      TooManyOpenOrders, NotAllowZeroLP, RepeatCreateConfigAccount, UnknownAmmError] =
   [0, 5, 10, 15, 20, 25, 30, 35, 40, 45, 50, 55, 58]"
proof
  have "\<exists>i<59. e = amm_errors ! i" for e
    using amm_errors_complete [of e] by (metis in_set_conv_nth length_amm_errors)
  then show "inj amm_error_code"
    by (intro injI) (metis amm_error_code_nth)
qed (simp add: amm_error_code_def amm_errors_def unat_of_nat)

end
