(* ===== verification/Raydium_Math.thy ===== *)
theory Raydium_Math
  imports Raydium_State
begin

text \<open>
  The Raydium swap arithmetic: the calculator and the ceiling division of
  \<open>src/example/raydium/math.rs\<close>, the quoting functions of \<open>src/example/amm.rs\<close>, and the
  marginal price of \<open>src/example/mod.rs\<close>. The 128-bit integers of \<open>construct_uint!\<close> are
  128-bit words; their \<open>as_u64\<close> panics on a value above 64 bits.
\<close>

section \<open>Ceiling division\<close>

text \<open>
  \<open>CheckedCeilDiv\<close>: the quotient rounded up, with the divisor recomputed for it. A
  quotient of zero is rounded to the nearest of 0 and 1 instead.
\<close>

definition checked_ceil_div :: "u128 \<Rightarrow> u128 \<Rightarrow> (u128 \<times> u128) option" where
  "checked_ceil_div a rhs =
     Option.bind (checked_div a rhs) (\<lambda>quotient.
       if quotient = 0 then
         Option.bind (checked_mul a 2) (\<lambda>twice. if rhs \<le> twice then Some (1, 0) else Some (0, 0))
       else
         Option.bind (checked_rem a rhs) (\<lambda>remainder.
           if 0 < remainder then
             Option.bind (checked_add quotient 1) (\<lambda>quotient.
             Option.bind (checked_div a quotient) (\<lambda>rhs.
             Option.bind (checked_rem a quotient) (\<lambda>remainder.
               if 0 < remainder then
                 Option.bind (checked_add rhs 1) (\<lambda>rhs. Some (quotient, rhs))
               else Some (quotient, rhs))))
           else Some (quotient, rhs)))"

section \<open>The calculator\<close>

datatype swap_direction = PC2Coin | Coin2PC

definition calc_total_without_take_pnl_no_orderbook ::
  "u64 \<Rightarrow> u64 \<Rightarrow> amm_info \<Rightarrow> (amm_error, u64 \<times> u64) res" where
  "calc_total_without_take_pnl_no_orderbook pc_amount coin_amount amm =
     bindR (ok_or (checked_sub pc_amount (sd_need_take_pnl_pc (ai_state_data amm)))
       CheckedSubOverflow) (\<lambda>total_pc.
     bindR (ok_or (checked_sub coin_amount (sd_need_take_pnl_coin (ai_state_data amm)))
       CheckedSubOverflow) (\<lambda>total_coin.
       Ok (total_pc, total_coin)))"

fun swap_token_amount_base_in ::
  "u128 \<Rightarrow> u128 \<Rightarrow> u128 \<Rightarrow> swap_direction \<Rightarrow> (venue_error, u128) res" where
  "swap_token_amount_base_in amount_in total_pc total_coin Coin2PC =
     bindR (unwrap (checked_add total_coin amount_in)) (\<lambda>denominator.
     bindR (unwrap (checked_mul total_pc amount_in)) (\<lambda>product.
       unwrap (checked_div product denominator)))"
| "swap_token_amount_base_in amount_in total_pc total_coin PC2Coin =
     bindR (unwrap (checked_add total_pc amount_in)) (\<lambda>denominator.
     bindR (unwrap (checked_mul total_coin amount_in)) (\<lambda>product.
       unwrap (checked_div product denominator)))"

fun swap_token_amount_base_out ::
  "u128 \<Rightarrow> u128 \<Rightarrow> u128 \<Rightarrow> swap_direction \<Rightarrow> (venue_error, u128) res" where
  "swap_token_amount_base_out amount_out total_pc total_coin Coin2PC =
     bindR (unwrap (checked_sub total_pc amount_out)) (\<lambda>denominator.
     bindR (unwrap (checked_mul total_coin amount_out)) (\<lambda>product.
     bindR (unwrap (checked_ceil_div product denominator)) (\<lambda>q. Ok (fst q))))"
| "swap_token_amount_base_out amount_out total_pc total_coin PC2Coin =
     bindR (unwrap (checked_sub total_coin amount_out)) (\<lambda>denominator.
     bindR (unwrap (checked_mul total_pc amount_out)) (\<lambda>product.
     bindR (unwrap (checked_ceil_div product denominator)) (\<lambda>q. Ok (fst q))))"

section \<open>Quoting\<close>

definition TEN_THOUSAND :: u64 where
  "TEN_THOUSAND = 10000"

definition TEN_THOUSAND_U128 :: u128 where
  "TEN_THOUSAND_U128 = 10000"

definition as_u64 :: "u128 \<Rightarrow> ('e, u64) res" where
  "as_u64 x = (if unat x < 2 ^ 64 then Ok (ucast x) else Panic)"

definition math_error :: "string \<Rightarrow> venue_error" where
  "math_error s = MathError (EStaticStr s)"

definition swap_exact_amount ::
  "u64 \<Rightarrow> u64 \<Rightarrow> u64 \<Rightarrow> u64 \<Rightarrow> swap_direction \<Rightarrow> u64 \<Rightarrow> bool \<Rightarrow> (venue_error, u64) res" where
  "swap_exact_amount pc_vault_amount coin_vault_amount swap_fee_numerator swap_fee_denominator
      direction amount_specified swap_base_in =
     (if swap_base_in then
        bindR (ok_or (checked_mul (ucast amount_specified :: u128) (ucast swap_fee_numerator))
          (math_error ''swap fee checked math error'')) (\<lambda>product.
        bindR (ok_or (checked_ceil_div product (ucast swap_fee_denominator))
          (math_error ''swap fee checked math error'')) (\<lambda>(swap_fee, _).
        if swap_fee = 0 then Err (math_error ''Invalid fee amount'')
        else
          bindR (ok_or (checked_sub (ucast amount_specified) swap_fee)
            (math_error ''swap_in_after_deduct_fee checked math error'')) (\<lambda>after_fee.
          bindR (swap_token_amount_base_in after_fee (ucast pc_vault_amount)
            (ucast coin_vault_amount) direction) as_u64)))
      else
        bindR (swap_token_amount_base_out (ucast amount_specified) (ucast pc_vault_amount)
          (ucast coin_vault_amount) direction) (\<lambda>before_add_fee.
        bindR (ok_or (checked_mul before_add_fee (ucast swap_fee_denominator))
          (math_error ''swap_in_after_add_fee checked math error'')) (\<lambda>product.
        bindR (ok_or (checked_sub swap_fee_denominator swap_fee_numerator)
          (math_error ''swap_in_after_add_fee checked math error'')) (\<lambda>keep.
        bindR (ok_or (checked_ceil_div product (ucast keep))
          (math_error ''swap_in_after_add_fee checked math error'')) (\<lambda>(after_add_fee, _).
          as_u64 after_add_fee)))))"

definition max_amount_with_slippage :: "u64 \<Rightarrow> u64 \<Rightarrow> (venue_error, u64) res" where
  "max_amount_with_slippage input_amount slippage_bps =
     bindR (unwrap (checked_add TEN_THOUSAND slippage_bps)) (\<lambda>mult.
     bindR (unwrap (checked_mul (ucast input_amount :: u128) (ucast mult))) (\<lambda>dividend.
       as_u64 (dividend div TEN_THOUSAND_U128)))"

definition min_amount_with_slippage :: "u64 \<Rightarrow> u64 \<Rightarrow> (venue_error, u64) res" where
  "min_amount_with_slippage input_amount slippage_bps =
     bindR (unwrap (checked_mul (ucast input_amount :: u128)
       (ucast (saturating_sub TEN_THOUSAND slippage_bps)))) (\<lambda>dividend.
       as_u64 (dividend div TEN_THOUSAND_U128))"

definition swap_with_slippage ::
  "u64 \<Rightarrow> u64 \<Rightarrow> u64 \<Rightarrow> u64 \<Rightarrow> u64 \<Rightarrow> u64 \<Rightarrow> swap_direction \<Rightarrow> u64 \<Rightarrow> bool \<Rightarrow> u64
    \<Rightarrow> (venue_error, u64) res" where
  "swap_with_slippage pc_amount coin_amount pc_vault_amount coin_vault_amount
      swap_fee_numerator swap_fee_denominator direction amount_specified swap_base_in
      slippage_bps =
     (if (direction = PC2Coin \<and> checked_add pc_amount amount_specified = None) \<or>
         (direction = Coin2PC \<and> checked_add coin_amount amount_specified = None)
      then Err (math_error ''Amount exceeds possible threshold'')
      else
        bindR (swap_exact_amount pc_vault_amount coin_vault_amount swap_fee_numerator
          swap_fee_denominator direction amount_specified swap_base_in) (\<lambda>other_amount.
        bindR (if swap_base_in then min_amount_with_slippage other_amount slippage_bps
               else max_amount_with_slippage other_amount slippage_bps) (\<lambda>threshold.
        if (direction = Coin2PC \<and> pc_vault_amount \<le> threshold) \<or>
           (direction = PC2Coin \<and> coin_vault_amount \<le> threshold)
        then Err (math_error ''Output amounds exceed tolerance'')
        else Ok threshold)))"

section \<open>Price\<close>

record calculate_result =
  cr_pool_pc_vault_amount :: u64
  cr_pool_coin_vault_amount :: u64
  cr_pool_lp_amount :: u64
  cr_swap_fee_numerator :: u64
  cr_swap_fee_denominator :: u64

definition raydium_price :: "calculate_result \<Rightarrow> swap_direction \<Rightarrow> u64 \<Rightarrow> f64" where
  "raydium_price c direction amount =
     (let (input_reserve, output_reserve) =
        (case direction of
           Coin2PC \<Rightarrow> (f_of_u64 (cr_pool_coin_vault_amount c), f_of_u64 (cr_pool_pc_vault_amount c))
         | PC2Coin \<Rightarrow> (f_of_u64 (cr_pool_pc_vault_amount c), f_of_u64 (cr_pool_coin_vault_amount c)));
        fee_fraction =
          (if cr_swap_fee_denominator c = 0 then f_of_nat 0
           else f_div (f_of_u64 (cr_swap_fee_numerator c)) (f_of_u64 (cr_swap_fee_denominator c)));
        keep = f_sub (f_of_nat 1) fee_fraction;
        effective_in = f_mul keep (f_of_u64 amount);
        denom = f_add input_reserve effective_in
      in f_div (f_mul (f_mul output_reserve keep) input_reserve) (f_mul denom denom))"

section \<open>The ceiling division computed\<close>

lemma unat_div_128 [unat_ops]: "unat (a div b :: u128) = unat a div unat b"
  by (simp add: unat_div)

lemma unat_mod_128 [unat_ops]: "unat (a mod b :: u128) = unat a mod unat b"
  by (simp add: unat_mod)

lemma div_eq_0_iff_128: "b \<noteq> 0 \<Longrightarrow> a div b = 0 \<longleftrightarrow> a < b" for a b :: u128
  by (simp add: word_unat_eq_iff [of "a div b"] unat_div word_less_nat_alt unat_eq_0 div_eq_0_iff)

lemma checked_ceil_div_small:
  assumes "a < b" "2 * unat a < 2 ^ 128"
  shows "checked_ceil_div a b = Some (if unat b \<le> 2 * unat a then 1 else 0, 0)"
proof -
  have b: "b \<noteq> 0" using assms(1) by auto
  have "checked_mul a 2 = Some (a * 2)" "unat (a * 2) = 2 * unat a"
    using assms(2) by (simp_all add: checked_mul_def unat_mult_fits)
  then show ?thesis using assms(1) b
    by (simp add: checked_ceil_div_def checked_div_def div_eq_0_iff_128 word_le_nat_alt)
qed

lemma checked_ceil_div_large:
  assumes b: "b \<noteq> 0" "b \<le> a"
  obtains q r where "checked_ceil_div a b = Some (q, r)"
    "unat q = ceil_div (unat a) (unat b)" "unat r = ceil_div (unat a) (unat q)"
proof -
  have nz: "a div b \<noteq> 0" using b leD [OF b(2)] by (simp add: div_eq_0_iff_128)
  show thesis
  proof (cases "a mod b = 0")
    case True
    have "unat b dvd unat a" using True by (simp add: word_unat_eq_iff unat_mod dvd_eq_mod_eq_0)
    then have "unat b = ceil_div (unat a) (unat (a div b))" "unat (a div b) = ceil_div (unat a) (unat b)"
      using b by (auto simp: ceil_div_div_mod unat_div word_le_nat_alt unat_gt_0 dvd_div_eq_0_iff elim!: dvdE)
    then show thesis using b True nz
      by (intro that [of "a div b" b])
        (simp_all add: checked_ceil_div_def checked_div_def checked_rem_def)
  next
    case False
    let ?q = "a div b + 1"
    have pos: "0 < unat b" using b by (simp add: unat_gt_0)
    have rem: "unat a mod unat b \<noteq> 0"
      using False by (simp add: word_unat_eq_iff unat_mod)
    have "unat b \<noteq> 1" using rem by auto
    then have "unat a div unat b < unat a"
      using pos b by (intro div_less_dividend) (auto simp: word_le_nat_alt)
    then have fits: "unat (a div b) + 1 < 2 ^ 128"
      using unat_lt_len [of a] by (simp add: unat_div)
    then have q: "unat ?q = ceil_div (unat a) (unat b)"
      using rem by (simp add: unat_add_fits unat_div ceil_div_div_mod [OF pos])
    then have q0: "0 < unat ?q" using fits by (simp add: unat_add_fits)
    have fits': "unat (a div ?q) + 1 < 2 ^ 128" if "a mod ?q \<noteq> 0"
    proof -
      have "unat ?q \<noteq> 1" using that by (auto simp: word_unat_eq_iff [of "a mod ?q"] unat_mod)
      then have "unat a div unat ?q < unat a"
        using q0 b pos by (intro div_less_dividend) (auto simp: word_le_nat_alt)
      then show ?thesis using unat_lt_len [of a] by (simp add: unat_div)
    qed
    let ?r = "a div ?q + (if a mod ?q = 0 then 0 else 1)"
    have r: "unat ?r = ceil_div (unat a) (unat ?q)"
      using fits' by (auto simp: ceil_div_div_mod [OF q0] unat_add_fits unat_div unat_mod word_unat_eq_iff [of "a mod ?q"])
    have qn: "?q \<noteq> 0" using q0 by auto
    have "checked_ceil_div a b = Some (?q, ?r)"
      using b False fits fits' qn nz
      by (simp add: checked_ceil_div_def checked_div_def checked_rem_def checked_add_def
          word_greater_zero_iff)
    then show thesis using q r by (rule that)
  qed
qed

section \<open>Exact-in: the reference curve\<close>

text \<open>The reserves of the token sold and of the token bought.\<close>

fun input_reserve :: "swap_direction \<Rightarrow> u64 \<Rightarrow> u64 \<Rightarrow> nat" where
  "input_reserve Coin2PC pc coin = unat coin"
| "input_reserve PC2Coin pc coin = unat pc"

fun output_reserve :: "swap_direction \<Rightarrow> u64 \<Rightarrow> u64 \<Rightarrow> nat" where
  "output_reserve Coin2PC pc coin = unat pc"
| "output_reserve PC2Coin pc coin = unat coin"

definition net_in :: "nat \<Rightarrow> nat \<Rightarrow> nat \<Rightarrow> nat" where
  "net_in a n d = a - ceil_div (a * n) d"

definition curve_out :: "nat \<Rightarrow> nat \<Rightarrow> nat \<Rightarrow> nat" where
  "curve_out x y net = y * net div (x + net)"

definition exact_in_spec :: "nat \<Rightarrow> nat \<Rightarrow> nat \<Rightarrow> nat \<Rightarrow> nat \<Rightarrow> (venue_error, u64) res" where
  "exact_in_spec x y n d a =
     (if d = 0 then Err (math_error ''swap fee checked math error'')
      else if 2 * (a * n) < d then Err (math_error ''Invalid fee amount'')
      else if a < ceil_div (a * n) d then
        Err (math_error ''swap_in_after_deduct_fee checked math error'')
      else if x + net_in a n d = 0 then Panic
      else Ok (of_nat (curve_out x y (net_in a n d))))"

lemma reserve_less: "input_reserve dir pc coin < 2 ^ 64" "output_reserve dir pc coin < 2 ^ 64"
  using unat_lt_64 [of pc] unat_lt_64 [of coin] by (cases dir; simp del: unat_lt_64)+

lemmas reserve_less_num [simp] = reserve_less [simplified]

lemma curve_out_le: "curve_out x y net \<le> y"
proof -
  have "y * net div (x + net) \<le> y * (x + net) div (x + net)"
    by (intro div_le_mono mult_le_mono) auto
  then show ?thesis by (cases "x + net = 0") (auto simp: curve_out_def)
qed

lemma unwrap_bind_add [simp]:
  "unat a + unat b < 2 ^ LENGTH('w) \<Longrightarrow> unwrap (checked_add a b) = Ok (a + b)"
  for a b :: "'w::len word"
  by (simp add: checked_add_def)

lemma base_in_eq:
  assumes "unat net < 2 ^ 64"
  shows "bindR (swap_token_amount_base_in net (ucast pc) (ucast coin) dir) as_u64 =
    (if input_reserve dir pc coin + unat net = 0 then Panic
     else Ok (of_nat (curve_out (input_reserve dir pc coin) (output_reserve dir pc coin) (unat net))))"
proof -
  have main: "bindR (bindR (unwrap (checked_add (ucast x) net)) (\<lambda>denominator.
      bindR (unwrap (checked_mul (ucast y) net)) (\<lambda>product.
        unwrap (checked_div product denominator)))) as_u64 =
    (if unat x + unat net = 0 then Panic else Ok (of_nat (curve_out (unat x) (unat y) (unat net))))"
    for x y :: u64
  proof -
    have add: "unat (ucast x + net) = unat x + unat net"
      and cadd: "unat x + unat net < 340282366920938463463374607431768211456"
      using assms unat_lt_64 [of x] by (simp_all add: unat_add_fits unat_widen del: unat_lt_64)
    have "unat y * unat net < 2 ^ 64 * 2 ^ 64"
      using assms unat_lt_len [of y] by (intro mult_strict_mono) simp_all
    then have mul: "unat (ucast y * net) = unat y * unat net"
      and cmul: "unat y * unat net < 340282366920938463463374607431768211456"
      by (simp_all add: unat_mult_fits unat_widen)
    have q: "unat (ucast y * net div (ucast x + net)) = curve_out (unat x) (unat y) (unat net)"
      by (simp add: unat_div mul add curve_out_def)
    have "curve_out (unat x) (unat y) (unat net) < 2 ^ 64"
      using curve_out_le [of "unat x" "unat y" "unat net"] unat_lt_64 [of y] by (simp del: unat_lt_64)
    moreover have "ucast (ucast y * net div (ucast x + net)) = (of_nat (curve_out (unat x) (unat y) (unat net)) :: u64)"
      by (metis q of_nat_unat)
    moreover have "ucast x + net = 0 \<longleftrightarrow> unat x + unat net = 0"
      by (metis add unat_eq_0)
    ultimately show ?thesis
      by (simp add: checked_add_def checked_mul_def unat_widen cadd cmul checked_div_def as_u64_def q)
  qed
  show ?thesis by (cases dir) (simp_all add: main)
qed

lemma net_in_le: "net_in a n d \<le> a"
  by (simp add: net_in_def)

lemma exact_in_eq:
  "swap_exact_amount pc coin n d dir a True =
    exact_in_spec (input_reserve dir pc coin) (output_reserve dir pc coin) (unat n) (unat d) (unat a)"
proof -
  let ?p = "ucast a * ucast n :: u128"
  have p: "checked_mul (ucast a) (ucast n) = Some ?p" "unat ?p = unat a * unat n"
    using mult_u64_fits [of a n] by (simp_all add: checked_mul_def unat_ops)
  consider (zero) "d = 0" | (small) "0 < unat d" "unat a * unat n < unat d"
    | (large) "0 < unat d" "unat d \<le> unat a * unat n"
    using unat_gt_0 [of d] by linarith
  then show ?thesis
  proof cases
    case zero
    then show ?thesis
      by (simp add: swap_exact_amount_def p checked_ceil_div_def checked_div_def exact_in_spec_def)
  next
    case small
    have "checked_ceil_div ?p (ucast d) = Some (if unat d \<le> 2 * (unat a * unat n) then 1 else 0, 0)"
      using small unat_lt_64 [of d] checked_ceil_div_small [of ?p "ucast d"]
      by (simp add: word_less_nat_alt p unat_widen del: unat_lt_64)
    moreover have "ceil_div (unat a * unat n) (unat d) = 1" if "unat d \<le> 2 * (unat a * unat n)"
    proof -
      have "0 < unat a * unat n" using small that by linarith
      with small show ?thesis by (subst ceil_div_div_mod) auto
    qed
    moreover have "checked_sub (ucast a) (1 :: u128) = Some (ucast a - 1)"
      "unat (ucast a - 1 :: u128) = unat a - 1" "0 < unat a"
      if "unat d \<le> 2 * (unat a * unat n)"
    proof -
      show "0 < unat a" using small that by (cases "unat a = 0") auto
      then have "(1 :: u128) \<le> ucast a" by (simp add: word_le_nat_alt unat_widen)
      then show "checked_sub (ucast a) (1 :: u128) = Some (ucast a - 1)"
        "unat (ucast a - 1 :: u128) = unat a - 1"
        by (simp_all add: checked_sub_def unat_sub_le unat_widen)
    qed
    ultimately show ?thesis using small unat_lt_64 [of a]
      by (auto simp: swap_exact_amount_def p exact_in_spec_def base_in_eq net_in_def simp del: unat_lt_64)
  next
    case large
    then have d: "0 < unat d" "(ucast d :: u128) \<le> ?p"
      by (simp_all add: unat_gt_0 word_le_nat_alt p unat_widen)
    then have "ucast d \<noteq> (0 :: u128)"
      using unat_widen [of d] by (metis less_irrefl unat_0)
    with d obtain q r where q: "checked_ceil_div ?p (ucast d) = Some (q, r)"
      "unat q = ceil_div (unat a * unat n) (unat d)"
      using checked_ceil_div_large by (metis p(2) unat_widen)
    have "0 < unat q"
      unfolding q(2) using large by (intro ceil_div_pos) linarith+
    then have "q \<noteq> 0" by (simp add: unat_gt_0)
    moreover have "unat (ucast a - q) = net_in (unat a) (unat n) (unat d)" "unat (ucast a - q) < 2 ^ 64"
      if "q \<le> ucast a"
      using that q(2) unat_lt_64 [of a]
      by (simp_all add: unat_sub_le unat_widen net_in_def del: unat_lt_64)
    moreover have "q \<le> ucast a \<longleftrightarrow> \<not> unat a < ceil_div (unat a * unat n) (unat d)"
      by (simp add: word_le_nat_alt q(2) unat_widen not_less)
    ultimately show ?thesis using large
      by (auto simp: swap_exact_amount_def p q(1) exact_in_spec_def base_in_eq checked_sub_def)
  qed
qed

section \<open>Shape of the curve\<close>

lemma curve_out_mono:
  assumes "net \<le> net'" "0 < x + net"
  shows "curve_out x y net \<le> curve_out x y net'"
  unfolding curve_out_def
proof (rule div_le_cross)
  have "net * (x + net') \<le> net' * (x + net)"
    using assms(1) by (simp add: algebra_simps)
  then show "y * net * (x + net') \<le> y * net' * (x + net)"
    by (simp only: mult.assoc) (rule mult_le_mono2)
qed (use assms in auto)

lemma curve_out_product: "x * y \<le> (x + net) * (y - curve_out x y net)"
proof -
  have "curve_out x y net * (x + net) \<le> y * net"
    by (simp add: curve_out_def div_times_less_eq_dividend)
  then show ?thesis by (simp add: diff_mult_distrib2 algebra_simps)
qed

lemma curve_out_less:
  assumes "0 < x" "0 < y"
  shows "curve_out x y net < y"
proof -
  have "y * net < y * (x + net)" using assms by simp
  then show ?thesis using assms by (simp add: curve_out_def div_less_iff_less_mult)
qed

lemma fee_le: "n \<le> d \<Longrightarrow> 0 < d \<Longrightarrow> ceil_div (a * n) d \<le> a"
  by (simp add: ceil_div_le_iff mult.commute)

lemma net_in_mono:
  assumes "n \<le> d" "0 < d" "a \<le> a'"
  shows "net_in a n d \<le> net_in a' n d"
proof -
  obtain k where k: "a' = a + k" using assms(3) le_Suc_ex by blast
  have "a * n \<le> d * ceil_div (a * n) d" by (rule ceil_div_ge [OF assms(2)])
  then have "a' * n \<le> d * (ceil_div (a * n) d + k)"
    using mult_le_mono1 [OF assms(1), of k] unfolding k add_mult_distrib add_mult_distrib2
    by (simp only: mult.commute add_mono)
  then have "ceil_div (a' * n) d \<le> ceil_div (a * n) d + k"
    by (simp add: ceil_div_le_iff assms(2))
  then show ?thesis
    using fee_le [OF assms(1,2), of a] by (simp add: net_in_def k)
qed

lemma net_in_floor:
  assumes "n \<le> d" "0 < d"
  shows "net_in a n d = a * (d - n) div d"
proof -
  let ?c = "ceil_div (a * n) d"
  have c: "a * n \<le> d * ?c" "?c \<le> a" using ceil_div_ge fee_le assms by auto
  have upper: "d * (?c - 1) < a * n" if "?c \<noteq> 0"
    using that ceil_div_le_iff [OF assms(2), of "a * n" "?c - 1"] by linarith
  have "(a - ?c) * d \<le> a * (d - n)"
    using c assms by (simp add: algebra_simps)
  moreover have "a * (d - n) < (a - ?c + 1) * d"
  proof (cases "?c = 0")
    case True
    then show ?thesis using assms
      by (simp add: add.commute add_strict_increasing diff_mult_distrib2)
  next
    case False
    then obtain m where m: "?c = Suc m" by (cases ?c) auto
    have "d * m < a * n" using upper m by simp
    moreover have "m \<le> a" "a - ?c + 1 = a - m" using c(2) m by simp_all
    ultimately show ?thesis using assms(1) mult_le_mono2 [OF assms(1), of a]
      by (simp add: diff_mult_distrib diff_mult_distrib2 mult.commute)
        (metis diff_less_mono2 le_trans mult.commute mult_le_mono1 less_le_trans)
  qed
  ultimately have "a * (d - n) div d = a - ?c"
    using assms(2) by (intro div_nat_eqI) (simp_all add: mult.commute)
  then show ?thesis by (simp add: net_in_def)
qed

section \<open>Exact-out\<close>

definition round_div :: "nat \<Rightarrow> nat \<Rightarrow> nat" where
  "round_div a b = (if a < b then (if b \<le> 2 * a then 1 else 0) else ceil_div a b)"

definition exact_out_spec :: "nat \<Rightarrow> nat \<Rightarrow> nat \<Rightarrow> nat \<Rightarrow> nat \<Rightarrow> (venue_error, u64) res" where
  "exact_out_spec x y n d out =
     (if y \<le> out then Panic
      else
        let before = round_div (x * out) (y - out)
        in if 2 ^ 128 \<le> before * d \<or> d \<le> n then
             Err (math_error ''swap_in_after_add_fee checked math error'')
           else
             let a = round_div (before * d) (d - n)
             in if a < 2 ^ 64 then Ok (of_nat a) else Panic)"

lemma checked_ceil_div_round:
  assumes "b \<noteq> 0" "unat b < 2 ^ 64"
  obtains q r where "checked_ceil_div a b = Some (q, r)" "unat q = round_div (unat a) (unat b)"
proof (cases "b \<le> a")
  case True
  then show thesis
    using assms(1) by (elim checked_ceil_div_large) (auto simp: round_div_def word_le_nat_alt intro: that)
next
  case False
  then have "a < b" "2 * unat a < 2 ^ 128" using assms(2) by (auto simp: word_less_nat_alt not_le)
  from checked_ceil_div_small [OF this] that this(1) show thesis
    by (auto simp: round_div_def word_less_nat_alt split: if_splits)
qed

lemma round_div_ge: "b \<le> 2 * a \<Longrightarrow> 0 < b \<Longrightarrow> a \<le> b * round_div a b"
  by (simp add: round_div_def ceil_div_ge)

lemma round_div_eq_0: "0 < b \<Longrightarrow> round_div a b = 0 \<longleftrightarrow> 2 * a < b"
  using ceil_div_pos [of b a] by (auto simp: round_div_def)

lemma base_out_eq:
  "(swap_token_amount_base_out (ucast (out :: u64)) (ucast pc) (ucast coin) dir :: (venue_error, u128) res) =
    (if output_reserve dir pc coin \<le> unat out then Panic
     else Ok (of_nat (round_div (input_reserve dir pc coin * unat out)
       (output_reserve dir pc coin - unat out))))"
proof -
  have main: "bindR (unwrap (checked_sub (ucast y) (ucast out :: u128))) (\<lambda>denominator.
      bindR (unwrap (checked_mul (ucast x) (ucast out))) (\<lambda>product.
      bindR (unwrap (checked_ceil_div product denominator)) (\<lambda>q. Ok (fst q)))) =
    ((if unat y \<le> unat out then Panic
     else Ok (of_nat (round_div (unat x * unat out) (unat y - unat out)))) :: (venue_error, u128) res)"
    for x y :: u64
  proof -
    have mul: "checked_mul (ucast x) (ucast out :: u128) = Some (ucast x * ucast out)"
      using mult_u64_fits [of x out] by (simp add: checked_mul_def unat_ops)
    consider "unat y < unat out" | "unat y = unat out" | "unat out < unat y" by linarith
    then show ?thesis
    proof cases
      case 1
      then show ?thesis by (simp add: checked_sub_def word_le_nat_alt unat_widen)
    next
      case 2
      then have "y = out" by (simp add: word_unat_eq_iff)
      then show ?thesis
        by (simp add: checked_sub_def mul checked_ceil_div_def checked_div_def)
    next
      case 3
      then have sub: "checked_sub (ucast y) (ucast out :: u128) = Some (ucast y - ucast out)"
        "unat (ucast y - ucast out :: u128) = unat y - unat out"
        by (simp_all add: checked_sub_def word_le_nat_alt unat_sub_le unat_widen)
      have "ucast y - ucast out \<noteq> (0 :: u128)"
        using 3 sub(2) by (metis diff_is_0_eq not_le unat_0)
      moreover have "unat (ucast y - ucast out :: u128) < 2 ^ 64"
        using unat_lt_64 [of y] unfolding sub(2) by (simp del: unat_lt_64)
      ultimately obtain q r where
        "checked_ceil_div (ucast x * ucast out) (ucast y - ucast out :: u128) = Some (q, r)"
        "unat q = round_div (unat x * unat out) (unat y - unat out)"
        using checked_ceil_div_round by (metis sub(2) unat_mult_widen)
      then show ?thesis using 3 by (simp add: sub(1) mul) (metis of_nat_unat ucast_id)
    qed
  qed
  show ?thesis by (cases dir) (simp_all add: main)
qed

lemma round_div_le: "0 < b \<Longrightarrow> round_div a b \<le> a"
  by (auto simp: round_div_def ceil_div_le_iff Suc_le_eq)

lemma exact_out_eq:
  "swap_exact_amount pc coin n d dir out False =
    exact_out_spec (input_reserve dir pc coin) (output_reserve dir pc coin) (unat n) (unat d) (unat out)"
proof (cases "output_reserve dir pc coin \<le> unat out")
  case True
  then show ?thesis by (simp add: swap_exact_amount_def base_out_eq exact_out_spec_def)
next
  case False
  let ?x = "input_reserve dir pc coin" and ?y = "output_reserve dir pc coin"
  let ?before = "round_div (?x * unat out) (?y - unat out)"
  have "?before \<le> ?x * unat out" using False by (intro round_div_le) simp
  also have "\<dots> < 2 ^ 64 * 2 ^ 64"
    using unat_lt_64 [of out] reserve_less(1) [of dir pc coin] by (intro mult_strict_mono) (auto simp del: reserve_less_num)
  finally have b: "unat (of_nat ?before :: u128) = ?before" by (intro unat_of_nat_less) simp
  let ?err = "Err (math_error ''swap_in_after_add_fee checked math error'') :: (venue_error, u64) res"
  consider (overflow) "2 ^ 128 \<le> ?before * unat d" | (fee) "?before * unat d < 2 ^ 128" "d \<le> n"
    | (ok) "?before * unat d < 2 ^ 128" "n < d" by (meson not_le)
  then show ?thesis
  proof cases
    case overflow
    then show ?thesis using False
      by (simp add: swap_exact_amount_def base_out_eq exact_out_spec_def checked_mul_def b unat_widen
          split: if_splits)
  next
    case fee
    have "checked_ceil_div a 0 = None" for a
      by (simp add: checked_ceil_div_def checked_div_def)
    moreover have "d = n" if "n \<le> d" using fee(2) that by simp
    moreover have "unat d \<le> unat n" using fee(2) by (simp add: word_le_nat_alt)
    ultimately show ?thesis using False fee(1)
      by (auto simp: swap_exact_amount_def base_out_eq exact_out_spec_def checked_mul_def b unat_widen
          checked_sub_def)
  next
    case ok
    have keep: "unat (ucast (d - n) :: u128) = unat d - unat n" "0 < unat d - unat n"
      using ok(2) by (simp_all add: unat_widen unat_sub_le [OF order_less_imp_le] word_less_nat_alt)
    have p: "unat (of_nat ?before * ucast d :: u128) = ?before * unat d"
      using ok(1) b by (subst unat_mult_fits) (simp_all add: unat_widen)
    obtain q r where
      q: "checked_ceil_div (of_nat ?before * ucast d) (ucast (d - n)) = Some (q, r)"
        "unat q = round_div (?before * unat d) (unat d - unat n)"
    proof (rule checked_ceil_div_round [of "ucast (d - n)" "of_nat ?before * ucast d"])
      show "ucast (d - n) \<noteq> (0 :: u128)" using keep by (metis less_irrefl unat_0)
      show "unat (ucast (d - n) :: u128) < 2 ^ 64" by (simp add: unat_widen)
    qed (unfold p keep(1))
    have "ucast q = (of_nat (unat q) :: u64)" by simp
    then show ?thesis using False ok keep
      by (auto simp: swap_exact_amount_def base_out_eq exact_out_spec_def checked_mul_def b unat_widen
          checked_sub_def q(1) as_u64_def q(2) [symmetric] word_less_nat_alt word_le_nat_alt Let_def)
  qed
qed

section \<open>Properties\<close>

lemma exact_in_Ok:
  assumes "swap_exact_amount pc coin n d dir a True = Ok out"
  shows "0 < unat d" "unat d \<le> 2 * (unat a * unat n)"
    "ceil_div (unat a * unat n) (unat d) \<le> unat a"
    "0 < input_reserve dir pc coin + net_in (unat a) (unat n) (unat d)"
    "unat out = curve_out (input_reserve dir pc coin) (output_reserve dir pc coin)
      (net_in (unat a) (unat n) (unat d))"
proof -
  let ?x = "input_reserve dir pc coin" and ?y = "output_reserve dir pc coin"
  let ?c = "curve_out ?x ?y (net_in (unat a) (unat n) (unat d))"
  have "unat (of_nat ?c :: u64) = ?c"
    by (intro unat_of_nat_less order_le_less_trans [OF curve_out_le]) simp
  then show "0 < unat d" "unat d \<le> 2 * (unat a * unat n)"
    "ceil_div (unat a * unat n) (unat d) \<le> unat a"
    "0 < ?x + net_in (unat a) (unat n) (unat d)" "unat out = ?c"
    using assms unfolding exact_in_eq exact_in_spec_def by (auto split: if_splits)
qed

text \<open>
  C2: a successful exact-in quote never decreases the product of the reserves (with the
  fee left outside the pool), charges at least the fee rounded up, and leaves the output
  reserve non-empty when the pool holds both tokens.
\<close>

theorem exact_in_constant_product:
  assumes "swap_exact_amount pc coin n d dir a True = Ok out"
  shows "let x = input_reserve dir pc coin; y = output_reserve dir pc coin;
             fee = ceil_div (unat a * unat n) (unat d)
         in fee \<le> unat a \<and> unat a * unat n \<le> unat d * fee \<and> unat out \<le> y \<and>
            x * y \<le> (x + (unat a - fee)) * (y - unat out) \<and>
            (0 < x \<longrightarrow> 0 < y \<longrightarrow> unat out < y)"
  unfolding Let_def exact_in_Ok(5) [OF assms] net_in_def [symmetric]
  using exact_in_Ok [OF assms]
  by (auto simp: ceil_div_ge curve_out_le curve_out_product intro: curve_out_less)

theorem exact_in_constant_product_witness:
  "swap_exact_amount 5000000 30000000 25 10000 Coin2PC 1000 True = Ok 166 \<and>
   (30000000::nat) * 5000000 \<le> (30000000 + (1000 - 3)) * (5000000 - 166)"
proof -
  have ok: "swap_exact_amount 5000000 30000000 25 10000 Coin2PC 1000 True = Ok 166"
    by (simp add: exact_in_eq exact_in_spec_def net_in_def curve_out_def ceil_div_def)
  with exact_in_constant_product [OF ok] show ?thesis
    by (simp add: ceil_div_def)
qed

lemma exact_in_larger:
  assumes "swap_exact_amount pc coin n d dir a True = Ok out" "n \<le> d" "a \<le> a'"
  shows "\<exists>out'. swap_exact_amount pc coin n d dir a' True = Ok out' \<and> out \<le> out'"
proof -
  note ok = exact_in_Ok [OF assms(1)]
  have nd: "unat n \<le> unat d" and aa: "unat a \<le> unat a'"
    using assms(2,3) by (simp_all add: word_le_nat_alt)
  let ?net = "net_in (unat a) (unat n) (unat d)" and ?net' = "net_in (unat a') (unat n) (unat d)"
  have net: "?net \<le> ?net'" by (rule net_in_mono [OF nd ok(1) aa])
  have "unat d \<le> 2 * (unat a' * unat n)"
    using ok(2) mult_le_mono1 [OF aa, of "unat n"] by linarith
  moreover have "0 < input_reserve dir pc coin + ?net'" using ok(4) net by linarith
  ultimately obtain out' where out': "swap_exact_amount pc coin n d dir a' True = Ok out'"
    using ok(1) fee_le [OF nd ok(1), of "unat a'"] by (simp add: exact_in_eq exact_in_spec_def)
  have "out \<le> out'"
    unfolding word_le_nat_alt ok(5) exact_in_Ok(5) [OF out'] by (rule curve_out_mono [OF net ok(4)])
  with out' show ?thesis by blast
qed

text \<open>
  With a fee of at most the whole input, a larger exact-in amount is quoted whenever
  a smaller one is, at an output at least as large.
\<close>

theorem exact_in_monotone:
  assumes "swap_exact_amount pc coin n d dir a True = Ok out" "n \<le> d" "a \<le> a'"
  shows "\<exists>out'. swap_exact_amount pc coin n d dir a' True = Ok out' \<and> out \<le> out'"
  using assms by (rule exact_in_larger)

theorem exact_in_monotone_witness:
  "\<exists>out'. swap_exact_amount 5000000 30000000 25 10000 Coin2PC 2000 True = Ok out' \<and> 166 \<le> out'"
proof -
  have "swap_exact_amount 5000000 30000000 25 10000 Coin2PC 1000 True = Ok 166"
    by (simp add: exact_in_eq exact_in_spec_def net_in_def curve_out_def ceil_div_def)
  then show ?thesis by (rule exact_in_monotone) simp_all
qed

lemma curve_out_ge:
  assumes "x * out \<le> (y - out) * net" "out \<le> y" "0 < x + net"
  shows "out \<le> curve_out x y net"
proof -
  have "out * (x + net) \<le> (y - out) * net + out * net"
    using assms(1) by (simp add: algebra_simps)
  also have "\<dots> = y * net" using assms(2) by (simp add: add_mult_distrib [symmetric])
  finally show ?thesis
    using assms(3) by (simp add: curve_out_def less_eq_div_iff_mult_less_eq)
qed

lemma exact_out_Ok:
  assumes "swap_exact_amount pc coin n d dir out False = Ok a"
  defines "before \<equiv> round_div (input_reserve dir pc coin * unat out) (output_reserve dir pc coin - unat out)"
  shows "unat out < output_reserve dir pc coin" "unat n < unat d"
    "unat a = round_div (before * unat d) (unat d - unat n)"
  using assms unfolding exact_out_eq exact_out_spec_def before_def
  by (auto simp: Let_def unat_of_nat_less split: if_splits)

text \<open>
  C28: what selling the answer of an exact-out quote on the same pool gives, for every request
  that is answered. The exact-in quote is refused as a fee of zero exactly when the fee share
  of the asked input is below half an atom; otherwise the asked input is accepted and buys at
  least the requested output. The asked input itself is zero exactly when the requested output
  is worth less than half an atom of input: the division for the input rounds such a quotient
  down, so a small request can be answered by an input of nothing, which is then among the
  refused ones.
\<close>

theorem exact_out_suffices:
  assumes ok: "swap_exact_amount pc coin n d dir out False = Ok a"
  shows "(if 2 * (unat a * unat n) < unat d
      then swap_exact_amount pc coin n d dir a True = Err (math_error ''Invalid fee amount'')
      else \<exists>out'. swap_exact_amount pc coin n d dir a True = Ok out' \<and> out \<le> out') \<and>
    (a = 0 \<longleftrightarrow>
      2 * (input_reserve dir pc coin * unat out) < output_reserve dir pc coin - unat out)"
proof -
  let ?x = "input_reserve dir pc coin" and ?y = "output_reserve dir pc coin"
  let ?d = "unat d" and ?n = "unat n" and ?net = "net_in (unat a) (unat n) (unat d)"
  let ?before = "round_div (?x * unat out) (?y - unat out)"
  note o = exact_out_Ok [OF ok]
  have zero: "?before = 0 \<longleftrightarrow> 2 * (?x * unat out) < ?y - unat out"
    using o(1) by (intro round_div_eq_0) simp
  have a: "a = 0 \<longleftrightarrow> ?before = 0"
    using o(2) round_div_eq_0 [of "?d - ?n" "?before * ?d"] unfolding unat_eq_0 [symmetric] o(3)
    by (cases ?before) auto
  have "swap_exact_amount pc coin n d dir a True = Err (math_error ''Invalid fee amount'')"
    if "2 * (unat a * ?n) < ?d" using that by (auto simp: exact_in_eq exact_in_spec_def)
  moreover have "\<exists>out'. swap_exact_amount pc coin n d dir a True = Ok out' \<and> out \<le> out'"
    if fee: "\<not> 2 * (unat a * ?n) < ?d"
  proof -
    have "a \<noteq> 0" using fee o(2) by auto
    then have pos: "0 < ?before" using a by simp
    then have before: "?x * unat out \<le> (?y - unat out) * ?before"
      using o(1) zero by (intro round_div_ge) auto
    have "?d - ?n \<le> ?before * ?d" using pos by (cases ?before) auto
    then have "?before * ?d \<le> (?d - ?n) * unat a"
      using o(2) unfolding o(3) by (intro round_div_ge) auto
    then have net: "?before \<le> ?net"
      using o(2) by (simp add: net_in_floor less_eq_div_iff_mult_less_eq mult.commute)
    with pos have "0 < ?x + ?net" by simp
    then obtain out' where out': "swap_exact_amount pc coin n d dir a True = Ok out'"
      using fee o(2) fee_le [of ?n ?d "unat a"] by (simp add: exact_in_eq exact_in_spec_def)
    have "unat out \<le> curve_out ?x ?y ?net"
      using order_trans [OF before mult_le_mono2 [OF net]] o(1) \<open>0 < ?x + ?net\<close>
      by (intro curve_out_ge) simp_all
    then have "out \<le> out'" by (simp add: word_le_nat_alt exact_in_Ok(5) [OF out'])
    with out' show ?thesis by blast
  qed
  ultimately show ?thesis using a zero by simp
qed

theorem exact_out_suffices_witness:
  "swap_exact_amount 5000000 30000000 25 10000 Coin2PC 1000 False = Ok 6018 \<and>
   (\<exists>out'. swap_exact_amount 5000000 30000000 25 10000 Coin2PC 6018 True = Ok out' \<and> 1000 \<le> out') \<and>
   swap_exact_amount 1000 1000000000 25 10000 PC2Coin 1 False = Ok 0 \<and>
   swap_exact_amount 1000 1000000000 25 10000 PC2Coin 0 True = Err (math_error ''Invalid fee amount'')"
proof -
  have ok: "swap_exact_amount 5000000 30000000 25 10000 Coin2PC 1000 False = Ok 6018"
    "swap_exact_amount 1000 1000000000 25 10000 PC2Coin 1 False = Ok 0"
    by (simp_all add: exact_out_eq exact_out_spec_def round_div_def ceil_div_def)
  from exact_out_suffices [OF ok(1)] exact_out_suffices [OF ok(2)] ok show ?thesis by simp
qed

text \<open>
  C8: what the quoting code computes, on every branch: exact-in and exact-out equal the
  reference curves, errors and panics included.
\<close>

theorem swap_exact_amount_refines:
  "swap_exact_amount pc coin n d dir a base_in =
    (if base_in then exact_in_spec (input_reserve dir pc coin) (output_reserve dir pc coin) (unat n) (unat d) (unat a)
     else exact_out_spec (input_reserve dir pc coin) (output_reserve dir pc coin) (unat n) (unat d) (unat a))"
  by (cases base_in) (simp_all add: exact_in_eq exact_out_eq)

text \<open>
  The ceiling division of numbers that fit 64 bits above (any dividend, a divisor
  below \<open>2 ^ 64\<close>) never fails. Its quotient is the exact quotient rounded up when the
  divisor is at most the dividend, and then the second component is the least divisor
  that still gives a quotient at most that; a smaller dividend is rounded to the nearest
  of 0 and 1, with divisor 0.
\<close>

theorem checked_ceil_div_spec:
  assumes "b \<noteq> 0" "unat b < 2 ^ 64"
  shows "\<exists>q r. checked_ceil_div a b = Some (q, r) \<and>
    (if b \<le> a then (\<forall>k. unat q \<le> k \<longleftrightarrow> unat a \<le> unat b * k) \<and> (\<forall>k. unat r \<le> k \<longleftrightarrow> unat a \<le> unat q * k)
     else r = 0 \<and> unat q = (if unat b \<le> 2 * unat a then 1 else 0))"
proof (cases "b \<le> a")
  case True
  obtain q r where q: "checked_ceil_div a b = Some (q, r)"
    "unat q = ceil_div (unat a) (unat b)" "unat r = ceil_div (unat a) (unat q)"
    using checked_ceil_div_large [OF assms(1) True] by blast
  have "0 < unat b" "0 < unat a" using assms(1) True by (auto simp: unat_gt_0)
  then have "0 < unat q" using q(2) by (simp add: ceil_div_pos)
  then show ?thesis using True q \<open>0 < unat b\<close> by (auto simp: ceil_div_le_iff)
next
  case False
  then have "a < b" "2 * unat a < 2 ^ 128" using assms(2) by (auto simp: word_less_nat_alt not_le)
  from checked_ceil_div_small [OF this] False show ?thesis by simp
qed

theorem checked_ceil_div_spec_witness: "\<exists>q r. checked_ceil_div 400 32 = Some (q, r) \<and> unat q \<le> 13"
  using checked_ceil_div_spec [of 32 400] by auto

section \<open>The price\<close>

text \<open>
  A fee of at most a half, of integers that convert exactly (or no denominator), and two
  non-empty reserves.
\<close>

definition priced_pool :: "calculate_result \<Rightarrow> bool" where
  "priced_pool c \<longleftrightarrow>
     0 < cr_pool_pc_vault_amount c \<and> 0 < cr_pool_coin_vault_amount c \<and>
     2 * unat (cr_swap_fee_numerator c) \<le> unat (cr_swap_fee_denominator c) \<and>
     unat (cr_swap_fee_denominator c) < 2 ^ 53"

lemma keep_range:
  assumes "priced_pool c"
  obtains k where "1 / 2 \<le> k" "k \<le> 1"
    "f_sub (f_of_nat 1)
      (if cr_swap_fee_denominator c = 0 then f_of_nat 0
       else f_div (f_of_u64 (cr_swap_fee_numerator c)) (f_of_u64 (cr_swap_fee_denominator c))) = Finite k"
proof (cases "cr_swap_fee_denominator c = 0")
  case True
  then show thesis by (intro that [of 1]) (simp_all add: f_of_nat_1 f_of_nat_def f_sub_def round64_nat [of 1, simplified])
next
  case False
  let ?n = "unat (cr_swap_fee_numerator c)" and ?d = "unat (cr_swap_fee_denominator c)"
  have d: "0 < ?d" "?d < 2 ^ 53" "2 * ?n \<le> ?d" using assms False by (auto simp: priced_pool_def unat_gt_0)
  then have n: "?n < 2 ^ 53" by linarith
  have fn: "f_of_u64 (cr_swap_fee_numerator c) = Finite (rat_of_nat ?n)"
    and fd: "f_of_u64 (cr_swap_fee_denominator c) = Finite (rat_of_nat ?d)"
    unfolding f_of_u64_def f_of_nat_def using round64_nat n d(2) by blast+
  have d': "0 < rat_of_nat ?d" using d(1) by (simp only: of_nat_0_less_iff)
  have "2 * rat_of_nat ?n \<le> rat_of_nat ?d"
    using d(3) by (metis of_nat_le_iff of_nat_mult of_nat_numeral)
  then have q: "0 \<le> rat_of_nat ?n / rat_of_nat ?d" "rat_of_nat ?n / rat_of_nat ?d \<le> 2 powi (- 1)"
    using d' by (simp_all add: divide_simps del: of_nat_unat)
  show thesis
  proof (rule round64_upto [OF q])
    fix \<phi>
    assume \<phi>: "round64 (rat_of_nat ?n / rat_of_nat ?d) = Finite \<phi>" "0 \<le> \<phi>" "\<phi> \<le> 2 powi (- 1)"
    have lo: "2 powi (- 1) \<le> 1 - \<phi>" and hi: "1 - \<phi> \<le> 2 powi 0"
      using \<phi>(2,3) by (auto simp: power_int_minus)
    show thesis
    proof (rule round64_between [OF _ _ lo hi])
      fix k
      assume "round64 (1 - \<phi>) = Finite k" "2 powi (- 1) \<le> k" "k \<le> 2 powi 0"
      then show thesis using False \<phi>(1) d'
        by (intro that [of k]) (simp_all add: f_sub_def f_of_nat_1 fn fd power_int_minus
            del: of_nat_unat One_nat_def)
    qed simp_all
  qed simp_all
qed

text \<open>
  The rest of the price for the two reserves \<open>X\<close> and \<open>Y\<close> and the kept fraction \<open>k\<close>.
\<close>

definition price_of :: "f64 \<Rightarrow> f64 \<Rightarrow> f64 \<Rightarrow> f64 \<Rightarrow> f64" where
  "price_of X Y k a = (let denom = f_add X (f_mul k a) in f_div (f_mul (f_mul Y k) X) (f_mul denom denom))"

lemma denom_range:
  assumes X: "1 \<le> X" "X \<le> 2 powi 64" and k: "1 / 2 \<le> k" "k \<le> 1" and a: "0 \<le> a" "a \<le> 2 powi 64"
  obtains e D DD where "round64 (k * a) = Finite e" "round64 (X + e) = Finite D"
    "round64 (D * D) = Finite DD" "2 powi 0 \<le> D" "2 powi 0 \<le> DD" "DD \<le> 2 powi 130"
proof -
  have "k * a \<le> 1 * 2 powi 64" using k a by (intro mult_mono) auto
  then have ka: "0 \<le> k * a" "k * a \<le> 2 powi 64" using k a by simp_all
  show thesis
  proof (rule round64_upto [OF ka])
    fix e assume e: "round64 (k * a) = Finite e" "0 \<le> e" "e \<le> 2 powi 64"
    have lo: "2 powi 0 \<le> X + e" and hi: "X + e \<le> 2 powi 65" using X e by simp_all
    show thesis
    proof (rule round64_between [OF _ _ lo hi])
      fix D assume D: "round64 (X + e) = Finite D" "2 powi 0 \<le> D" "D \<le> 2 powi 65"
      have "1 * 1 \<le> D * D" using D(2) by (intro mult_mono) auto
      then have lo': "2 powi 0 \<le> D * D" by simp
      have hi': "D * D \<le> 2 powi 130"
        using mult_mono [OF D(3) D(3)] D(2) by simp
      show thesis
        by (rule round64_between [OF _ _ lo' hi']) (use that e D in auto)
    qed simp_all
  qed simp_all
qed

lemma price_of_shape:
  assumes X: "1 \<le> X" "X \<le> 2 powi 64" and Y: "1 \<le> Y" "Y \<le> 2 powi 64"
    and k: "1 / 2 \<le> k" "k \<le> 1" and a: "0 \<le> a" "a \<le> a'" "a' \<le> 2 powi 64"
  shows "\<exists>p p'. price_of (Finite X) (Finite Y) (Finite k) (Finite a) = Finite p \<and>
    price_of (Finite X) (Finite Y) (Finite k) (Finite a') = Finite p' \<and> 0 < p' \<and> p' \<le> p"
proof -
  have "1 * (1 / 2) \<le> Y * k" "Y * k \<le> 2 powi 64 * 1"
    using Y k by (intro mult_mono; simp)+
  then have lo: "2 powi (- 1) \<le> Y * k" and hi: "Y * k \<le> 2 powi 64" by (simp_all add: power_int_minus)
  obtain u where u: "round64 (Y * k) = Finite u" "2 powi (- 1) \<le> u" "u \<le> 2 powi 64"
    by (rule round64_between [OF _ _ lo hi]) simp_all
  have "2 powi (- 1) * 1 \<le> u * X" "u * X \<le> 2 powi 64 * 2 powi 64"
    using u X by (intro mult_mono; simp add: power_int_minus)+
  then have lo: "2 powi (- 1) \<le> u * X" and hi: "u * X \<le> 2 powi 128" by simp_all
  obtain v where v: "round64 (u * X) = Finite v" "2 powi (- 1) \<le> v" "v \<le> 2 powi 128"
    by (rule round64_between [OF _ _ lo hi]) simp_all
  have v0: "0 < v" using v(2) by (simp add: power_int_minus)
  obtain e D DD where d: "round64 (k * a) = Finite e" "round64 (X + e) = Finite D"
    "round64 (D * D) = Finite DD" "2 powi 0 \<le> D" "2 powi 0 \<le> DD" "DD \<le> 2 powi 130"
    by (rule denom_range [OF X k a(1) order_trans [OF a(2,3)]])
  obtain e' D' DD' where d': "round64 (k * a') = Finite e'" "round64 (X + e') = Finite D'"
    "round64 (D' * D') = Finite DD'" "2 powi 0 \<le> D'" "2 powi 0 \<le> DD'" "DD' \<le> 2 powi 130"
    by (rule denom_range [OF X k order_trans [OF a(1,2)] a(3)])
  have "e \<le> e'" using round64_mono_Finite [OF d(1) d'(1)] k a by (simp add: mult_left_mono)
  then have "D \<le> D'" using round64_mono_Finite [OF d(2) d'(2)] by simp
  then have "D * D \<le> D' * D'" using d(4) by (intro mult_mono) auto
  then have "DD \<le> DD'" using round64_mono_Finite [OF d(3) d'(3)] by simp
  then have le: "v / DD' \<le> v / DD" using v0 d(5) by (intro divide_left_mono) auto
  have bounds: "2 powi (- 131) \<le> v / E" "v / E \<le> 2 powi 128" if "2 powi 0 \<le> E" "E \<le> 2 powi 130" for E
  proof -
    have "2 powi (- 131) * E \<le> 2 powi (- 131) * 2 powi 130" using that by (intro mult_left_mono) auto
    also have "\<dots> = 2 powi (- 1)" by (simp add: powi_add [symmetric])
    also have "\<dots> \<le> v" by (rule v(2))
    finally show "2 powi (- 131) \<le> v / E" using that by (simp add: pos_le_divide_eq)
    have "v / E \<le> v / 1" using that v0 by (intro divide_left_mono) auto
    then show "v / E \<le> 2 powi 128" using v(3) by simp
  qed
  obtain p where p: "round64 (v / DD) = Finite p"
    by (rule round64_between [OF _ _ bounds [OF d(5,6)]]) simp_all
  obtain p' where p': "round64 (v / DD') = Finite p'" "2 powi (- 131) \<le> p'"
    by (rule round64_between [OF _ _ bounds [OF d'(5,6)]]) simp_all
  have "0 < p'" using p'(2) powi_pos [of "- 131"] by linarith
  moreover have "p' \<le> p" by (rule round64_mono_Finite [OF p'(1) p le])
  moreover have "DD \<noteq> 0" "DD' \<noteq> 0" using d(5) d'(5) by auto
  ultimately show ?thesis by (simp add: price_of_def Let_def u v d d' p p')
qed

lemma raydium_price_shape:
  assumes c: "priced_pool c" and a: "a \<le> a'"
  shows "\<exists>p p'. raydium_price c dir a = Finite p \<and> raydium_price c dir a' = Finite p' \<and> 0 < p' \<and> p' \<le> p"
proof -
  obtain k where k: "1 / 2 \<le> k" "k \<le> 1" and keep: "f_sub (f_of_nat 1)
      (if cr_swap_fee_denominator c = 0 then f_of_nat 0
       else f_div (f_of_u64 (cr_swap_fee_numerator c)) (f_of_u64 (cr_swap_fee_denominator c))) = Finite k"
    by (rule keep_range [OF c])
  obtain P where P: "f_of_u64 (cr_pool_pc_vault_amount c) = Finite P" "1 \<le> P" "P \<le> 2 powi 64"
    by (rule f_of_u64_range [of "cr_pool_pc_vault_amount c"]) (use c in \<open>auto simp: priced_pool_def\<close>)
  obtain C where C: "f_of_u64 (cr_pool_coin_vault_amount c) = Finite C" "1 \<le> C" "C \<le> 2 powi 64"
    by (rule f_of_u64_range [of "cr_pool_coin_vault_amount c"]) (use c in \<open>auto simp: priced_pool_def\<close>)
  obtain v where v: "f_of_u64 a = Finite v" "0 \<le> v" by (rule f_of_u64_range [of a])
  obtain v' where v': "f_of_u64 a' = Finite v'" "v' \<le> 2 powi 64" by (rule f_of_u64_range [of a'])
  have le: "v \<le> v'" by (rule f_of_u64_mono [OF a v(1) v'(1)])
  have eq: "raydium_price c dir b = (case dir of
      Coin2PC \<Rightarrow> price_of (Finite C) (Finite P) (Finite k) (f_of_u64 b)
    | PC2Coin \<Rightarrow> price_of (Finite P) (Finite C) (Finite k) (f_of_u64 b))" for b
    unfolding raydium_price_def keep Let_def price_of_def P(1) C(1) by (cases dir) simp_all
  show ?thesis
    using price_of_shape [OF C(2,3) P(2,3) k v(2) le v'(2)] price_of_shape [OF P(2,3) C(2,3) k v(2) le v'(2)]
    unfolding eq v v' by (cases dir) simp_all
qed

text \<open>
  In floating point, every rounding included, the marginal price of a pool with two
  non-empty reserves and a fee of at most a half is a finite positive number, and it
  never rises with the amount.
\<close>

theorem raydium_price_positive_decreasing:
  assumes "priced_pool c" "a \<le> a'"
  shows "\<exists>p p'. raydium_price c dir a = Finite p \<and> raydium_price c dir a' = Finite p' \<and>
    0 < p' \<and> p' \<le> p"
  using assms by (rule raydium_price_shape)

definition sample_pool :: calculate_result where
  "sample_pool = \<lparr>cr_pool_pc_vault_amount = 5000000000000, cr_pool_coin_vault_amount = 30000000000000,
     cr_pool_lp_amount = 0, cr_swap_fee_numerator = 25, cr_swap_fee_denominator = 10000\<rparr>"

theorem raydium_price_witness:
  "\<exists>p p'. raydium_price sample_pool Coin2PC 0 = Finite p \<and>
    raydium_price sample_pool Coin2PC 100000000000 = Finite p' \<and> 0 < p' \<and> p' \<le> p"
  by (rule raydium_price_positive_decreasing) (simp_all add: priced_pool_def sample_pool_def)

section \<open>Slippage and the threshold\<close>

lemma min_amount_with_slippage_eq:
  "min_amount_with_slippage a bps = Ok (of_nat (unat a * (10000 - unat bps) div 10000))"
proof -
  let ?m = "saturating_sub TEN_THOUSAND bps"
  have m: "unat ?m = 10000 - unat bps" by (simp add: unat_ops TEN_THOUSAND_def)
  have "unat a * unat ?m div 10000 \<le> unat a * 10000 div 10000"
    unfolding m by (intro div_le_mono mult_le_mono2) simp
  then have lt: "unat a * unat ?m div 10000 < 2 ^ 64" using unat_lt_64 [of a] by (simp del: unat_lt_64)
  let ?q = "(ucast a * ucast ?m) div TEN_THOUSAND_U128"
  have q: "unat ?q = unat a * unat ?m div 10000"
    by (simp add: unat_div unat_mult_widen TEN_THOUSAND_U128_def)
  have "ucast ?q = (of_nat (unat a * unat ?m div 10000) :: u64)"
    by (metis q of_nat_unat)
  moreover have "checked_mul (ucast a :: u128) (ucast ?m) = Some (ucast a * ucast ?m)"
    using mult_u64_fits [of a ?m] by (simp add: checked_mul_def unat_widen)
  ultimately show ?thesis using lt
    unfolding min_amount_with_slippage_def as_u64_def m [symmetric] by (simp add: q)
qed

lemma min_amount_no_slippage: "min_amount_with_slippage a 0 = Ok a"
  by (simp add: min_amount_with_slippage_eq)

text \<open>The outcome of \<open>swap_with_slippage\<close> in exact-in mode without slippage.\<close>

lemma swap_with_slippage_exact_in:
  "swap_with_slippage pc_amount coin_amount pc coin n d dir a True 0 =
    (if 2 ^ 64 \<le> input_reserve dir pc_amount coin_amount + unat a
     then Err (math_error ''Amount exceeds possible threshold'')
     else bindR (swap_exact_amount pc coin n d dir a True) (\<lambda>out.
       if output_reserve dir pc coin \<le> unat out then Err (math_error ''Output amounds exceed tolerance'')
       else Ok out))"
  by (cases dir) (auto simp: swap_with_slippage_def min_amount_no_slippage checked_add_def
      word_le_nat_alt not_less cong: if_cong)

end
