(* ===== verification/Bounds.thy ===== *)
theory Bounds
  imports Venue_Types
begin

text \<open>
  The boundary search of \<open>src/trading_venue/bounds.rs\<close> over an arbitrary quoting
  function: the coarse doubling phase, the two binary refinements and their
  composition. The quoting function may fail or panic: an error counts as an invalid
  quote, a panic ends the search.
\<close>

section \<open>The search\<close>

definition SCALING_FACTOR :: u64 where
  "SCALING_FACTOR = 2"

definition valid_quote :: "quote_result \<Rightarrow> bool" where
  "valid_quote q = (\<not> (qr_not_enough_liquidity q \<or> qr_expected_output q = 0))"

text \<open>One probe: whether the quote at \<open>x\<close> is usable.\<close>

definition probe :: "(u64 \<Rightarrow> (venue_error, quote_result) res) \<Rightarrow> u64 \<Rightarrow> (venue_error, bool) res" where
  "probe f x =
     (case f x of
        Inr q \<Rightarrow> Ok (valid_quote q)
      | Inl (Error _) \<Rightarrow> Ok False
      | Inl Panicked \<Rightarrow> Panic)"

lemma bindR_cong [fundef_cong]:
  "m = m' \<Longrightarrow> (\<And>a. m' = Inr a \<Longrightarrow> k a = k' a) \<Longrightarrow> bindR m k = bindR m' k'"
  by (cases m') auto

text \<open>Phase 1: double \<open>lower_high\<close> until a quote is valid.\<close>

function coarse_lower ::
  "(u64 \<Rightarrow> (venue_error, quote_result) res) \<Rightarrow> u64 \<Rightarrow> u64 \<Rightarrow> (venue_error, u64 \<times> u64) res" where
  "coarse_lower f lower_low lower_high =
     bindR (probe f lower_high) (\<lambda>valid.
       if valid then Ok (lower_low, lower_high)
       else
         let next_high = saturating_mul lower_high SCALING_FACTOR
         in if next_high \<le> lower_high \<or> next_high = u64_MAX then Ok (lower_high, u64_MAX)
            else coarse_lower f lower_high next_high)"
  by pat_completeness auto
termination
  by (relation "measure (\<lambda>(f, ll, lh). 2 ^ 64 - unat lh)")
    (auto simp: word_le_nat_alt intro!: diff_less_mono2)

text \<open>Phase 2: double \<open>upper_high\<close> while quotes stay valid.\<close>

function coarse_upper ::
  "(u64 \<Rightarrow> (venue_error, quote_result) res) \<Rightarrow> u64 \<Rightarrow> u64 \<Rightarrow> (venue_error, u64 \<times> u64) res" where
  "coarse_upper f upper_low upper_high =
     bindR (probe f upper_high) (\<lambda>valid.
       if \<not> valid then Ok (upper_low, upper_high)
       else
         let next_high = saturating_mul upper_high SCALING_FACTOR
         in if next_high \<le> upper_high \<or> next_high = u64_MAX then Ok (upper_high, u64_MAX)
            else coarse_upper f upper_high next_high)"
  by pat_completeness auto
termination
  by (relation "measure (\<lambda>(f, ul, uh). 2 ^ 64 - unat uh)")
    (auto simp: word_le_nat_alt intro!: diff_less_mono2)

declare coarse_lower.simps [simp del] coarse_upper.simps [simp del]

definition find_boundaries_coarse ::
  "(u64 \<Rightarrow> (venue_error, quote_result) res) \<Rightarrow> (venue_error, u64 \<times> u64 \<times> u64 \<times> u64) res" where
  "find_boundaries_coarse f =
     bindR (coarse_lower f 0 1) (\<lambda>(lower_low, lower_high).
       let upper_low = lower_high;
           upper_high = saturating_mul upper_low SCALING_FACTOR
       in if upper_high \<le> upper_low then Ok (lower_low, lower_high, upper_low, upper_low)
          else bindR (coarse_upper f upper_low upper_high) (\<lambda>(upper_low, upper_high).
                 Ok (lower_low, lower_high, upper_low, upper_high)))"

text \<open>
  The binary search of both refinements. The loop runs while \<open>high - low > 100\<close>, a
  checked subtraction.
\<close>

lemma mid_between:
  fixes low high :: u64
  assumes "low \<le> high" "100 < high - low"
  shows "low < high div 2 + low div 2" "high div 2 + low div 2 < high"
    and "unat (high div 2 + low div 2) = unat high div 2 + unat low div 2"
proof -
  have d: "unat low + 100 < unat high"
    using assms by (simp add: word_le_nat_alt word_less_nat_alt unat_sub_le)
  have "unat high div 2 + unat low div 2 < 2 ^ 64"
    using unat_lt_64 [of low] unat_lt_64 [of high] by (simp del: unat_lt_64)
  then show m: "unat (high div 2 + low div 2) = unat high div 2 + unat low div 2"
    by (subst unat_add_fits) (simp_all add: unat_div)
  show "low < high div 2 + low div 2" "high div 2 + low div 2 < high"
    unfolding word_less_nat_alt m using d by linarith+
qed

lemma mid_measure:
  fixes low high :: u64
  assumes "low \<le> high" "100 < high - low"
  shows "unat (high div 2 + low div 2) - unat low < unat high - unat low"
    and "unat high - unat (high div 2 + low div 2) < unat high - unat low"
  using mid_between(1,2) [OF assms] by (auto simp: word_less_nat_alt)

function refine_lower_loop ::
  "(u64 \<Rightarrow> (venue_error, quote_result) res) \<Rightarrow> u64 \<Rightarrow> u64 \<Rightarrow> (venue_error, u64) res" where
  "refine_lower_loop f low high =
     bindR (sub_p high low) (\<lambda>gap.
       if gap > 100 then
         let mid = high div 2 + low div 2
         in bindR (probe f mid) (\<lambda>valid.
              if valid then refine_lower_loop f low mid else refine_lower_loop f mid high)
       else Ok high)"
  by pat_completeness auto
termination
  by (relation "measure (\<lambda>(f, low, high). unat high - unat low)")
    (auto simp: sub_p_def res_inv checked_sub_eq_Some intro: mid_measure)

function refine_upper_loop ::
  "(u64 \<Rightarrow> (venue_error, quote_result) res) \<Rightarrow> u64 \<Rightarrow> u64 \<Rightarrow> (venue_error, u64) res" where
  "refine_upper_loop f low high =
     bindR (sub_p high low) (\<lambda>gap.
       if gap > 100 then
         let mid = high div 2 + low div 2
         in bindR (probe f mid) (\<lambda>valid.
              if valid then refine_upper_loop f mid high else refine_upper_loop f low mid)
       else Ok low)"
  by pat_completeness auto
termination
  by (relation "measure (\<lambda>(f, low, high). unat high - unat low)")
    (auto simp: sub_p_def res_inv checked_sub_eq_Some intro: mid_measure)

declare refine_lower_loop.simps [simp del] refine_upper_loop.simps [simp del]

text \<open>
  Both refinements first quote at the two ends, to log a broken invariant; the results
  are not used.
\<close>

definition refine_lower ::
  "(u64 \<Rightarrow> (venue_error, quote_result) res) \<Rightarrow> u64 \<Rightarrow> u64 \<Rightarrow> (venue_error, u64) res" where
  "refine_lower f low high =
     bindR (probe f low) (\<lambda>_. bindR (probe f high) (\<lambda>_. refine_lower_loop f low high))"

definition refine_upper ::
  "(u64 \<Rightarrow> (venue_error, quote_result) res) \<Rightarrow> u64 \<Rightarrow> u64 \<Rightarrow> (venue_error, u64) res" where
  "refine_upper f low high =
     bindR (probe f low) (\<lambda>_. bindR (probe f high) (\<lambda>_. refine_upper_loop f low high))"

definition find_boundaries ::
  "(u64 \<Rightarrow> (venue_error, quote_result) res) \<Rightarrow> (venue_error, u64 \<times> u64) res" where
  "find_boundaries f =
     bindR (find_boundaries_coarse f) (\<lambda>(lower_low, lower_high, upper_low, upper_high).
       if lower_low = upper_high then
         Err (BoundarySearchFailed
           (EStaticStr ''Search boundaries are all equal; search space collapsed''))
       else if lower_high = u64_MAX then
         Err (NoQuotableValue
           (EStaticStr ''No quotable value found; exponential search hit u64::MAX''))
       else
         bindR (refine_lower f lower_low lower_high) (\<lambda>lower_bound.
         bindR (refine_upper f upper_low upper_high) (\<lambda>upper_bound.
           Ok (lower_bound, upper_bound))))"

text \<open>\<open>TradingVenue::bounds\<close>: the search over exact-in quotes of two of the venue's tokens.\<close>

definition bounds :: "trading_venue \<Rightarrow> u8 \<Rightarrow> u8 \<Rightarrow> (venue_error, u64 \<times> u64) res" where
  "bounds v tkn_in_ind tkn_out_ind =
     bindR (get_token v (unat tkn_in_ind)) (\<lambda>tin.
     bindR (get_token v (unat tkn_out_ind)) (\<lambda>tout.
       find_boundaries (\<lambda>x. v_quote v
         \<lparr>req_input_mint = ti_pubkey tin, req_output_mint = ti_pubkey tout,
          req_amount = x, req_swap_type = ExactIn\<rparr>)))"

section \<open>Behaviour of the phases\<close>

text \<open>
  \<open>valid_at f x\<close>: the quote at \<open>x\<close> is usable. The lemmas are about quoting functions
  that never panic.
\<close>

definition valid_at :: "(u64 \<Rightarrow> (venue_error, quote_result) res) \<Rightarrow> u64 \<Rightarrow> bool" where
  "valid_at f x = (case f x of Inr q \<Rightarrow> valid_quote q | Inl _ \<Rightarrow> False)"

definition no_panic :: "(u64 \<Rightarrow> (venue_error, quote_result) res) \<Rightarrow> bool" where
  "no_panic f \<longleftrightarrow> (\<forall>x. f x \<noteq> Panic)"

lemma probe_valid_at: "no_panic f \<Longrightarrow> probe f x = Ok (valid_at f x)"
  by (auto simp: probe_def valid_at_def no_panic_def split: sum.splits fault.splits)

lemma valid_at_eq_Inr: "valid_at f x \<longleftrightarrow> (\<exists>q. f x = Ok q \<and> valid_quote q)"
  by (auto simp: valid_at_def split: sum.splits)

lemma refine_lower_loop_spec:
  assumes "no_panic f" "low < high" "valid_at f high"
  shows "\<exists>h. refine_lower_loop f low high = Ok h \<and> low < h \<and> h \<le> high \<and> valid_at f h \<and>
    (\<exists>x. low \<le> x \<and> x < h \<and> unat h - unat x \<le> 100 \<and> (x = low \<or> \<not> valid_at f x))"
  using assms
proof (induction f low high rule: refine_lower_loop.induct)
  case (1 f low high)
  note p = probe_valid_at [OF "1.prems"(1)]
  let ?mid = "high div 2 + low div 2"
  have gap: "sub_p high low = Ok (high - low)"
    using "1.prems"(2) by (simp add: sub_p_def checked_sub_def)
  show ?case
  proof (cases "100 < high - low")
    case True
    have mid: "low < ?mid" "?mid < high"
      using "1.prems"(2) True by (auto intro: mid_between)
    show ?thesis
    proof (cases "valid_at f ?mid")
      case valid: True
      have "\<exists>h. refine_lower_loop f low ?mid = Ok h \<and> low < h \<and> h \<le> ?mid \<and> valid_at f h \<and>
        (\<exists>x. low \<le> x \<and> x < h \<and> unat h - unat x \<le> 100 \<and> (x = low \<or> \<not> valid_at f x))"
        using "1.IH"(1) [OF gap True refl p] "1.prems"(1) mid valid by simp
      then show ?thesis using True valid mid(2)
        by (subst refine_lower_loop.simps) (fastforce simp: gap p)
    next
      case invalid: False
      have "\<exists>h. refine_lower_loop f ?mid high = Ok h \<and> ?mid < h \<and> h \<le> high \<and> valid_at f h \<and>
        (\<exists>x. ?mid \<le> x \<and> x < h \<and> unat h - unat x \<le> 100 \<and> (x = ?mid \<or> \<not> valid_at f x))"
        using "1.IH"(2) [OF gap True refl p] "1.prems"(1,3) mid invalid by simp
      then obtain h x where "refine_lower_loop f ?mid high = Ok h" "?mid < h" "h \<le> high"
        "valid_at f h" "?mid \<le> x" "x < h" "unat h - unat x \<le> 100" "\<not> valid_at f x"
        using invalid by blast
      then show ?thesis using True invalid mid(1)
        by (subst refine_lower_loop.simps) (auto simp: gap p intro!: exI [of _ x])
    qed
  next
    case False
    then have "unat high - unat low \<le> 100"
      using "1.prems"(2) by (simp add: word_less_nat_alt unat_sub_le)
    then show ?thesis using False "1.prems"
      by (subst refine_lower_loop.simps) (auto simp: gap intro!: exI [of _ low])
  qed
qed

lemma refine_upper_loop_spec:
  assumes "no_panic f" "low \<le> high" "valid_at f low"
  shows "\<exists>h. refine_upper_loop f low high = Ok h \<and> low \<le> h \<and> h \<le> high \<and> valid_at f h \<and>
    (\<exists>y. h \<le> y \<and> y \<le> high \<and> unat y - unat h \<le> 100 \<and> (y = high \<or> \<not> valid_at f y))"
  using assms
proof (induction f low high rule: refine_upper_loop.induct)
  case (1 f low high)
  note p = probe_valid_at [OF "1.prems"(1)]
  let ?mid = "high div 2 + low div 2"
  have gap: "sub_p high low = Ok (high - low)"
    using "1.prems"(2) by (simp add: sub_p_def checked_sub_def)
  show ?case
  proof (cases "100 < high - low")
    case True
    have mid: "low < ?mid" "?mid < high"
      using "1.prems"(2) True by (auto intro: mid_between)
    show ?thesis
    proof (cases "valid_at f ?mid")
      case valid: True
      have "\<exists>h. refine_upper_loop f ?mid high = Ok h \<and> ?mid \<le> h \<and> h \<le> high \<and> valid_at f h \<and>
        (\<exists>y. h \<le> y \<and> y \<le> high \<and> unat y - unat h \<le> 100 \<and> (y = high \<or> \<not> valid_at f y))"
        using "1.IH"(1) [OF gap True refl p] "1.prems"(1) mid valid by simp
      then show ?thesis using True valid mid(1)
        by (subst refine_upper_loop.simps) (fastforce simp: gap p)
    next
      case invalid: False
      have "\<exists>h. refine_upper_loop f low ?mid = Ok h \<and> low \<le> h \<and> h \<le> ?mid \<and> valid_at f h \<and>
        (\<exists>y. h \<le> y \<and> y \<le> ?mid \<and> unat y - unat h \<le> 100 \<and> (y = ?mid \<or> \<not> valid_at f y))"
        using "1.IH"(2) [OF gap True refl p] "1.prems"(1,3) mid invalid by simp
      then obtain h y where "refine_upper_loop f low ?mid = Ok h" "low \<le> h" "h \<le> ?mid"
        "valid_at f h" "h \<le> y" "y \<le> ?mid" "unat y - unat h \<le> 100" "\<not> valid_at f y"
        using invalid by blast
      then show ?thesis using True invalid mid(2)
        by (subst refine_upper_loop.simps) (auto simp: gap p intro!: exI [of _ y])
    qed
  next
    case False
    then have "unat high - unat low \<le> 100"
      using "1.prems"(2) by (simp add: word_less_nat_alt word_le_nat_alt unat_sub_le)
    then show ?thesis using False "1.prems"
      by (subst refine_upper_loop.simps) (auto simp: gap intro!: exI [of _ high])
  qed
qed

text \<open>The coarse phases probe the powers of two.\<close>

lemma unat_2p: "k < 64 \<Longrightarrow> unat ((2::u64) ^ k) = 2 ^ k"
proof -
  assume "k < 64"
  then have "(2::nat) ^ k < 2 ^ 64" by (intro power_strict_increasing) auto
  moreover have "(2::u64) ^ k = word_of_nat (2 ^ k)" by simp
  ultimately show ?thesis by (simp only: unat_of_nat) simp
qed

lemma p2_mono: "j \<le> k \<Longrightarrow> k < 64 \<Longrightarrow> (2::u64) ^ j \<le> 2 ^ k"
  by (simp add: word_le_nat_alt unat_2p)

lemma p2_less: "j < k \<Longrightarrow> k < 64 \<Longrightarrow> (2::u64) ^ j < 2 ^ k"
  by (simp add: word_less_nat_alt unat_2p)

lemma p2_less_MAX: "k < 64 \<Longrightarrow> (2::u64) ^ k < u64_MAX"
proof -
  assume "k < 64"
  then have "(2::nat) ^ k \<le> 2 ^ 63" by (intro power_increasing) auto
  with \<open>k < 64\<close> show ?thesis by (simp add: word_less_nat_alt unat_2p)
qed

lemma double_p2:
  "k < 63 \<Longrightarrow> saturating_mul ((2::u64) ^ k) SCALING_FACTOR = 2 ^ Suc k"
  "saturating_mul ((2::u64) ^ 63) SCALING_FACTOR = u64_MAX"
proof -
  assume k: "k < 63"
  then have "(2::nat) ^ Suc k \<le> 2 ^ 63" by (intro power_increasing) auto
  then have "unat (saturating_mul ((2::u64) ^ k) SCALING_FACTOR) = unat ((2::u64) ^ Suc k)"
    using k unat_2p [of k] unat_2p [of "Suc k"] by (simp add: unat_ops SCALING_FACTOR_def)
  then show "saturating_mul ((2::u64) ^ k) SCALING_FACTOR = 2 ^ Suc k"
    by (simp only: word_unat_eq_iff)
next
  show "saturating_mul ((2::u64) ^ 63) SCALING_FACTOR = u64_MAX"
    by (simp add: saturating_mul_def SCALING_FACTOR_def)
qed

lemma coarse_lower_found:
  assumes "no_panic f" "valid_at f (2 ^ j)" "\<And>i. k \<le> i \<Longrightarrow> i < j \<Longrightarrow> \<not> valid_at f (2 ^ i)"
    and "k \<le> j" "j < 64"
  shows "coarse_lower f low (2 ^ k) = Ok (if j = k then low else 2 ^ (j - 1), 2 ^ j)"
  using assms(4,3)
proof (induction "j - k" arbitrary: k low)
  case 0
  then show ?case using assms(2)
    by (subst coarse_lower.simps) (simp add: probe_valid_at [OF assms(1)])
next
  case (Suc n)
  then have k: "k < j" "k < 63" using assms(5) by linarith+
  have *: "coarse_lower f (2 ^ k) (2 ^ Suc k)
      = Ok (if j = Suc k then 2 ^ k else 2 ^ (j - 1), 2 ^ j)"
    using Suc.hyps(2) Suc.prems k by (intro Suc.hyps(1)) auto
  have "\<not> (2::u64) ^ Suc k \<le> 2 ^ k" "(2::u64) ^ Suc k \<noteq> u64_MAX"
    using p2_less [of k "Suc k"] p2_less_MAX [of "Suc k"] k by auto
  then show ?case using Suc.prems k *
    by (subst coarse_lower.simps)
      (auto simp: probe_valid_at [OF assms(1)] double_p2(1) Let_def simp del: power_Suc)
qed

lemma coarse_lower_none:
  assumes "no_panic f" "\<And>i. k \<le> i \<Longrightarrow> i < 64 \<Longrightarrow> \<not> valid_at f (2 ^ i)" "k < 64"
  shows "coarse_lower f low (2 ^ k) = Ok (2 ^ 63, u64_MAX)"
  using assms(3,2)
proof (induction "63 - k" arbitrary: k low)
  case 0
  then have k: "k = 63" by simp
  have "probe f (2 ^ 63) = Ok False"
    using "0.prems"(2) [of 63] unfolding k by (simp only: probe_valid_at [OF assms(1)])
  then show ?case unfolding k
    by (subst coarse_lower.simps) (simp only: double_p2(2) Let_def bindR_Inr if_False if_True simp_thms)
next
  case (Suc n)
  then have k: "k < 63" by simp
  have *: "coarse_lower f (2 ^ k) (2 ^ Suc k) = Ok (2 ^ 63, u64_MAX)"
    using Suc.hyps(2) Suc.prems k by (intro Suc.hyps(1)) auto
  have "\<not> (2::u64) ^ Suc k \<le> 2 ^ k" "(2::u64) ^ Suc k \<noteq> u64_MAX"
    using p2_less [of k "Suc k"] p2_less_MAX [of "Suc k"] k by auto
  then show ?case using Suc.prems k *
    by (subst coarse_lower.simps)
      (auto simp: probe_valid_at [OF assms(1)] double_p2(1) Let_def simp del: power_Suc)
qed

lemma u64_le_MAX [simp]: "(x::u64) \<le> u64_MAX"
  using unat_lt_64 [of x] by (simp add: word_le_nat_alt del: unat_lt_64)

lemma coarse_upper_spec:
  assumes "no_panic f" "valid_at f low" "low < high"
  shows "\<exists>ul uh. coarse_upper f low high = Ok (ul, uh) \<and> low \<le> ul \<and> ul \<le> uh \<and> valid_at f ul \<and>
    (uh = u64_MAX \<or> \<not> valid_at f uh)"
  using assms
proof (induction f low high rule: coarse_upper.induct)
  case (1 f low high)
  note p = probe_valid_at [OF "1.prems"(1)]
  let ?next = "saturating_mul high SCALING_FACTOR"
  consider "\<not> valid_at f high" | "valid_at f high" "?next \<le> high \<or> ?next = u64_MAX"
    | "valid_at f high" "high < ?next" "?next \<noteq> u64_MAX"
    by force
  then show ?case
  proof cases
    case 1
    then show ?thesis using "1.prems"
      by (subst coarse_upper.simps) (auto simp: p)
  next
    case 2
    then show ?thesis using "1.prems" u64_le_MAX [of high]
      by (subst coarse_upper.simps) (auto simp: p Let_def)
  next
    case 3
    have "\<exists>ul uh. coarse_upper f high ?next = Ok (ul, uh) \<and> high \<le> ul \<and> ul \<le> uh \<and> valid_at f ul \<and>
      (uh = u64_MAX \<or> \<not> valid_at f uh)"
      using 3 by (intro "1.IH" [OF p _ refl]) (auto intro: "1.prems")
    then show ?thesis using 3 "1.prems"(3)
      by (subst coarse_upper.simps) (fastforce simp: p Let_def)
  qed
qed

section \<open>The whole search\<close>

lemma bind_probe: "no_panic f \<Longrightarrow> bindR (probe f x) k = k (valid_at f x)"
  by (simp add: probe_valid_at)

lemma least_p2:
  assumes "valid_at f (2 ^ k)"
  obtains j where "j \<le> k" "valid_at f (2 ^ j)" "\<And>i. i < j \<Longrightarrow> \<not> valid_at f (2 ^ i)"
  using LeastI [of "\<lambda>k. valid_at f (2 ^ k)", OF assms]
    not_less_Least [of _ "\<lambda>k. valid_at f (2 ^ k)"] Least_le [of "\<lambda>k. valid_at f (2 ^ k)", OF assms]
  by blast

lemma find_boundaries_coarse_found:
  assumes f: "no_panic f" and j: "valid_at f (2 ^ j)" "\<And>i. i < j \<Longrightarrow> \<not> valid_at f (2 ^ i)" "j < 64"
  obtains ul uh where
    "find_boundaries_coarse f = Ok (if j = 0 then 0 else 2 ^ (j - 1), 2 ^ j, ul, uh)"
    "2 ^ j \<le> ul" "ul \<le> uh" "valid_at f ul" "uh = u64_MAX \<or> \<not> valid_at f uh"
proof -
  have lower: "coarse_lower f 0 1 = Ok (if j = 0 then 0 else 2 ^ (j - 1), 2 ^ j)"
    using coarse_lower_found [OF f j(1), of 0 0] j by simp
  have next_high: "(2::u64) ^ j < saturating_mul (2 ^ j) SCALING_FACTOR"
  proof (cases "j = 63")
    case True
    show ?thesis unfolding True double_p2(2) by (rule p2_less_MAX) simp
  next
    case False
    then have "j < 63" using j(3) by simp
    then show ?thesis unfolding double_p2(1) [OF \<open>j < 63\<close>] by (intro p2_less) auto
  qed
  then obtain ul uh where "coarse_upper f (2 ^ j) (saturating_mul (2 ^ j) SCALING_FACTOR) = Ok (ul, uh)"
    "2 ^ j \<le> ul" "ul \<le> uh" "valid_at f ul" "uh = u64_MAX \<or> \<not> valid_at f uh"
    using coarse_upper_spec [OF f j(1) next_high] by blast
  then show thesis using next_high [THEN linorder_not_le [THEN iffD2]]
    by (intro that [of ul uh]) (simp_all add: find_boundaries_coarse_def lower Let_def)
qed

lemma find_boundaries_spec:
  assumes f: "no_panic f" and k: "k < 64" "valid_at f (2 ^ k)"
  shows "\<exists>l u. find_boundaries f = Ok (l, u) \<and> l \<le> u \<and> valid_at f l \<and> valid_at f u \<and>
    (\<exists>x. x < l \<and> unat l - unat x \<le> 100 \<and> (x = 0 \<or> \<not> valid_at f x)) \<and>
    (\<exists>y. u \<le> y \<and> unat y - unat u \<le> 100 \<and> (y = u64_MAX \<or> \<not> valid_at f y))"
proof -
  obtain j where j: "j \<le> k" "valid_at f (2 ^ j)" "\<And>i. i < j \<Longrightarrow> \<not> valid_at f (2 ^ i)"
    using least_p2 [OF k(2)] by blast
  have j64: "j < 64" using j(1) k(1) by simp
  obtain ul uh where c:
    "find_boundaries_coarse f = Ok (if j = 0 then 0 else 2 ^ (j - 1), 2 ^ j, ul, uh)"
    "2 ^ j \<le> ul" "ul \<le> uh" "valid_at f ul" "uh = u64_MAX \<or> \<not> valid_at f uh"
    using find_boundaries_coarse_found [OF f j(2,3) j64] by blast
  let ?ll = "if j = 0 then 0 else (2::u64) ^ (j - 1)"
  have ll: "?ll < 2 ^ j" using j64 p2_less [of "j - 1" j] by auto
  then obtain l x where l: "refine_lower_loop f ?ll (2 ^ j) = Ok l" "l \<le> 2 ^ j" "valid_at f l"
    "x < l" "unat l - unat x \<le> 100" "x = ?ll \<or> \<not> valid_at f x"
    using refine_lower_loop_spec [OF f ll j(2)] by blast
  have x: "x = 0 \<or> \<not> valid_at f x"
    using l(6) j(3) [of "j - 1"] by (cases "j = 0") auto
  obtain u y where u: "refine_upper_loop f ul uh = Ok u" "ul \<le> u" "valid_at f u"
    "u \<le> y" "unat y - unat u \<le> 100" "y = uh \<or> \<not> valid_at f y"
    using refine_upper_loop_spec [OF f c(3,4)] by blast
  have y: "y = u64_MAX \<or> \<not> valid_at f y" using u(6) c(5) by blast
  have "?ll \<noteq> uh" "(2::u64) ^ j \<noteq> u64_MAX"
    using ll c(2,3) p2_less_MAX [OF j64] by auto
  then have "find_boundaries f = Ok (l, u)"
    by (simp add: find_boundaries_def c(1) refine_lower_def refine_upper_def bind_probe [OF f] l(1) u(1))
  moreover have "l \<le> u" using l(2) c(2) u(2) by order
  ultimately show ?thesis using l u x y by blast
qed

lemma find_boundaries_none:
  assumes f: "no_panic f" and none: "\<And>k. k < 64 \<Longrightarrow> \<not> valid_at f (2 ^ k)"
  shows "find_boundaries f = Err (NoQuotableValue
    (EStaticStr ''No quotable value found; exponential search hit u64::MAX''))"
proof -
  have "coarse_lower f 0 1 = Ok (2 ^ 63, u64_MAX)"
    using coarse_lower_none [OF f, of 0 0] none by simp
  then show ?thesis
    by (simp add: find_boundaries_def find_boundaries_coarse_def Let_def saturating_mul_def
        SCALING_FACTOR_def)
qed

section \<open>The quoter interface\<close>

text \<open>
  What the search relies on: quotes that do not panic, for the well-formed states of a
  venue. A \<open>convex_quoter\<close> also has no hole in its valid amounts.
\<close>

locale quoter =
  fixes quote_at :: "'s \<Rightarrow> u64 \<Rightarrow> (venue_error, quote_result) res"
    and wf :: "'s \<Rightarrow> bool"
  assumes quote_no_panic: "wf s \<Longrightarrow> quote_at s x \<noteq> Panic"
begin

lemma no_panic_quote: "wf s \<Longrightarrow> no_panic (quote_at s)"
  by (simp add: no_panic_def quote_no_panic)

lemma search_no_panic: "wf s \<Longrightarrow> find_boundaries (quote_at s) \<noteq> Panic"
  using find_boundaries_spec [OF no_panic_quote] find_boundaries_none [OF no_panic_quote]
  by (metis Inl_Inr_False Inl_inject fault.distinct(1))

lemma search_ok_iff:
  "wf s \<Longrightarrow> (\<exists>r. find_boundaries (quote_at s) = Ok r) \<longleftrightarrow> (\<exists>k<64. valid_at (quote_at s) (2 ^ k))"
  using find_boundaries_spec [OF no_panic_quote] find_boundaries_none [OF no_panic_quote]
  by (metis Inl_Inr_False)

lemma search_ends:
  assumes "wf s" "find_boundaries (quote_at s) = Ok (l, u)"
  shows "l \<le> u \<and> valid_at (quote_at s) l \<and> valid_at (quote_at s) u"
    and "\<exists>x. x < l \<and> unat l - unat x \<le> 100 \<and> (x = 0 \<or> \<not> valid_at (quote_at s) x)"
    and "\<exists>y. u \<le> y \<and> unat y - unat u \<le> 100 \<and> (y = u64_MAX \<or> \<not> valid_at (quote_at s) y)"
proof -
  obtain k where "k < 64" "valid_at (quote_at s) (2 ^ k)"
    using assms search_ok_iff by blast
  from find_boundaries_spec [OF no_panic_quote [OF assms(1)] this] assms(2)
  show "l \<le> u \<and> valid_at (quote_at s) l \<and> valid_at (quote_at s) u"
    "\<exists>x. x < l \<and> unat l - unat x \<le> 100 \<and> (x = 0 \<or> \<not> valid_at (quote_at s) x)"
    "\<exists>y. u \<le> y \<and> unat y - unat u \<le> 100 \<and> (y = u64_MAX \<or> \<not> valid_at (quote_at s) y)"
    by auto
qed

end

locale convex_quoter = quoter +
  assumes convex: "wf s \<Longrightarrow> valid_at (quote_at s) x \<Longrightarrow> valid_at (quote_at s) z \<Longrightarrow>
    x \<le> y \<Longrightarrow> y \<le> z \<Longrightarrow> valid_at (quote_at s) y"
begin

lemma search_covers:
  assumes "wf s" "find_boundaries (quote_at s) = Ok (l, u)"
  shows "l \<le> x \<Longrightarrow> x \<le> u \<Longrightarrow> valid_at (quote_at s) x"
    and "valid_at (quote_at s) x \<Longrightarrow> unat l \<le> unat x + 100 \<and> unat x \<le> unat u + 100"
proof -
  note e = search_ends [OF assms]
  show "l \<le> x \<Longrightarrow> x \<le> u \<Longrightarrow> valid_at (quote_at s) x"
    using convex [OF assms(1)] e(1) by blast
  show "unat l \<le> unat x + 100 \<and> unat x \<le> unat u + 100" if x: "valid_at (quote_at s) x"
  proof
    obtain w where w: "w < l" "unat l - unat w \<le> 100" "w = 0 \<or> \<not> valid_at (quote_at s) w"
      using e(2) by blast
    have "w \<le> x" using convex [OF assms(1) x, of l w] e(1) w by (cases "w \<le> x") auto
    then show "unat l \<le> unat x + 100" using w(2) by (simp add: word_le_nat_alt)
    obtain y where y: "u \<le> y" "unat y - unat u \<le> 100" "y = u64_MAX \<or> \<not> valid_at (quote_at s) y"
      using e(3) by blast
    have "x \<le> y" using convex [OF assms(1) _ x, of u y] e(1) y by (cases "x \<le> y") auto
    then show "unat x \<le> unat u + 100" using y(2) by (simp add: word_le_nat_alt)
  qed
qed

end

section \<open>Properties\<close>

text \<open>
  C1: whenever some power of two can be quoted, the search of a quoting function that
  does not panic returns two quotable amounts \<open>l \<le> u\<close>; within 100 atoms below \<open>l\<close> there
  is an amount that cannot be quoted (or zero), and within 100 atoms above \<open>u\<close> there is
  one that cannot be quoted (or \<open>u64::MAX\<close>).
\<close>

theorem find_boundaries_sound:
  assumes "no_panic f" "k < 64" "valid_at f (2 ^ k)"
  shows "\<exists>l u. find_boundaries f = Ok (l, u) \<and> l \<le> u \<and> valid_at f l \<and> valid_at f u \<and>
    (\<exists>x. x < l \<and> unat l - unat x \<le> 100 \<and> (x = 0 \<or> \<not> valid_at f x)) \<and>
    (\<exists>y. u \<le> y \<and> unat y - unat u \<le> 100 \<and> (y = u64_MAX \<or> \<not> valid_at f y))"
  using assms by (rule find_boundaries_spec)

text \<open>A sample quoting function: amounts from 1000 on are quoted at their own value.\<close>

definition sample_quote :: "u64 \<Rightarrow> (venue_error, quote_result) res" where
  "sample_quote x =
     Ok \<lparr>qr_input_mint = 0, qr_output_mint = 1, qr_amount = x, qr_expected_output = x,
         qr_not_enough_liquidity = (x < 1000), qr_price = f_of_nat 1\<rparr>"

lemma sample_quote_no_panic: "no_panic sample_quote"
  by (simp add: no_panic_def sample_quote_def)

lemma sample_quote_valid: "valid_at sample_quote x \<longleftrightarrow> 1000 \<le> x \<and> x \<noteq> 0"
  by (auto simp: valid_at_def sample_quote_def valid_quote_def)

theorem find_boundaries_sound_witness:
  "\<exists>l u. find_boundaries sample_quote = Ok (l, u) \<and> l \<le> u \<and>
    valid_at sample_quote l \<and> valid_at sample_quote u"
  using find_boundaries_sound [of sample_quote 10] sample_quote_no_panic
  by (auto simp: sample_quote_valid)

text \<open>
  C15: the outcome of the search is decided by the powers of two alone. When one of them
  can be quoted it succeeds; when none can, it returns exactly the \<open>NoQuotableValue\<close>
  error. It never panics and never returns \<open>BoundarySearchFailed\<close>.
\<close>

theorem find_boundaries_outcome:
  assumes "no_panic f"
  shows "if \<exists>k<64. valid_at f (2 ^ k) then is_ok (find_boundaries f)
    else find_boundaries f = Err (NoQuotableValue
      (EStaticStr ''No quotable value found; exponential search hit u64::MAX''))"
proof (cases "\<exists>k<64. valid_at f (2 ^ k)")
  case True
  then obtain k where "k < 64" "valid_at f (2 ^ k)" by blast
  from find_boundaries_spec [OF assms this] True show ?thesis by (auto simp: is_ok_iff)
next
  case False
  with find_boundaries_none [OF assms] show ?thesis by auto
qed

theorem find_boundaries_outcome_witness: "is_ok (find_boundaries sample_quote)"
proof -
  have "valid_at sample_quote (2 ^ 10)" by (simp add: sample_quote_valid)
  then have "\<exists>k<64. valid_at sample_quote (2 ^ k)" by (intro exI [of _ 10]) simp
  with find_boundaries_outcome [OF sample_quote_no_panic] show ?thesis by simp
qed

end
