(* ===== verification/Account_Cache.thy ===== *)
theory Account_Cache
  imports Venue_Types
begin

text \<open>
  The account source of the venues (\<open>src/account_caching\<close>): the \<open>AccountsCache\<close>
  interface as a locale, and its implementation \<open>RpcClientCache\<close>, a map from keys to
  fetched accounts over an RPC client. The client is a pair of functions that answer a
  request with accounts or with an error message; an answer has one entry per requested
  key, which the RPC method documents and the cache relies on.
\<close>

section \<open>The RPC-backed cache (\<open>rpc_cache.rs\<close>)\<close>

record rpc_client =
  rpc_get_account :: "pubkey \<Rightarrow> string + account"
  rpc_get_multiple_accounts :: "pubkey list \<Rightarrow> string + account option list"

record rpc_client_cache =
  rpc :: rpc_client
  cached :: "pubkey \<Rightarrow> account option option"

definition rpc_client_cache_new :: "rpc_client \<Rightarrow> rpc_client_cache" where
  "rpc_client_cache_new client = \<lparr>rpc = client, cached = (\<lambda>_. None)\<rparr>"

definition reset_cache :: "rpc_client_cache \<Rightarrow> rpc_client_cache" where
  "reset_cache c = c\<lparr>cached := (\<lambda>_. None)\<rparr>"

definition get_multiple :: "rpc_client_cache \<Rightarrow> pubkey list \<Rightarrow> account option list" where
  "get_multiple c pubkeys =
     map (\<lambda>key. case cached c key of Some v \<Rightarrow> v | None \<Rightarrow> None) pubkeys"

definition get_account ::
  "rpc_client_cache \<Rightarrow> pubkey \<Rightarrow> (account_cache_error, account option) res \<times> rpc_client_cache" where
  "get_account c pubkey =
     (case cached c pubkey of
        Some v \<Rightarrow> (Ok v, c)
      | None \<Rightarrow>
          (case rpc_get_account (rpc c) pubkey of
             Inl e \<Rightarrow> (Err (FailedToFetchAccount e), c)
           | Inr response \<Rightarrow> (Ok (Some response), c\<lparr>cached := (cached c)(pubkey \<mapsto> Some response)\<rparr>)))"

text \<open>
  The hits go to \<open>result_map\<close>, the other keys are fetched in one request, and the
  results are read back in the order of the request, with an \<open>unwrap\<close> for each.
\<close>

definition hits_map :: "(account option \<times> pubkey) list \<Rightarrow> pubkey \<Rightarrow> account option option" where
  "hits_map = foldl (\<lambda>m (a, k). case a of Some r \<Rightarrow> m(k \<mapsto> Some r) | None \<Rightarrow> m) Map.empty"

definition missed :: "(account option \<times> pubkey) list \<Rightarrow> pubkey list" where
  "missed cs = map snd (filter (\<lambda>(a, k). a = None) cs)"

fun collect_results ::
  "(pubkey \<Rightarrow> account option option) \<Rightarrow> pubkey list \<Rightarrow> ('e, account option list) res" where
  "collect_results m [] = Ok []"
| "collect_results m (k # ks) =
     bindR (unwrap (m k)) (\<lambda>x. bindR (collect_results m ks) (\<lambda>xs. Ok (x # xs)))"

definition get_accounts ::
  "rpc_client_cache \<Rightarrow> pubkey list
    \<Rightarrow> (account_cache_error, account option list) res \<times> rpc_client_cache" where
  "get_accounts c pubkeys =
     (let cached_results = zip (get_multiple c pubkeys) pubkeys;
          result_map = hits_map cached_results;
          keys = missed cached_results
      in if keys = [] then (collect_results result_map pubkeys, c)
         else
           (case rpc_get_multiple_accounts (rpc c) keys of
              Inl e \<Rightarrow> (Err (FailedToFetchAccount e), c)
            | Inr response \<Rightarrow>
                (collect_results (result_map(keys [\<mapsto>] response)) pubkeys,
                 c\<lparr>cached := (cached c)(keys [\<mapsto>] response)\<rparr>)))"

section \<open>The \<open>AccountsCache\<close> interface\<close>

text \<open>
  The promises of the trait that the venues use: as many accounts as keys, the same
  account for the same key, and no panic.
\<close>

locale accounts_cache =
  fixes fetch :: "'c \<Rightarrow> pubkey list \<Rightarrow> (account_cache_error, account option list) res \<times> 'c"
    and wf :: "'c \<Rightarrow> bool"
  assumes fetch_length: "wf c \<Longrightarrow> fetch c ks = (Ok xs, c') \<Longrightarrow> length xs = length ks"
    and fetch_no_panic: "wf c \<Longrightarrow> fst (fetch c ks) \<noteq> Panic"
    and fetch_same: "wf c \<Longrightarrow> fetch c ks = (Ok xs, c') \<Longrightarrow> i < length ks \<Longrightarrow> j < length ks \<Longrightarrow>
      ks ! i = ks ! j \<Longrightarrow> xs ! i = xs ! j"
    and fetch_wf: "wf c \<Longrightarrow> wf (snd (fetch c ks))"
begin

text \<open>An answer to two or five keys can be taken apart without a failure.\<close>

lemma fetch_two:
  assumes "wf c" "fetch c [k1, k2] = (Ok xs, c')"
  obtains a1 a2 where "xs = [a1, a2]"
  using fetch_length [OF assms] by (auto simp: length_Suc_conv)

lemma fetch_five:
  assumes "wf c" "fetch c [k1, k2, k3, k4, k5] = (Ok xs, c')"
  obtains a1 a2 a3 a4 a5 where "xs = [a1, a2, a3, a4, a5]"
  using fetch_length [OF assms] by (auto simp: length_Suc_conv)

lemma fetch_cases:
  assumes "wf c"
  obtains (err) e c' where "fetch c ks = (Err e, c')" "wf c'"
  | (ok) xs c' where "fetch c ks = (Ok xs, c')" "length xs = length ks" "wf c'"
proof (cases "fetch c ks")
  case (Pair r c')
  then have wf: "wf c'" using fetch_wf [OF assms, of ks] by simp
  show ?thesis
  proof (cases r)
    case (Inl x)
    then obtain e where "x = Error e"
      using fetch_no_panic [OF assms, of ks] Pair by (cases x) auto
    then show ?thesis using err Pair Inl wf by simp
  next
    case (Inr xs)
    then show ?thesis using ok fetch_length [OF assms] Pair wf by simp
  qed
qed

end

text \<open>
  \<open>cache.get_accounts(&keys).await?\<close> inside a method on a venue: the state is the venue
  with the cache, and the cache's error is converted by \<open>From\<close>.
\<close>

definition fetchS ::
  "('c \<Rightarrow> pubkey list \<Rightarrow> (account_cache_error, account option list) res \<times> 'c) \<Rightarrow> pubkey list
    \<Rightarrow> ('v \<times> 'c, venue_error, account option list) stateful" where
  "fetchS fetch ks s =
     (case fetch (snd s) ks of (r, c') \<Rightarrow> (map_err AccountCacheError r, (fst s, c')))"

lemma fst_fetchS [simp]: "fst (snd (fetchS fetch ks s)) = fst s"
  by (simp add: fetchS_def split: prod.splits)

lemma fetchS_eq_Inr [res_inv]:
  "fetchS fetch ks s = (Inr xs, s') \<longleftrightarrow> (\<exists>c'. fetch (snd s) ks = (Ok xs, c') \<and> s' = (fst s, c'))"
  by (auto simp: fetchS_def map_err_eq_Inr split: prod.splits)

definition venueS :: "('v \<Rightarrow> 'v) \<Rightarrow> ('v \<times> 'c, 'e, unit) stateful" where
  "venueS f = modifyS (apfst f)"

lemma venueS_eq_Inr [res_inv]: "venueS f s = (Inr u, s') \<longleftrightarrow> s' = (f (fst s), snd s)"
  by (cases s) (auto simp: venueS_def res_inv)

lemma bindS_venueS [simp, res_simps]: "bindS (venueS f) k s = k () (f (fst s), snd s)"
  by (cases s) (simp add: venueS_def)

lemma keeps_fetchS [keeps_intros]: "keeps (\<lambda>s. P (fst s)) (fetchS fetch ks)"
  by (simp add: keeps_def)

lemma keeps_venueS [keeps_intros]:
  "(\<And>v. P v \<Longrightarrow> P (f v)) \<Longrightarrow> keeps (\<lambda>s. P (fst s)) (venueS f)"
  by (auto simp: venueS_def intro: keeps_modifyS)

section \<open>The cache meets the interface\<close>

definition rpc_wf :: "rpc_client_cache \<Rightarrow> bool" where
  "rpc_wf c \<longleftrightarrow>
     (\<forall>ks r. rpc_get_multiple_accounts (rpc c) ks = Inr r \<longrightarrow> length r = length ks)"

abbreviation cached_value :: "rpc_client_cache \<Rightarrow> pubkey \<Rightarrow> account option" where
  "cached_value c k \<equiv> (case cached c k of Some v \<Rightarrow> v | None \<Rightarrow> None)"

lemma hits_map_eq:
  "hits_map (zip (map g ks) ks) k = (if k \<in> set ks then map_option Some (g k) else None)"
proof -
  have "foldl (\<lambda>m (a, k). case a of Some r \<Rightarrow> m(k \<mapsto> Some r) | None \<Rightarrow> m) m (zip (map g ks) ks) k =
    (if k \<in> set ks \<and> g k \<noteq> None then map_option Some (g k) else m k)" for m
    by (induction ks arbitrary: m) (auto split: option.splits)
  then show ?thesis by (simp add: hits_map_def)
qed

lemma missed_eq: "missed (zip (map g ks) ks) = filter (\<lambda>k. g k = None) ks"
  by (induction ks) (auto simp: missed_def)

lemma collect_results_Ok:
  "\<forall>k\<in>set ks. m k \<noteq> None \<Longrightarrow> collect_results m ks = Ok (map (the \<circ> m) ks)"
  by (induction ks) auto

lemma upds_defined: "length xs = length ks \<Longrightarrow> k \<in> set ks \<Longrightarrow> (m(ks [\<mapsto>] xs)) k \<noteq> None"
  by (auto simp: map_upds_def map_add_def map_of_eq_None_iff simp flip: set_map split: option.splits)

lemma upds_other: "k \<notin> set ks \<Longrightarrow> (m(ks [\<mapsto>] xs)) k = m k"
  by (rule map_upds_apply_nontin)

lemma upds_agree: "length xs = length ks \<Longrightarrow> k \<in> set ks \<Longrightarrow> (m(ks [\<mapsto>] xs)) k = (m'(ks [\<mapsto>] xs)) k"
  using upds_defined [of xs ks k Map.empty]
  by (auto simp: map_upds_def map_add_def split: option.splits)

text \<open>The keys that are requested from the client: those without a cached account.\<close>

definition to_fetch :: "rpc_client_cache \<Rightarrow> pubkey list \<Rightarrow> pubkey list" where
  "to_fetch c ks = filter (\<lambda>k. cached_value c k = None) ks"

lemma get_accounts_eq:
  assumes "rpc_wf c"
  shows "get_accounts c ks =
    (if to_fetch c ks = [] then (Ok (map (cached_value c) ks), c)
     else case rpc_get_multiple_accounts (rpc c) (to_fetch c ks) of
       Inl e \<Rightarrow> (Err (FailedToFetchAccount e), c)
     | Inr response \<Rightarrow>
         (let c' = c\<lparr>cached := (cached c)(to_fetch c ks [\<mapsto>] response)\<rparr>
          in (Ok (map (cached_value c') ks), c')))"
proof -
  let ?keys = "to_fetch c ks" and ?hits = "hits_map (zip (get_multiple c ks) ks)"
  have keys: "missed (zip (get_multiple c ks) ks) = ?keys"
    by (simp add: get_multiple_def missed_eq to_fetch_def)
  have hits: "?hits k = (if k \<in> set ks then map_option Some (cached_value c k) else None)" for k
    by (simp add: get_multiple_def hits_map_eq)
  have none: "collect_results ?hits ks = Ok (map (cached_value c) ks)" if "?keys = []"
  proof -
    have "\<forall>k\<in>set ks. cached_value c k \<noteq> None"
      using that by (auto simp: to_fetch_def filter_empty_conv)
    then show ?thesis by (subst collect_results_Ok) (auto simp: hits)
  qed
  have some: "collect_results (?hits(?keys [\<mapsto>] response)) ks =
      Ok (map (cached_value (c\<lparr>cached := (cached c)(?keys [\<mapsto>] response)\<rparr>)) ks)"
    if len: "length response = length ?keys" for response
  proof -
    have v: "(?hits(?keys [\<mapsto>] response)) k =
        Some (cached_value (c\<lparr>cached := (cached c)(?keys [\<mapsto>] response)\<rparr>) k)" if k: "k \<in> set ks" for k
    proof (cases "k \<in> set ?keys")
      case True
      then show ?thesis
        using upds_defined [OF len True, of ?hits] upds_agree [OF len True, of ?hits "cached c"]
        by auto
    next
      case False
      then show ?thesis using k by (auto simp: upds_other hits to_fetch_def)
    qed
    then show ?thesis by (subst collect_results_Ok) (auto simp: v)
  qed
  show ?thesis
    using assms some unfolding rpc_wf_def
    by (auto simp: get_accounts_def Let_def keys none split: sum.splits)
qed

interpretation rpc_cache: accounts_cache get_accounts rpc_wf
proof
  fix c ks xs c' i j
  assume wf: "rpc_wf c"
  show "fst (get_accounts c ks) \<noteq> Panic"
    by (auto simp: get_accounts_eq [OF wf] Let_def split: sum.splits)
  show "rpc_wf (snd (get_accounts c ks))"
    using wf by (auto simp: get_accounts_eq [OF wf] Let_def rpc_wf_def split: sum.splits)
  assume ok: "get_accounts c ks = (Ok xs, c')"
  then have "\<exists>f. xs = map f ks"
    by (auto simp: get_accounts_eq [OF wf] Let_def split: sum.splits if_splits)
  then show "length xs = length ks"
    and "i < length ks \<Longrightarrow> j < length ks \<Longrightarrow> ks ! i = ks ! j \<Longrightarrow> xs ! i = xs ! j"
    by auto
qed

section \<open>Properties\<close>

lemma get_accounts_Ok:
  assumes "rpc_wf c" "get_accounts c ks = (Ok xs, c')"
  shows "get_multiple c' ks = xs" "rpc c' = rpc c"
    "k \<notin> set ks \<or> cached_value c k \<noteq> None \<Longrightarrow> cached c' k = cached c k"
proof -
  have "k \<notin> set (to_fetch c ks)" if "k \<notin> set ks \<or> cached_value c k \<noteq> None"
    using that by (auto simp: to_fetch_def)
  then show "get_multiple c' ks = xs" "rpc c' = rpc c"
    "k \<notin> set ks \<or> cached_value c k \<noteq> None \<Longrightarrow> cached c' k = cached c k"
    using assms by (auto simp: get_accounts_eq get_multiple_def Let_def upds_other
        split: sum.splits if_splits)
qed

text \<open>
  A successful \<open>get_accounts\<close> answers in the order of the request with what the
  cache now holds, so that reading the cache again without the network gives the same
  answer; entries that were accounts already, and entries of other keys, are unchanged.
\<close>

theorem get_accounts_coherent:
  assumes "rpc_wf c" "get_accounts c ks = (Ok xs, c')"
  shows "length xs = length ks \<and> get_multiple c' ks = xs \<and> rpc c' = rpc c \<and>
    (\<forall>k. k \<notin> set ks \<or> cached_value c k \<noteq> None \<longrightarrow> cached c' k = cached c k)"
  using get_accounts_Ok [OF assms] rpc_cache.fetch_length [OF assms] by blast

definition sample_account :: account where
  "sample_account = \<lparr>lamports = 1, acc_data = [], acc_owner = 0, executable = False\<rparr>"

definition sample_rpc :: rpc_client where
  "sample_rpc = \<lparr>rpc_get_account = (\<lambda>k. if k = 7 then Inr sample_account else Inl ''not found''),
     rpc_get_multiple_accounts = (\<lambda>ks. Inr (map (\<lambda>k. if k = 7 then Some sample_account else None) ks))\<rparr>"

lemma sample_rpc_wf: "rpc_wf (rpc_client_cache_new sample_rpc)"
  by (auto simp: rpc_wf_def rpc_client_cache_new_def sample_rpc_def)

theorem get_accounts_coherent_witness:
  "get_multiple (snd (get_accounts (rpc_client_cache_new sample_rpc) [7, 8, 7])) [7, 8, 7] =
    [Some sample_account, None, Some sample_account]"
proof -
  have "get_accounts (rpc_client_cache_new sample_rpc) [7, 8, 7] =
    (Ok [Some sample_account, None, Some sample_account],
     snd (get_accounts (rpc_client_cache_new sample_rpc) [7, 8, 7]))"
    unfolding get_accounts_eq [OF sample_rpc_wf]
    by (simp add: to_fetch_def rpc_client_cache_new_def sample_rpc_def)
  from get_accounts_coherent [OF sample_rpc_wf this] show ?thesis by blast
qed

text \<open>
  A key known to be missing is not served from the cache: \<open>get_accounts\<close> requests
  it again, so that a failing client makes the call fail although \<open>get_account\<close> still
  answers it without the network.
\<close>

theorem negative_lookup_refetched:
  assumes "rpc_wf c" "cached c k = Some None" "rpc_get_multiple_accounts (rpc c) [k] = Inl e"
  shows "get_account c k = (Ok None, c) \<and> get_accounts c [k] = (Err (FailedToFetchAccount e), c)"
  using assms by (simp add: get_account_def get_accounts_eq to_fetch_def)

theorem negative_lookup_refetched_witness:
  "get_accounts \<lparr>rpc = \<lparr>rpc_get_account = (\<lambda>_. Inl ''down''), rpc_get_multiple_accounts = (\<lambda>_. Inl ''down'')\<rparr>,
      cached = [5 \<mapsto> None]\<rparr> [5] =
    (Err (FailedToFetchAccount ''down''),
     \<lparr>rpc = \<lparr>rpc_get_account = (\<lambda>_. Inl ''down''), rpc_get_multiple_accounts = (\<lambda>_. Inl ''down'')\<rparr>,
      cached = [5 \<mapsto> None]\<rparr>)"
  by (rule negative_lookup_refetched [THEN conjunct2]) (simp_all add: rpc_wf_def)

end
