(* ===== verification/Raydium_Venue.thy ===== *)
theory Raydium_Venue
  imports Raydium_Math Bounds Account_Cache
begin

text \<open>
  The Raydium venue (\<open>src/example/mod.rs\<close>, with the account readers of
  \<open>src/example/amm.rs\<close>): its state, construction from an account, state update, quotes,
  swap instruction, lookup-table keys and the detection of new pools. A method on the
  venue is a function of its state; the update also threads the account cache.
\<close>

section \<open>Reading the pool accounts (\<open>amm.rs\<close>)\<close>

record amm_keys =
  amm_pool :: pubkey
  amm_coin_mint :: pubkey
  amm_pc_mint :: pubkey
  amm_authority :: pubkey
  amm_target :: pubkey
  amm_coin_vault :: pubkey
  amm_pc_vault :: pubkey
  amm_lp_mint :: pubkey
  amm_nonce :: u8

definition load_amm_keys ::
  "'x ext_scheme \<Rightarrow> pubkey \<Rightarrow> pubkey \<Rightarrow> account \<Rightarrow> (venue_error, amm_keys) res" where
  "load_amm_keys X amm_program amm_key amm_pool_account =
     bindR (load_from_bytes (acc_data amm_pool_account)) (\<lambda>amm.
     bindR (map_err (\<lambda>_. AmmMethodError (EStaticStr ''Failed to determine authority ID''))
       (authority_id X amm_program AUTHORITY_AMM (ucast (ai_nonce amm)))) (\<lambda>authority.
     Ok \<lparr>amm_pool = amm_key,
         amm_coin_mint = ai_coin_vault_mint amm,
         amm_pc_mint = ai_pc_vault_mint amm,
         amm_authority = authority,
         amm_target = ai_target_orders amm,
         amm_coin_vault = ai_coin_vault amm,
         amm_pc_vault = ai_pc_vault amm,
         amm_lp_mint = ai_lp_mint amm,
         amm_nonce = ucast (ai_nonce amm)\<rparr>))"

definition calculate_pool_vault_amounts_from_accounts ::
  "'x ext_scheme \<Rightarrow> account option \<Rightarrow> account option \<Rightarrow> account option
    \<Rightarrow> (venue_error, calculate_result) res" where
  "calculate_pool_vault_amounts_from_accounts X amm_account amm_pc_vault_account
      amm_coin_vault_account =
     bindR (ok_or amm_account (missing_state ''AMM account missing'')) (\<lambda>amm_acc.
     bindR (ok_or (transmute_amm_info (acc_data amm_acc))
       (deserialization_failed ''Failed to deserialize AMM Info'')) (\<lambda>amm.
     bindR (ok_or amm_pc_vault_account (missing_state ''AMM PC vault account missing'')) (\<lambda>pc_acc.
     bindR (ok_or (token_amount_unpack_checked X (acc_data pc_acc))
       (deserialization_failed ''Failed to deserialize token account'')) (\<lambda>pc_amount.
     bindR (ok_or amm_coin_vault_account
       (missing_state ''AMM Coin vault account missing'')) (\<lambda>coin_acc.
     bindR (ok_or (token_amount_unpack_checked X (acc_data coin_acc))
       (deserialization_failed ''Failed to deserialize AMM coin vault'')) (\<lambda>coin_amount.
     bindR (status_from_u64 (ai_status amm)) (\<lambda>status.
     if orderbook_permission status then
       Err (amm_method_error
         ''Pool has orderbook permission, not able to swap with v2 instruction'')
     else
       bindR (map_err
         (\<lambda>_. amm_method_error ''Failed to calculate total without take PNL with no orderbook'')
         (calc_total_without_take_pnl_no_orderbook pc_amount coin_amount amm)) (\<lambda>(pc, coin).
       Ok \<lparr>cr_pool_pc_vault_amount = pc,
           cr_pool_coin_vault_amount = coin,
           cr_pool_lp_amount = ai_lp_amount amm,
           cr_swap_fee_numerator = fs_swap_fee_numerator (ai_fees amm),
           cr_swap_fee_denominator = fs_swap_fee_denominator (ai_fees amm)\<rparr>))))))))"

text \<open>\<open>swap_v2\<close>: the exact-out instruction is \<open>unimplemented!()\<close>.\<close>

definition swap_v2 ::
  "pubkey \<Rightarrow> amm_keys \<Rightarrow> pubkey \<Rightarrow> pubkey \<Rightarrow> pubkey \<Rightarrow> u64 \<Rightarrow> u64 \<Rightarrow> bool
    \<Rightarrow> (venue_error, instruction) res" where
  "swap_v2 amm_program keys user_owner user_source user_destination amount_specified
      other_amount_threshold swap_base_in =
     (if swap_base_in then
        Ok (swap_base_in_v2 amm_program (amm_pool keys) (amm_authority keys)
          (amm_coin_vault keys) (amm_pc_vault keys) user_source user_destination user_owner
          amount_specified other_amount_threshold)
      else Panic)"

section \<open>The venue's state\<close>

definition RAYDIUM_AMM_PROGRAM_ID :: pubkey where
  "RAYDIUM_AMM_PROGRAM_ID =
     34307378574122751251753648456821433629702160761243254248185250197633836157645"

text \<open>
  The hash set of required keys is a set; where the source lists it, in the unspecified
  order of the hash table, the order is the function \<open>iter\<close>.
\<close>

record raydium_venue =
  rv_amm_keys :: amm_keys
  rv_calculate_result :: "calculate_result option"
  rv_pc_balance :: u64
  rv_coin_balance :: u64
  rv_required_state_pubkeys :: "pubkey set"
  rv_found_all_pubkeys :: bool
  rv_token_info :: "token_info list"

definition state_keys :: "amm_keys \<Rightarrow> pubkey list" where
  "state_keys k = [amm_pool k, amm_pc_vault k, amm_coin_vault k, amm_coin_mint k, amm_pc_mint k]"

definition raydium_from_account ::
  "'x ext_scheme \<Rightarrow> pubkey \<Rightarrow> account \<Rightarrow> (venue_error, raydium_venue) res" where
  "raydium_from_account X pubkey account =
     bindR (map_err (\<lambda>_. FromAccountError (EStaticStr ''Unable to unpack AmmInfo''))
       (load_amm_keys X RAYDIUM_AMM_PROGRAM_ID pubkey account)) (\<lambda>keys.
     Ok \<lparr>rv_amm_keys = keys,
         rv_calculate_result = None,
         rv_pc_balance = 0,
         rv_coin_balance = 0,
         rv_required_state_pubkeys = set (state_keys keys),
         rv_found_all_pubkeys = False,
         rv_token_info = []\<rparr>)"

section \<open>Updating the state\<close>

text \<open>\<open>u64::from_le_bytes(vault.data[64..72])\<close>: the slice panics on short data.\<close>

definition vault_balance :: "account \<Rightarrow> (venue_error, u64) res" where
  "vault_balance vault = bindR (unwrap (get_range (acc_data vault) 64 72)) (\<lambda>d. Ok (from_le_bytes d))"

definition venue_update_state_step_2 ::
  "'x ext_scheme \<Rightarrow> account option \<Rightarrow> account option \<Rightarrow> account option \<Rightarrow> account option
    \<Rightarrow> account option \<Rightarrow> (raydium_venue \<times> 'c, venue_error, unit) stateful" where
  "venue_update_state_step_2 X pool pc_vault coin_vault mint0 mint1 =
     bindS (case pc_vault of
         None \<Rightarrow> liftS (Ok ())
       | Some vault \<Rightarrow>
           bindS (liftS (vault_balance vault)) (\<lambda>b. venueS (\<lambda>v. v\<lparr>rv_pc_balance := b\<rparr>))) (\<lambda>_.
     bindS (case coin_vault of
         None \<Rightarrow> liftS (Ok ())
       | Some vault \<Rightarrow>
           bindS (liftS (vault_balance vault)) (\<lambda>b. venueS (\<lambda>v. v\<lparr>rv_coin_balance := b\<rparr>))) (\<lambda>_.
     bindS (liftS (map_err (\<lambda>_. amm_method_error ''calculate_pool_vault_amounts'')
         (calculate_pool_vault_amounts_from_accounts X pool pc_vault coin_vault))) (\<lambda>result.
     bindS (venueS (\<lambda>v. v\<lparr>rv_calculate_result := Some result\<rparr>)) (\<lambda>_.
     bindS getS (\<lambda>s.
     case (mint0, mint1) of
       (Some m0, Some m1) \<Rightarrow>
         bindS (liftS (token_info_new X (amm_coin_mint (rv_amm_keys (fst s))) m0 u64_MAX)) (\<lambda>t0.
         bindS (liftS (token_info_new X (amm_pc_mint (rv_amm_keys (fst s))) m1 u64_MAX)) (\<lambda>t1.
         venueS (\<lambda>v. v\<lparr>rv_token_info := [t0, t1]\<rparr>)))
     | _ \<Rightarrow> liftS (Ok ()))))))"

text \<open>The conversion of the answer to an array of five, and what follows it.\<close>

definition raydium_apply_accounts ::
  "'x ext_scheme \<Rightarrow> account option list \<Rightarrow> (raydium_venue \<times> 'c, venue_error, unit) stateful" where
  "raydium_apply_accounts X accounts =
     (case accounts of
       [pool, pc_vault, coin_vault, mint0, mint1] \<Rightarrow>
         bindS (venue_update_state_step_2 X pool pc_vault coin_vault mint0 mint1) (\<lambda>_.
           venueS (\<lambda>v. v\<lparr>rv_found_all_pubkeys := True\<rparr>))
     | _ \<Rightarrow> liftS (Err FailedToFetchMultipleAccountData))"

definition raydium_update_state ::
  "'x ext_scheme \<Rightarrow> ('c \<Rightarrow> pubkey list \<Rightarrow> (account_cache_error, account option list) res \<times> 'c)
    \<Rightarrow> (raydium_venue \<times> 'c, venue_error, unit) stateful" where
  "raydium_update_state X fetch =
     bindS getS (\<lambda>s.
     let keys = state_keys (rv_amm_keys (fst s)) in
     bindS (venueS (\<lambda>v. v\<lparr>rv_required_state_pubkeys := rv_required_state_pubkeys v \<union> set keys\<rparr>)) (\<lambda>_.
     bindS (fetchS fetch keys) (raydium_apply_accounts X)))"

definition raydium_required_pubkeys ::
  "(pubkey set \<Rightarrow> pubkey list) \<Rightarrow> raydium_venue \<Rightarrow> (venue_error, pubkey list) res" where
  "raydium_required_pubkeys iter v =
     (if \<not> rv_found_all_pubkeys v then
        Err (NotInitialized (EStaticStr ''State needs to be fully updated!''))
      else Ok (iter (rv_required_state_pubkeys v)))"

section \<open>Quoting\<close>

definition raydium_direction ::
  "raydium_venue \<Rightarrow> quote_request \<Rightarrow> (venue_error, swap_direction) res" where
  "raydium_direction v request =
     (let keys = rv_amm_keys v in
      if req_input_mint request = amm_pc_mint keys \<and> req_output_mint request = amm_coin_mint keys
      then Ok PC2Coin
      else if req_input_mint request = amm_coin_mint keys \<and> req_output_mint request = amm_pc_mint keys
      then Ok Coin2PC
      else Err (InvalidMint (EPubkey (req_input_mint request))))"

definition raydium_quote :: "raydium_venue \<Rightarrow> quote_request \<Rightarrow> (venue_error, quote_result) res" where
  "raydium_quote v request =
     bindR (ok_or (rv_calculate_result v) (missing_state ''calculate_result'')) (\<lambda>c.
     bindR (raydium_direction v request) (\<lambda>direction.
     if req_amount request = 0 then
       Ok \<lparr>qr_input_mint = req_input_mint request,
           qr_output_mint = req_output_mint request,
           qr_amount = 0,
           qr_expected_output = 0,
           qr_not_enough_liquidity = False,
           qr_price = raydium_price c direction 0\<rparr>
     else
       bindR (swap_with_slippage (rv_pc_balance v) (rv_coin_balance v)
         (cr_pool_pc_vault_amount c) (cr_pool_coin_vault_amount c)
         (cr_swap_fee_numerator c) (cr_swap_fee_denominator c) direction
         (req_amount request) (req_swap_type request = ExactIn) 0) (\<lambda>output_amount.
       Ok \<lparr>qr_input_mint = req_input_mint request,
           qr_output_mint = req_output_mint request,
           qr_amount = req_amount request,
           qr_expected_output = output_amount,
           qr_not_enough_liquidity = False,
           qr_price = raydium_price c direction (req_amount request)\<rparr>)))"

section \<open>Instructions, lookup tables, pool detection\<close>

text \<open>
  The user's token accounts are those of the standard token program. The amount is taken
  from the request whatever its swap type, the minimum output is 0.
\<close>

definition raydium_generate_swap_instruction ::
  "'x ext_scheme \<Rightarrow> raydium_venue \<Rightarrow> quote_request \<Rightarrow> pubkey \<Rightarrow> (venue_error, instruction) res" where
  "raydium_generate_swap_instruction X v request user =
     (let keys = rv_amm_keys v;
          user_coin = ata_with_program X user (amm_coin_mint keys) TOKEN_PROGRAM_ID;
          user_pc = ata_with_program X user (amm_pc_mint keys) TOKEN_PROGRAM_ID;
          (user_source, user_destination) =
            (if req_input_mint request = amm_coin_mint keys then (user_coin, user_pc)
             else (user_pc, user_coin))
      in map_err (\<lambda>_. amm_method_error ''generate swap instruction'')
           (swap_v2 RAYDIUM_AMM_PROGRAM_ID keys user user_source user_destination
             (req_amount request) 0 True))"

text \<open>\<open>token_mint_accounts[0]\<close> and \<open>[1]\<close> panic on a shorter answer.\<close>

definition raydium_lookup_table_keys ::
  "raydium_venue \<Rightarrow> ('c \<Rightarrow> pubkey list \<Rightarrow> (account_cache_error, account option list) res \<times> 'c) option
    \<Rightarrow> 'c \<Rightarrow> (venue_error, pubkey list) res \<times> 'c" where
  "raydium_lookup_table_keys v cache c =
     (let keys = rv_amm_keys v in
      case cache of
        None \<Rightarrow> (Err (SomethingWentWrong ''RPC cache required''), c)
      | Some fetch \<Rightarrow>
          (case fetch c [amm_coin_mint keys, amm_pc_mint keys] of (r, c') \<Rightarrow>
            (bindR (map_err AccountCacheError r) (\<lambda>accounts.
             bindR (unwrap (get accounts 0)) (\<lambda>a0.
             bindR (ok_or a0 (missing_state ''token_mint_accounts[0]'')) (\<lambda>coin_mint_account.
             bindR (unwrap (get accounts 1)) (\<lambda>a1.
             bindR (ok_or a1 (missing_state ''token_mint_accounts[1]'')) (\<lambda>pc_mint_account.
             Ok [amm_coin_mint keys, amm_pc_mint keys, acc_owner coin_mint_account,
                 acc_owner pc_mint_account, amm_pool keys, amm_coin_vault keys,
                 amm_pc_vault keys, RAYDIUM_AMM_PROGRAM_ID]))))), c')))"

definition raydium_creation_of :: "parsed_instruction \<Rightarrow> pool_creation option" where
  "raydium_creation_of ix =
     Option.bind (get (pi_accounts ix) 4) (\<lambda>pool.
     Option.bind (get (pi_accounts ix) 8) (\<lambda>coin_mint.
     Option.bind (get (pi_accounts ix) 9) (\<lambda>pc_mint.
       Some \<lparr>pc_protocol = RaydiumAMM, pc_pool = pool, pc_mints = [coin_mint, pc_mint]\<rparr>)))"

definition raydium_parse_pool_creations :: "parsed_instruction list \<Rightarrow> pool_creation list" where
  "raydium_parse_pool_creations instructions =
     List.map_filter raydium_creation_of
       (filter (\<lambda>ix. get (pi_data ix) 0 = Some 1)
         (filter (\<lambda>ix. pi_program_id ix = RAYDIUM_AMM_PROGRAM_ID) instructions))"

text \<open>
  The venue as a trait object. \<open>tradable_mints\<close> and \<open>decimals\<close> override the trait's
  defaults.
\<close>

definition raydium_trading_venue ::
  "'x ext_scheme \<Rightarrow> (pubkey set \<Rightarrow> pubkey list) \<Rightarrow> raydium_venue \<Rightarrow> trading_venue" where
  "raydium_trading_venue X iter v =
     \<lparr>v_initialized = rv_found_all_pubkeys v,
      v_program_id = RAYDIUM_AMM_PROGRAM_ID,
      v_program_dependencies = [RAYDIUM_AMM_PROGRAM_ID],
      v_market_id = amm_pool (rv_amm_keys v),
      v_get_token_info = rv_token_info v,
      v_protocol = RaydiumAMM,
      v_required_pubkeys = raydium_required_pubkeys iter v,
      v_quote = raydium_quote v,
      v_generate_swap_instruction = raydium_generate_swap_instruction X v\<rparr>"

definition raydium_tradable_mints :: "raydium_venue \<Rightarrow> pubkey list" where
  "raydium_tradable_mints v = [amm_coin_mint (rv_amm_keys v), amm_pc_mint (rv_amm_keys v)]"

definition raydium_decimals :: "raydium_venue \<Rightarrow> (venue_error, nat list) res" where
  "raydium_decimals v =
     bindR (ok_or (get (rv_token_info v) 0)
       (MissingState (EPubkey (amm_coin_mint (rv_amm_keys v))))) (\<lambda>t0.
     bindR (ok_or (get (rv_token_info v) 1)
       (MissingState (EPubkey (amm_pc_mint (rv_amm_keys v))))) (\<lambda>t1.
     Ok [ti_decimals t0, ti_decimals t1]))"

section \<open>Exact-in quotes\<close>

text \<open>A venue whose last update found a pool with reserves on both sides and a sane fee.\<close>

definition raydium_ready :: "raydium_venue \<Rightarrow> bool" where
  "raydium_ready v =
     (case rv_calculate_result v of None \<Rightarrow> False | Some c \<Rightarrow> priced_pool c)"

fun raydium_quote_at ::
  "raydium_venue \<times> pubkey \<times> pubkey \<Rightarrow> u64 \<Rightarrow> (venue_error, quote_result) res" where
  "raydium_quote_at (v, i, out_mint) x = raydium_quote v (exact_in_request i out_mint x)"

abbreviation exact_in_of :: "calculate_result \<Rightarrow> swap_direction \<Rightarrow> u64 \<Rightarrow> (venue_error, u64) res" where
  "exact_in_of c dir x \<equiv>
     swap_exact_amount (cr_pool_pc_vault_amount c) (cr_pool_coin_vault_amount c)
       (cr_swap_fee_numerator c) (cr_swap_fee_denominator c) dir x True"

abbreviation out_reserve_of :: "calculate_result \<Rightarrow> swap_direction \<Rightarrow> nat" where
  "out_reserve_of c dir \<equiv> output_reserve dir (cr_pool_pc_vault_amount c) (cr_pool_coin_vault_amount c)"

abbreviation in_reserve_of :: "calculate_result \<Rightarrow> swap_direction \<Rightarrow> nat" where
  "in_reserve_of c dir \<equiv> input_reserve dir (cr_pool_pc_vault_amount c) (cr_pool_coin_vault_amount c)"

lemma priced_pool_reserves:
  assumes "priced_pool c"
  shows "0 < in_reserve_of c dir" "0 < out_reserve_of c dir"
    "cr_swap_fee_numerator c \<le> cr_swap_fee_denominator c"
  using assms by (cases dir; auto simp: priced_pool_def unat_gt_0 word_le_nat_alt)+

lemma exact_in_of_no_panic:
  assumes "priced_pool c"
  shows "exact_in_of c dir x \<noteq> Panic"
  using priced_pool_reserves(1) [OF assms, of dir] by (simp add: exact_in_eq exact_in_spec_def)

lemma exact_in_of_less:
  assumes "priced_pool c" "exact_in_of c dir x = Ok out"
  shows "unat out < out_reserve_of c dir"
  using curve_out_less [OF priced_pool_reserves(1,2) [OF assms(1), of dir]]
  by (simp add: exact_in_Ok(5) [OF assms(2)])

lemma raydium_quote_exact_in:
  assumes "rv_calculate_result v = Some c" "priced_pool c" "x \<noteq> 0"
  shows "raydium_quote v (exact_in_request i out_mint x) =
    bindR (raydium_direction v (exact_in_request i out_mint x)) (\<lambda>dir.
      if 2 ^ 64 \<le> input_reserve dir (rv_pc_balance v) (rv_coin_balance v) + unat x
      then Err (math_error ''Amount exceeds possible threshold'')
      else bindR (exact_in_of c dir x) (\<lambda>out.
        Ok \<lparr>qr_input_mint = i, qr_output_mint = out_mint, qr_amount = x,
            qr_expected_output = out, qr_not_enough_liquidity = False,
            qr_price = raydium_price c dir x\<rparr>))"
proof -
  have "\<not> out_reserve_of c dir \<le> unat out" if "exact_in_of c dir x = Ok out" for dir out
    using exact_in_of_less [OF assms(2) that] by simp
  then show ?thesis
    using assms by (auto simp: raydium_quote_def exact_in_request_def swap_with_slippage_exact_in
        bindR_def split: sum.splits)
qed

lemma raydium_valid_at_iff:
  assumes "rv_calculate_result v = Some c" "priced_pool c"
  shows "valid_at (raydium_quote_at (v, i, out_mint)) x \<longleftrightarrow>
    x \<noteq> 0 \<and> (\<exists>dir out. raydium_direction v (exact_in_request i out_mint 0) = Ok dir \<and>
      input_reserve dir (rv_pc_balance v) (rv_coin_balance v) + unat x < 2 ^ 64 \<and>
      exact_in_of c dir x = Ok out \<and> out \<noteq> 0)"
proof (cases "x = 0")
  case True
  then show ?thesis
    by (auto simp: valid_at_eq_Inr raydium_quote_def assms(1) exact_in_request_def valid_quote_def res_inv)
next
  case False
  have "raydium_direction v (exact_in_request i out_mint x) =
      raydium_direction v (exact_in_request i out_mint 0)"
    by (simp add: raydium_direction_def exact_in_request_def Let_def)
  then show ?thesis using False
    by (auto simp: valid_at_def raydium_quote_exact_in [OF assms False] valid_quote_def bindR_def
        split: sum.splits)
qed

interpretation raydium: convex_quoter raydium_quote_at "\<lambda>(v, _). raydium_ready v"
proof
  fix s :: "raydium_venue \<times> pubkey \<times> pubkey" and x y z :: u64
  assume "case s of (v, _) \<Rightarrow> raydium_ready v"
  then obtain v i out_mint c where s: "s = (v, i, out_mint)" and c: "rv_calculate_result v = Some c"
    "priced_pool c"
    by (cases s) (auto simp: raydium_ready_def split: option.splits)
  show "raydium_quote_at s x \<noteq> Panic"
  proof (cases "x = 0")
    case True
    then show ?thesis
      by (simp add: s raydium_quote_def c exact_in_request_def raydium_direction_def Let_def)
  next
    case False
    then show ?thesis using exact_in_of_no_panic [OF c(2)]
      by (auto simp: s raydium_quote_exact_in [OF c False] bindR_eq_Inl raydium_direction_def Let_def)
  qed
  assume x: "valid_at (raydium_quote_at s) x" and z: "valid_at (raydium_quote_at s) z"
    and xyz: "x \<le> y" "y \<le> z"
  obtain dir out where x': "x \<noteq> 0" "raydium_direction v (exact_in_request i out_mint 0) = Ok dir"
    "exact_in_of c dir x = Ok out" "out \<noteq> 0"
    using x unfolding s raydium_valid_at_iff [OF c] by auto
  then obtain out' where y': "exact_in_of c dir y = Ok out'" "out \<le> out'"
    using exact_in_larger [OF x'(3) priced_pool_reserves(3) [OF c(2)] xyz(1)] by blast
  have "input_reserve dir (rv_pc_balance v) (rv_coin_balance v) + unat z < 2 ^ 64"
    using z x'(2) unfolding s raydium_valid_at_iff [OF c] by auto
  then have "input_reserve dir (rv_pc_balance v) (rv_coin_balance v) + unat y < 2 ^ 64"
    using xyz(2) by (simp add: word_le_nat_alt)
  moreover have "y \<noteq> 0" "out' \<noteq> 0" using x' xyz(1) y'(2) by auto
  ultimately show "valid_at (raydium_quote_at s) y"
    unfolding s raydium_valid_at_iff [OF c] using x'(2) y'(1) by blast
qed

section \<open>Properties of the quotes\<close>

abbreviation raydium_token_at :: "raydium_venue \<Rightarrow> u8 \<Rightarrow> pubkey" where
  "raydium_token_at v i \<equiv> ti_pubkey (rv_token_info v ! unat i)"

lemma raydium_bounds_eq:
  "bounds (raydium_trading_venue X iter v) i j =
    (if unat i < length (rv_token_info v) then
       if unat j < length (rv_token_info v) then
         find_boundaries (raydium_quote_at (v, raydium_token_at v i, raydium_token_at v j))
       else Err (TokenInfoIndexError (unat j))
     else Err (TokenInfoIndexError (unat i)))"
proof -
  have "raydium_quote_at (v, a, b) = (\<lambda>x. raydium_quote v
      \<lparr>req_input_mint = a, req_output_mint = b, req_amount = x, req_swap_type = ExactIn\<rparr>)" for a b
    by (rule ext) (simp add: exact_in_request_def)
  then show ?thesis
    by (simp add: bounds_def get_token_def get_def raydium_trading_venue_def)
qed

text \<open>
  C33: the bounds of a ready Raydium venue are a range of quotable amounts that misses at
  most 100 atoms at either end: every amount in it has a usable exact-in quote, and every
  amount with a usable quote is in it up to 100 atoms.
\<close>

theorem raydium_bounds_cover:
  assumes "raydium_ready v" "bounds (raydium_trading_venue X iter v) i j = Ok (l, u)"
  shows "let ok = (\<lambda>x. \<exists>q. raydium_quote v
             (exact_in_request (raydium_token_at v i) (raydium_token_at v j) x) = Ok q \<and>
             qr_expected_output q \<noteq> 0 \<and> \<not> qr_not_enough_liquidity q)
         in l \<le> u \<and> (\<forall>x. l \<le> x \<and> x \<le> u \<longrightarrow> ok x) \<and>
            (\<forall>x. ok x \<longrightarrow> unat l \<le> unat x + 100 \<and> unat x \<le> unat u + 100)"
proof -
  let ?s = "(v, raydium_token_at v i, raydium_token_at v j)"
  have f: "find_boundaries (raydium_quote_at ?s) = Ok (l, u)" and wf: "case ?s of (v, _) \<Rightarrow> raydium_ready v"
    using assms by (auto simp: raydium_bounds_eq split: if_splits)
  have "(\<exists>q. raydium_quote v (exact_in_request (raydium_token_at v i) (raydium_token_at v j) x) = Ok q \<and>
      qr_expected_output q \<noteq> 0 \<and> \<not> qr_not_enough_liquidity q) \<longleftrightarrow> valid_at (raydium_quote_at ?s) x" for x
    by (auto simp: valid_at_eq_Inr valid_quote_def)
  then show ?thesis
    using raydium.search_covers [OF wf f] raydium.search_ends(1) [OF wf f] by (simp add: Let_def)
qed

definition sample_venue :: raydium_venue where
  "sample_venue =
     \<lparr>rv_amm_keys = \<lparr>amm_pool = 1, amm_coin_mint = 2, amm_pc_mint = 3, amm_authority = 4,
        amm_target = 5, amm_coin_vault = 6, amm_pc_vault = 7, amm_lp_mint = 8, amm_nonce = 9\<rparr>,
      rv_calculate_result = Some sample_pool,
      rv_pc_balance = 5000000000000, rv_coin_balance = 30000000000000,
      rv_required_state_pubkeys = {1, 2, 3, 6, 7}, rv_found_all_pubkeys = True,
      rv_token_info =
        [\<lparr>ti_pubkey = 2, ti_decimals = 9, is_token_2022 = False, transfer_fee = None, maximum_fee = None\<rparr>,
         \<lparr>ti_pubkey = 3, ti_decimals = 6, is_token_2022 = False, transfer_fee = None, maximum_fee = None\<rparr>]\<rparr>"

lemma sample_venue_ready: "raydium_ready sample_venue"
  by (simp add: raydium_ready_def sample_venue_def priced_pool_def sample_pool_def)

lemma sample_venue_valid: "valid_at (raydium_quote_at (sample_venue, 2, 3)) (2 ^ 20)"
proof -
  have c: "rv_calculate_result sample_venue = Some sample_pool" "priced_pool sample_pool"
    by (simp_all add: sample_venue_def priced_pool_def sample_pool_def)
  have "exact_in_of sample_pool Coin2PC (2 ^ 20) = Ok 174325"
    by (simp add: exact_in_eq exact_in_spec_def net_in_def curve_out_def ceil_div_def sample_pool_def)
  moreover have "raydium_direction sample_venue (exact_in_request 2 3 0) = Ok Coin2PC"
    by (simp add: raydium_direction_def sample_venue_def exact_in_request_def)
  moreover have "input_reserve Coin2PC (rv_pc_balance sample_venue) (rv_coin_balance sample_venue)
      + unat (2 ^ 20 :: u64) < 2 ^ 64"
    by (simp add: sample_venue_def)
  moreover have "(2 ^ 20 :: u64) \<noteq> 0" "(174325 :: u64) \<noteq> 0" by simp_all
  ultimately show ?thesis unfolding raydium_valid_at_iff [OF c] by blast
qed

lemma sample_venue_bounds:
  "\<exists>l u. bounds (raydium_trading_venue X iter sample_venue) 0 1 = Ok (l, u)"
proof -
  have "\<exists>k<64. valid_at (raydium_quote_at (sample_venue, 2, 3)) (2 ^ k)"
    using sample_venue_valid by (intro exI [of _ 20]) simp
  then have "\<exists>r. find_boundaries (raydium_quote_at (sample_venue, 2, 3)) = Ok r"
    using sample_venue_ready raydium.search_ok_iff [of "(sample_venue, 2, 3)"] by simp
  moreover have "rv_token_info sample_venue ! 0 = hd (rv_token_info sample_venue)"
    "raydium_token_at sample_venue 0 = 2" "raydium_token_at sample_venue 1 = 3"
    "length (rv_token_info sample_venue) = 2"
    by (simp_all add: sample_venue_def)
  ultimately show ?thesis by (simp add: raydium_bounds_eq)
qed

theorem raydium_bounds_cover_witness:
  "\<exists>l u. bounds (raydium_trading_venue (undefined :: ext) undefined sample_venue) 0 1 = Ok (l, u) \<and> l \<le> u"
proof -
  obtain l u where "bounds (raydium_trading_venue (undefined :: ext) undefined sample_venue) 0 1 = Ok (l, u)"
    using sample_venue_bounds by blast
  with raydium_bounds_cover [OF sample_venue_ready this] show ?thesis by (auto simp: Let_def)
qed

text \<open>
  C31: a ready venue never panics on an exact-in request, of any amount and any pair of
  mints, nor in its boundary search over any pair of token indices.
\<close>

theorem raydium_exact_in_no_panic:
  assumes "raydium_ready v"
  shows "raydium_quote v (exact_in_request i out_mint x) \<noteq> Panic \<and>
    bounds (raydium_trading_venue X iter v) a b \<noteq> Panic"
  using raydium.quote_no_panic [of "(v, i, out_mint)" x]
    raydium.search_no_panic [of "(v, raydium_token_at v a, raydium_token_at v b)"] assms
  by (simp add: raydium_bounds_eq)

theorem raydium_exact_in_no_panic_witness:
  "raydium_quote sample_venue (exact_in_request 3 2 u64_MAX) \<noteq> Panic"
  using raydium_exact_in_no_panic [OF sample_venue_ready] by blast

text \<open>
  An exact-out request for at least the whole output reserve panics, although the
  venue is ready and the request is for its own mints.
\<close>

theorem raydium_exact_out_panics:
  assumes "rv_calculate_result v = Some c" "raydium_direction v r = Ok dir"
    and "req_swap_type r = ExactOut" "req_amount r \<noteq> 0"
    and "out_reserve_of c dir \<le> unat (req_amount r)"
    and "input_reserve dir (rv_pc_balance v) (rv_coin_balance v) + unat (req_amount r) < 2 ^ 64"
  shows "raydium_quote v r = Panic"
  using assms
  by (cases dir) (simp_all add: raydium_quote_def swap_with_slippage_def exact_out_eq
      exact_out_spec_def checked_add_def)

theorem raydium_exact_out_panics_witness:
  "raydium_quote sample_venue
    \<lparr>req_input_mint = 2, req_output_mint = 3, req_amount = 5000000000000, req_swap_type = ExactOut\<rparr> = Panic"
  by (rule raydium_exact_out_panics [of _ sample_pool _ Coin2PC])
    (simp_all add: sample_venue_def sample_pool_def raydium_direction_def)
section \<open>Properties of the update\<close>

lemma step_2_keeps:
  assumes "\<And>v b. P v \<Longrightarrow> P (v\<lparr>rv_pc_balance := b\<rparr>)" "\<And>v b. P v \<Longrightarrow> P (v\<lparr>rv_coin_balance := b\<rparr>)"
    and "\<And>v b. P v \<Longrightarrow> P (v\<lparr>rv_calculate_result := b\<rparr>)" "\<And>v b. P v \<Longrightarrow> P (v\<lparr>rv_token_info := b\<rparr>)"
  shows "keeps (\<lambda>s. P (fst s)) (venue_update_state_step_2 X pool pc coin m0 m1)"
  unfolding venue_update_state_step_2_def
  by (auto split: option.splits intro!: keeps_intros assms)

lemma calculate_Ok:
  assumes "calculate_pool_vault_amounts_from_accounts X pool pc coin = Ok r"
  obtains pool_acc pc_acc coin_acc amm pc_amount coin_amount status where
    "pool = Some pool_acc" "pc = Some pc_acc" "coin = Some coin_acc"
    "transmute_amm_info (acc_data pool_acc) = Some amm"
    "token_amount_unpack_checked X (acc_data pc_acc) = Some pc_amount"
    "token_amount_unpack_checked X (acc_data coin_acc) = Some coin_amount"
    "status_from_u64 (ai_status amm) = (Ok status :: (venue_error, _) res)" "\<not> orderbook_permission status"
    "sd_need_take_pnl_pc (ai_state_data amm) \<le> pc_amount"
    "sd_need_take_pnl_coin (ai_state_data amm) \<le> coin_amount"
    "r = \<lparr>cr_pool_pc_vault_amount = pc_amount - sd_need_take_pnl_pc (ai_state_data amm),
          cr_pool_coin_vault_amount = coin_amount - sd_need_take_pnl_coin (ai_state_data amm),
          cr_pool_lp_amount = ai_lp_amount amm,
          cr_swap_fee_numerator = fs_swap_fee_numerator (ai_fees amm),
          cr_swap_fee_denominator = fs_swap_fee_denominator (ai_fees amm)\<rparr>"
  using assms
  by (auto simp: calculate_pool_vault_amounts_from_accounts_def res_inv checked_sub_eq_Some
      calc_total_without_take_pnl_no_orderbook_def split: if_splits)

lemma step_2_Ok:
  assumes "venue_update_state_step_2 X pool pc coin m0 m1 (v, c) = (Ok u, (v', c'))"
  shows "c' = c" "rv_amm_keys v' = rv_amm_keys v"
    "rv_required_state_pubkeys v' = rv_required_state_pubkeys v"
    "\<exists>pool_acc pc_acc coin_acc r. pool = Some pool_acc \<and> pc = Some pc_acc \<and> coin = Some coin_acc \<and>
      vault_balance pc_acc = Ok (rv_pc_balance v') \<and> vault_balance coin_acc = Ok (rv_coin_balance v') \<and>
      calculate_pool_vault_amounts_from_accounts X pool pc coin = Ok r \<and>
      rv_calculate_result v' = Some r"
    "m0 \<noteq> None \<Longrightarrow> m1 \<noteq> None \<Longrightarrow>
      map ti_pubkey (rv_token_info v') = [amm_coin_mint (rv_amm_keys v), amm_pc_mint (rv_amm_keys v)]"
proof -
  from assms obtain r where r: "calculate_pool_vault_amounts_from_accounts X pool pc coin = Ok r"
    unfolding venue_update_state_step_2_def bindS_eq_Inr liftS_eq_Inr map_err_eq_Inr by blast
  obtain pool_acc pc_acc coin_acc where some: "pool = Some pool_acc" "pc = Some pc_acc" "coin = Some coin_acc"
    using r by (rule calculate_Ok)
  from assms obtain b b' where b: "vault_balance pc_acc = Ok b" "vault_balance coin_acc = Ok b'"
    and v': "(case (m0, m1) of
       (Some m0, Some m1) \<Rightarrow>
         bindS (liftS (token_info_new X (amm_coin_mint (rv_amm_keys v)) m0 u64_MAX)) (\<lambda>t0.
         bindS (liftS (token_info_new X (amm_pc_mint (rv_amm_keys v)) m1 u64_MAX)) (\<lambda>t1.
         venueS (\<lambda>v. v\<lparr>rv_token_info := [t0, t1]\<rparr>)))
     | _ \<Rightarrow> liftS (Ok ()))
      (v\<lparr>rv_pc_balance := b, rv_coin_balance := b', rv_calculate_result := Some r\<rparr>, c) = (Ok u, (v', c'))"
    using r by (auto simp: venue_update_state_step_2_def some res_inv cong: option.case_cong)
  show "c' = c" "rv_amm_keys v' = rv_amm_keys v"
    "rv_required_state_pubkeys v' = rv_required_state_pubkeys v"
    using v' by (auto simp: res_inv split: option.splits)
  have "rv_pc_balance v' = b" "rv_coin_balance v' = b'" "rv_calculate_result v' = Some r"
    using v' by (auto simp: res_inv split: option.splits)
  then show "\<exists>pool_acc pc_acc coin_acc r. pool = Some pool_acc \<and> pc = Some pc_acc \<and> coin = Some coin_acc \<and>
      vault_balance pc_acc = Ok (rv_pc_balance v') \<and> vault_balance coin_acc = Ok (rv_coin_balance v') \<and>
      calculate_pool_vault_amounts_from_accounts X pool pc coin = Ok r \<and>
      rv_calculate_result v' = Some r"
    using some b r by blast
  show "map ti_pubkey (rv_token_info v') = [amm_coin_mint (rv_amm_keys v), amm_pc_mint (rv_amm_keys v)]"
    if "m0 \<noteq> None" "m1 \<noteq> None"
    using v' that by (auto simp: res_inv token_info_new_def split: option.splits prod.splits)
qed

context accounts_cache
begin

lemma raydium_update_Ok:
  assumes "wf c" "raydium_update_state X fetch (v, c) = (Ok u, (v', c'))"
  shows "\<exists>pool pc coin m0 m1 r. fetch c (state_keys (rv_amm_keys v)) = (Ok [Some pool, Some pc, Some coin, m0, m1], c') \<and>
    rv_amm_keys v' = rv_amm_keys v \<and> rv_found_all_pubkeys v' \<and>
    set (state_keys (rv_amm_keys v)) \<subseteq> rv_required_state_pubkeys v' \<and>
    vault_balance pc = Ok (rv_pc_balance v') \<and> vault_balance coin = Ok (rv_coin_balance v') \<and>
    calculate_pool_vault_amounts_from_accounts X (Some pool) (Some pc) (Some coin) = Ok r \<and>
    rv_calculate_result v' = Some r"
proof -
  let ?v = "v\<lparr>rv_required_state_pubkeys := rv_required_state_pubkeys v \<union> set (state_keys (rv_amm_keys v))\<rparr>"
  obtain xs c1 where xs: "fetch c (state_keys (rv_amm_keys v)) = (Ok xs, c1)"
    and rest: "raydium_apply_accounts X xs (?v, c1) = (Ok u, (v', c'))"
    using assms(2) by (auto simp: raydium_update_state_def Let_def res_inv)
  obtain pool pc coin m0 m1 where five: "xs = [pool, pc, coin, m0, m1]"
    using fetch_five [OF assms(1)] xs unfolding state_keys_def by metis
  obtain w where w: "venue_update_state_step_2 X pool pc coin m0 m1 (?v, c1) = (Ok (), (w, c'))"
    and v': "v' = w\<lparr>rv_found_all_pubkeys := True\<rparr>"
    using rest unfolding five by (auto simp: raydium_apply_accounts_def res_inv)
  from step_2_Ok(1-4) [OF w] xs five v' show ?thesis by auto
qed


end

lemma step_2_frame:
  "rv_amm_keys (fst (snd (venue_update_state_step_2 X pool pc coin m0 m1 s))) = rv_amm_keys (fst s)"
  "rv_found_all_pubkeys (fst (snd (venue_update_state_step_2 X pool pc coin m0 m1 s))) =
    rv_found_all_pubkeys (fst s)"
proof -
  let ?P = "\<lambda>v. rv_amm_keys v = rv_amm_keys (fst s) \<and> rv_found_all_pubkeys v = rv_found_all_pubkeys (fst s)"
  have "keeps (\<lambda>s. ?P (fst s)) (venue_update_state_step_2 X pool pc coin m0 m1)"
    by (rule step_2_keeps) simp_all
  then have "?P (fst (snd (venue_update_state_step_2 X pool pc coin m0 m1 s)))"
    unfolding keeps_def by blast
  then show "rv_amm_keys (fst (snd (venue_update_state_step_2 X pool pc coin m0 m1 s))) = rv_amm_keys (fst s)"
    "rv_found_all_pubkeys (fst (snd (venue_update_state_step_2 X pool pc coin m0 m1 s))) =
      rv_found_all_pubkeys (fst s)" by simp_all
qed

lemma apply_accounts_frame:
  assumes "raydium_apply_accounts X xs (v, c) = (r, (v', c'))"
  shows "rv_amm_keys v' = rv_amm_keys v" "\<not> is_ok r \<Longrightarrow> rv_found_all_pubkeys v' = rv_found_all_pubkeys v"
proof -
  have "rv_amm_keys v' = rv_amm_keys v \<and> (\<not> is_ok r \<longrightarrow> rv_found_all_pubkeys v' = rv_found_all_pubkeys v)"
  proof (cases "\<exists>a1 a2 a3 a4 a5. xs = [a1, a2, a3, a4, a5]")
    case True
    then obtain a1 a2 a3 a4 a5 where xs: "xs = [a1, a2, a3, a4, a5]" by blast
    obtain q w d where q: "venue_update_state_step_2 X a1 a2 a3 a4 a5 (v, c) = (q, (w, d))"
      by (metis prod.exhaust)
    show ?thesis
      using assms step_2_frame [of X a1 a2 a3 a4 a5 "(v, c)"] unfolding raydium_apply_accounts_def xs
      by (cases q) (auto simp: q venueS_def modifyS_def is_ok_def)
  next
    case False
    then show ?thesis
      using assms by (auto simp: raydium_apply_accounts_def liftS_def split: list.splits)
  qed
  then show "rv_amm_keys v' = rv_amm_keys v" "\<not> is_ok r \<Longrightarrow> rv_found_all_pubkeys v' = rv_found_all_pubkeys v"
    by blast+
qed

lemma raydium_update_frame:
  assumes "raydium_update_state X fetch (v, c) = (r, (v', c'))"
  shows "rv_amm_keys v' = rv_amm_keys v \<and> (\<not> is_ok r \<longrightarrow> rv_found_all_pubkeys v' = rv_found_all_pubkeys v)"
proof -
  let ?v = "v\<lparr>rv_required_state_pubkeys := rv_required_state_pubkeys v \<union> set (state_keys (rv_amm_keys v))\<rparr>"
  obtain q c1 where q: "fetch c (state_keys (rv_amm_keys v)) = (q, c1)" by fastforce
  have eq: "raydium_update_state X fetch (v, c) =
      (case map_err AccountCacheError q of Inl x \<Rightarrow> (Inl x, (?v, c1))
       | Inr xs \<Rightarrow> raydium_apply_accounts X xs (?v, c1))"
    by (cases "map_err AccountCacheError q")
      (simp_all add: raydium_update_state_def Let_def fetchS_def q)
  show ?thesis
  proof (cases "map_err AccountCacheError q")
    case (Inl x)
    then show ?thesis using assms by (auto simp: eq)
  next
    case (Inr xs)
    then have "raydium_apply_accounts X xs (?v, c1) = (r, (v', c'))" using assms by (simp add: eq)
    from apply_accounts_frame [OF this] show ?thesis by simp
  qed
qed

lemma vault_balance_eq: "vault_balance a = Ok b \<Longrightarrow> b = u64_at (acc_data a) 64"
  by (auto simp: vault_balance_def res_inv get_range_def u64_at_def slice_def split: if_splits)

text \<open>
  Reading inside a slice is reading the whole at the shifted offset, so the nested structs of
  the packed layout have absolute offsets in the account.
\<close>

lemma u64_at_slice: "i + 8 \<le> n \<Longrightarrow> u64_at (slice j n bs) i = u64_at bs (j + i)"
  by (simp add: u64_at_def slice_def drop_take take_take add.commute min_absorb1)

lemma amm_info_at:
  assumes "transmute_amm_info data = Some info"
  shows "fs_swap_fee_numerator (ai_fees info) = u64_at data 176"
    "fs_swap_fee_denominator (ai_fees info) = u64_at data 184"
    "sd_need_take_pnl_coin (ai_state_data info) = u64_at data 192"
    "sd_need_take_pnl_pc (ai_state_data info) = u64_at data 200"
    "ai_lp_amount info = u64_at data 720"
proof -
  have info: "info = amm_info_of_bytes data"
    using assms by (auto simp: transmute_amm_info_def split: if_splits)
  show "fs_swap_fee_numerator (ai_fees info) = u64_at data 176"
    "fs_swap_fee_denominator (ai_fees info) = u64_at data 184"
    "sd_need_take_pnl_coin (ai_state_data info) = u64_at data 192"
    "sd_need_take_pnl_pc (ai_state_data info) = u64_at data 200"
    "ai_lp_amount info = u64_at data 720"
    by (simp_all add: info amm_info_of_bytes_def fees_at_def state_data_at_def u64_at_slice Let_def)
qed

text \<open>
  C11: a successful update over the RPC cache leaves an initialized venue for the same pool,
  every number of which comes from one answer of the cache to the keys of the pool. The two
  balances are the amounts of the pc vault and of the coin vault (bytes 64 to 71 of the two
  token accounts); the reserves are these less the profit the pool still owes its operator in
  the same token (bytes 200 and 192 of the pool), which neither balance falls short of; the fee
  is the swap fee of the pool (bytes 176 and 184) and the supply its LP amount (byte 720). (The
  token program's reader returns the amount at bytes 64 to 71 of the account, its documented
  layout.)
\<close>

theorem raydium_update_consistent:
  assumes layout: "\<And>d a. token_amount_unpack_checked X d = Some a \<Longrightarrow> a = u64_at d 64"
    and wf: "rpc_wf c"
    and ok: "raydium_update_state X get_accounts (v, c) = (Ok u, (v', c'))"
  shows "\<exists>pool pc coin.
    get_multiple c' [amm_pool (rv_amm_keys v), amm_pc_vault (rv_amm_keys v), amm_coin_vault (rv_amm_keys v)] =
      [Some pool, Some pc, Some coin] \<and> length (acc_data pool) = AMM_INFO_SIZE \<and>
    rv_amm_keys v' = rv_amm_keys v \<and> rv_found_all_pubkeys v' \<and>
    rv_pc_balance v' = u64_at (acc_data pc) 64 \<and> rv_coin_balance v' = u64_at (acc_data coin) 64 \<and>
    u64_at (acc_data pool) 200 \<le> rv_pc_balance v' \<and> u64_at (acc_data pool) 192 \<le> rv_coin_balance v' \<and>
    rv_calculate_result v' = Some
      \<lparr>cr_pool_pc_vault_amount = rv_pc_balance v' - u64_at (acc_data pool) 200,
       cr_pool_coin_vault_amount = rv_coin_balance v' - u64_at (acc_data pool) 192,
       cr_pool_lp_amount = u64_at (acc_data pool) 720,
       cr_swap_fee_numerator = u64_at (acc_data pool) 176,
       cr_swap_fee_denominator = u64_at (acc_data pool) 184\<rparr>"
proof -
  obtain pool pc coin m0 m1 r where
    xs: "get_accounts c (state_keys (rv_amm_keys v)) = (Ok [Some pool, Some pc, Some coin, m0, m1], c')"
    and v': "rv_amm_keys v' = rv_amm_keys v" "rv_found_all_pubkeys v'" "rv_calculate_result v' = Some r"
    and b: "vault_balance pc = Ok (rv_pc_balance v')" "vault_balance coin = Ok (rv_coin_balance v')"
    and r: "calculate_pool_vault_amounts_from_accounts X (Some pool) (Some pc) (Some coin) = Ok r"
    using rpc_cache.raydium_update_Ok [OF wf ok] by blast
  obtain pool' pc' coin' info pc_amount coin_amount where
    same: "Some pool = Some pool'" "Some pc = Some pc'" "Some coin = Some coin'"
    and info: "transmute_amm_info (acc_data pool') = Some info"
    and amounts: "token_amount_unpack_checked X (acc_data pc') = Some pc_amount"
      "token_amount_unpack_checked X (acc_data coin') = Some coin_amount"
      "sd_need_take_pnl_pc (ai_state_data info) \<le> pc_amount"
      "sd_need_take_pnl_coin (ai_state_data info) \<le> coin_amount"
    and req: "r = \<lparr>cr_pool_pc_vault_amount = pc_amount - sd_need_take_pnl_pc (ai_state_data info),
          cr_pool_coin_vault_amount = coin_amount - sd_need_take_pnl_coin (ai_state_data info),
          cr_pool_lp_amount = ai_lp_amount info,
          cr_swap_fee_numerator = fs_swap_fee_numerator (ai_fees info),
          cr_swap_fee_denominator = fs_swap_fee_denominator (ai_fees info)\<rparr>"
    using r by (rule calculate_Ok)
  have "pc_amount = rv_pc_balance v'" "coin_amount = rv_coin_balance v'"
    using layout [OF amounts(1)] layout [OF amounts(2)] vault_balance_eq [OF b(1)] vault_balance_eq [OF b(2)]
      same by simp_all
  moreover have "get_multiple c'
      [amm_pool (rv_amm_keys v), amm_pc_vault (rv_amm_keys v), amm_coin_vault (rv_amm_keys v)] =
      [Some pool, Some pc, Some coin]"
    using get_accounts_Ok(1) [OF wf xs] by (simp add: get_multiple_def state_keys_def)
  moreover have "length (acc_data pool) = AMM_INFO_SIZE"
    using info same by (simp add: transmute_amm_info_def split: if_splits)
  ultimately show ?thesis
    using v' vault_balance_eq [OF b(1)] vault_balance_eq [OF b(2)] amounts(3,4) req same amm_info_at [OF info]
    by auto
qed

definition sample_vault :: "u64 \<Rightarrow> account" where
  "sample_vault amount = \<lparr>lamports = 1, acc_data = replicate 64 0 @ to_le_bytes amount @ replicate 93 0,
     acc_owner = TOKEN_PROGRAM_ID, executable = False\<rparr>"

definition sample_pool_account :: account where
  "sample_pool_account = \<lparr>lamports = 1, acc_data = to_le_bytes (6 :: u64) @ replicate 168 0 @ to_le_bytes (25 :: u64) @ to_le_bytes (10000 :: u64) @
       to_le_bytes (100 :: u64) @ to_le_bytes (300 :: u64) @ replicate 544 0,
     acc_owner = RAYDIUM_AMM_PROGRAM_ID, executable = False\<rparr>"

definition sample_chain :: rpc_client where
  "sample_chain =
     (let look = (\<lambda>k. if k = 1 then Some sample_pool_account
                     else if k = 7 then Some (sample_vault 1000)
                     else if k = 6 then Some (sample_vault 2000) else None)
      in \<lparr>rpc_get_account = (\<lambda>k. case look k of None \<Rightarrow> Inl ''not found'' | Some a \<Rightarrow> Inr a),
          rpc_get_multiple_accounts = (\<lambda>ks. Inr (map look ks))\<rparr>)"

definition sample_ext :: ext where
  "sample_ext =
     \<lparr>find_pda = (\<lambda>_ _. 0), create_pda = (\<lambda>_ _. Some 0), ata_with_program = (\<lambda>_ _ _. 0), hashv = concat,
      mint_unpack = (\<lambda>_. None), mint_supply_unpack = (\<lambda>d. Inr (u64_at d 36)),
      token_amount_unpack = (\<lambda>d. Inr (u64_at d 64)),
      token_amount_unpack_checked = (\<lambda>d. if length d = 165 then Some (u64_at d 64) else None)\<rparr>"

lemma le_nat_replicate [simp]: "le_nat (replicate n 0) = 0"
  by (induction n) auto

lemma slice_replicate [simp]: "slice i n (replicate m x) = replicate (min n (m - i)) x"
  by (simp add: slice_def)

lemma from_le_bytes_replicate [simp]: "from_le_bytes (replicate n 0) = 0"
  by (simp add: from_le_bytes_def)

lemma u64_at_replicate [simp]: "u64_at (replicate m 0) i = 0"
  by (simp add: u64_at_def)

lemma sample_vault_balance: "u64_at (acc_data (sample_vault amount)) 64 = amount"
  by (simp add: sample_vault_def u64_at_def byte_simps)

lemma sample_pool_numbers:
  "u64_at (acc_data sample_pool_account) 0 = 6" "u64_at (acc_data sample_pool_account) 176 = 25"
  "u64_at (acc_data sample_pool_account) 184 = 10000" "u64_at (acc_data sample_pool_account) 192 = 100"
  "u64_at (acc_data sample_pool_account) 200 = 300" "u64_at (acc_data sample_pool_account) 720 = 0"
  by (simp_all add: sample_pool_account_def u64_at_def byte_simps)

lemma sample_update_ok:
  "\<exists>v' c'. raydium_update_state sample_ext get_accounts (sample_venue, rpc_client_cache_new sample_chain) =
      (Ok (), (v', c')) \<and>
    get_multiple c' [1, 7, 6] = [Some sample_pool_account, Some (sample_vault 1000), Some (sample_vault 2000)]"
proof -
  let ?c = "rpc_client_cache_new sample_chain"
  have wf: "rpc_wf ?c"
    by (auto simp: rpc_wf_def rpc_client_cache_new_def sample_chain_def Let_def)
  have keys: "state_keys (rv_amm_keys sample_venue) = [1, 7, 6, 2, 3]"
    by (simp add: state_keys_def sample_venue_def)
  have fetch: "fst (get_accounts ?c [1, 7, 6, 2, 3]) =
      Ok [Some sample_pool_account, Some (sample_vault 1000), Some (sample_vault 2000), None, None]"
    unfolding get_accounts_eq [OF wf]
    by (simp add: to_fetch_def rpc_client_cache_new_def sample_chain_def)
  then obtain c' where fetch': "get_accounts ?c [1, 7, 6, 2, 3] =
      (Ok [Some sample_pool_account, Some (sample_vault 1000), Some (sample_vault 2000), None, None], c')"
    by (metis fst_conv prod.exhaust)
  have len: "length (acc_data sample_pool_account) = AMM_INFO_SIZE" "length (acc_data (sample_vault n)) = 165" for n
    by (simp_all add: sample_pool_account_def AMM_INFO_SIZE_def sample_vault_def)
  have info: "transmute_amm_info (acc_data sample_pool_account) = Some (amm_info_of_bytes (acc_data sample_pool_account))"
    by (simp add: transmute_amm_info_def len)
  have status: "ai_status (amm_info_of_bytes (acc_data sample_pool_account)) = 6"
    by (simp add: amm_info_of_bytes_def sample_pool_numbers)
  have "\<exists>r. calculate_pool_vault_amounts_from_accounts sample_ext (Some sample_pool_account)
      (Some (sample_vault 1000)) (Some (sample_vault 2000)) = Ok r"
    by (simp add: calculate_pool_vault_amounts_from_accounts_def info amm_info_at [OF info] len sample_ext_def
        sample_vault_balance sample_pool_numbers status_from_u64_def status
        calc_total_without_take_pnl_no_orderbook_def checked_sub_def word_le_nat_alt)
  moreover have "\<exists>b. vault_balance (sample_vault 1000) = Ok b" "\<exists>b. vault_balance (sample_vault 2000) = Ok b"
    by (simp_all add: vault_balance_def get_range_def len)
  moreover have "get_multiple c' [1, 7, 6] =
      [Some sample_pool_account, Some (sample_vault 1000), Some (sample_vault 2000)]"
    using get_accounts_Ok(1) [OF wf fetch'] by (simp add: get_multiple_def)
  ultimately show ?thesis
    by (auto simp: raydium_update_state_def keys Let_def fetchS_def fetch' raydium_apply_accounts_def
        venue_update_state_step_2_def bindS_def liftS_def venueS_def modifyS_def getS_def)
qed

theorem raydium_update_consistent_witness:
  "\<exists>v' c'. raydium_update_state sample_ext get_accounts (sample_venue, rpc_client_cache_new sample_chain) =
      (Ok (), (v', c')) \<and>
    rv_found_all_pubkeys v' \<and> rv_pc_balance v' = 1000 \<and> rv_coin_balance v' = 2000 \<and>
    rv_calculate_result v' = Some
      \<lparr>cr_pool_pc_vault_amount = 700, cr_pool_coin_vault_amount = 1900, cr_pool_lp_amount = 0,
       cr_swap_fee_numerator = 25, cr_swap_fee_denominator = 10000\<rparr>"
proof -
  have wf: "rpc_wf (rpc_client_cache_new sample_chain)"
    by (auto simp: rpc_wf_def rpc_client_cache_new_def sample_chain_def Let_def)
  have layout: "\<And>d a. token_amount_unpack_checked sample_ext d = Some a \<Longrightarrow> a = u64_at d 64"
    by (simp add: sample_ext_def split: if_splits)
  obtain v' c' where ok: "raydium_update_state sample_ext get_accounts (sample_venue, rpc_client_cache_new sample_chain) =
      (Ok (), (v', c'))"
    and cached: "get_multiple c' [1, 7, 6] = [Some sample_pool_account, Some (sample_vault 1000), Some (sample_vault 2000)]"
    using sample_update_ok by blast
  have "[amm_pool (rv_amm_keys sample_venue), amm_pc_vault (rv_amm_keys sample_venue),
      amm_coin_vault (rv_amm_keys sample_venue)] = [1, 7, 6]"
    by (simp add: sample_venue_def)
  with raydium_update_consistent [OF layout wf ok] ok cached show ?thesis
    by (auto simp: sample_vault_balance sample_pool_numbers)
qed

text \<open>
  Whatever an update returns, on any account source, it keeps the venue's pool keys,
  and an update that fails or panics does not make an uninitialized venue initialized.
\<close>

theorem raydium_update_keeps_keys:
  "let (r, (v', c')) = raydium_update_state X fetch (v, c) in
    rv_amm_keys v' = rv_amm_keys v \<and> (is_ok r \<or> rv_found_all_pubkeys v' = rv_found_all_pubkeys v)"
proof -
  obtain r v' c' where eq: "raydium_update_state X fetch (v, c) = (r, (v', c'))"
    by (metis prod.exhaust)
  from raydium_update_frame [OF eq] show ?thesis by (auto simp: eq)
qed

section \<open>Properties of the instruction and of pool detection\<close>

text \<open>
  The swap instruction always exists; its 17 data bytes are the tag 16, the requested
  amount and a zero minimum; only the user signs, and the writable accounts are the pool,
  its two vaults and the user's two token accounts, the one of the input mint first.
\<close>

theorem raydium_swap_instruction_shape:
  "\<exists>ix. raydium_generate_swap_instruction X v r user = Ok ix \<and>
    ix_program_id ix = RAYDIUM_AMM_PROGRAM_ID \<and>
    length (ix_data ix) = 17 \<and> hd (ix_data ix) = 16 \<and>
    u64_at (ix_data ix) 1 = req_amount r \<and> u64_at (ix_data ix) 9 = 0 \<and>
    map am_pubkey (filter is_signer (ix_accounts ix)) = [user] \<and>
    map am_pubkey (filter is_writable (ix_accounts ix)) =
      (let keys = rv_amm_keys v;
           ata = (\<lambda>mint. ata_with_program X user mint TOKEN_PROGRAM_ID);
           users = [ata (amm_coin_mint keys), ata (amm_pc_mint keys)]
       in [amm_pool keys, amm_coin_vault keys, amm_pc_vault keys] @
          (if req_input_mint r = amm_coin_mint keys then users else rev users))"
proof -
  have "slice 1 8 (16 # to_le_bytes (req_amount r) @ to_le_bytes (0 :: u64)) = to_le_bytes (req_amount r)"
    "slice 9 8 (16 # to_le_bytes (req_amount r) @ to_le_bytes (0 :: u64)) = to_le_bytes (0 :: u64)"
    by (simp_all add: slice_def)
  then show ?thesis
    by (auto simp: raydium_generate_swap_instruction_def Let_def swap_v2_def swap_base_in_v2_def
        meta_new_def meta_readonly_def u64_at_def)
qed

text \<open>
  The pools reported for a transaction are exactly those of its \<open>initialize2\<close>
  instructions to the pool program that carry at least ten accounts: the pool is account
  4, its mints are accounts 8 and 9. Anything else is skipped without a panic.
\<close>

theorem raydium_parse_pool_creations_iff:
  "c \<in> set (raydium_parse_pool_creations ixs) \<longleftrightarrow>
    (\<exists>ix. ix \<in> set ixs \<and> pi_program_id ix = RAYDIUM_AMM_PROGRAM_ID \<and> pi_data ix \<noteq> [] \<and>
      hd (pi_data ix) = 1 \<and> 10 \<le> length (pi_accounts ix) \<and>
      c = \<lparr>pc_protocol = RaydiumAMM, pc_pool = pi_accounts ix ! 4,
           pc_mints = [pi_accounts ix ! 8, pi_accounts ix ! 9]\<rparr>)"
proof -
  have "raydium_creation_of ix = Some c \<longleftrightarrow> 10 \<le> length (pi_accounts ix) \<and>
      c = \<lparr>pc_protocol = RaydiumAMM, pc_pool = pi_accounts ix ! 4,
           pc_mints = [pi_accounts ix ! 8, pi_accounts ix ! 9]\<rparr>" for ix
    by (auto simp: raydium_creation_of_def get_def)
  moreover have "get (pi_data ix) 0 = Some 1 \<longleftrightarrow> pi_data ix \<noteq> [] \<and> hd (pi_data ix) = 1" for ix
    by (auto simp: get_def hd_conv_nth)
  ultimately show ?thesis
    by (auto simp: raydium_parse_pool_creations_def in_map_filter Bex_def)
qed

end
