(* ===== verification/Borsh.thy ===== *)
theory Borsh
  imports Bytes
begin

text \<open>
  The Borsh format that the derives of the sources use, as writers and readers. A reader
  returns its value with the bytes that follow; \<open>None\<close> is a short or malformed input. A
  reader is stable when what it returns depends on the bytes it consumed only; the locale
  \<open>codec\<close> pairs a writer with a stable reader that reads it back, and derives that a
  truncated value is refused and that no two values share their bytes.
\<close>

type_synonym 'a reader = "u8 list \<Rightarrow> ('a \<times> u8 list) option"

named_theorems stable_intros \<open>how the reader combinators stay stable\<close>
named_theorems read_back \<open>reading back what was written\<close>

section \<open>Readers\<close>

definition bindB :: "'a reader \<Rightarrow> ('a \<Rightarrow> 'b reader) \<Rightarrow> 'b reader" where
  "bindB r k bs = Option.bind (r bs) (\<lambda>(a, bs). k a bs)"

definition returnB :: "'a \<Rightarrow> 'a reader" where
  "returnB a bs = Some (a, bs)"

definition failB :: "'a reader" where
  "failB bs = None"

definition read_bytes :: "nat \<Rightarrow> u8 list reader" where
  "read_bytes n bs = (if n \<le> length bs then Some (take n bs, drop n bs) else None)"

definition read_u8 :: "u8 reader" where
  "read_u8 = bindB (read_bytes 1) (\<lambda>bs. returnB (hd bs))"

definition read_u16 :: "u16 reader" where
  "read_u16 = bindB (read_bytes 2) (\<lambda>bs. returnB (from_le_bytes bs))"

definition read_u32 :: "u32 reader" where
  "read_u32 = bindB (read_bytes 4) (\<lambda>bs. returnB (from_le_bytes bs))"

definition read_u64 :: "u64 reader" where
  "read_u64 = bindB (read_bytes 8) (\<lambda>bs. returnB (from_le_bytes bs))"

definition read_u128 :: "u128 reader" where
  "read_u128 = bindB (read_bytes 16) (\<lambda>bs. returnB (from_le_bytes bs))"

definition read_key :: "pubkey reader" where
  "read_key = bindB (read_bytes 32) (\<lambda>bs. returnB (key_of_bytes bs))"

definition read_bool :: "bool reader" where
  "read_bool = bindB read_u8 (\<lambda>b.
     if b = 0 then returnB False else if b = 1 then returnB True else failB)"

definition read_option :: "'a reader \<Rightarrow> 'a option reader" where
  "read_option r = bindB read_u8 (\<lambda>b.
     if b = 0 then returnB None else if b = 1 then bindB r (\<lambda>a. returnB (Some a)) else failB)"

fun read_n :: "nat \<Rightarrow> 'a reader \<Rightarrow> 'a list reader" where
  "read_n 0 r = returnB []"
| "read_n (Suc n) r = bindB r (\<lambda>a. bindB (read_n n r) (\<lambda>as. returnB (a # as)))"

definition read_vec :: "'a reader \<Rightarrow> 'a list reader" where
  "read_vec r = bindB read_u32 (\<lambda>n. read_n (unat n) r)"

text \<open>The well-formed UTF-8 byte sequences (\<open>str::from_utf8\<close>).\<close>

abbreviation utf8_tail :: "u8 \<Rightarrow> bool" where
  "utf8_tail b \<equiv> 0x80 \<le> b \<and> b \<le> 0xBF"

definition utf8_second :: "u8 \<Rightarrow> u8 \<Rightarrow> bool" where
  "utf8_second b1 b2 \<longleftrightarrow> utf8_tail b2 \<and>
     (b1 = 0xE0 \<longrightarrow> 0xA0 \<le> b2) \<and> (b1 = 0xED \<longrightarrow> b2 \<le> 0x9F) \<and>
     (b1 = 0xF0 \<longrightarrow> 0x90 \<le> b2) \<and> (b1 = 0xF4 \<longrightarrow> b2 \<le> 0x8F)"

definition utf8_width :: "u8 \<Rightarrow> nat" where
  "utf8_width b =
     (if b < 0x80 then 1 else if 0xC2 \<le> b \<and> b \<le> 0xDF then 2
      else if 0xE0 \<le> b \<and> b \<le> 0xEF then 3 else if 0xF0 \<le> b \<and> b \<le> 0xF4 then 4 else 0)"

function utf8_valid :: "u8 list \<Rightarrow> bool" where
  "utf8_valid [] = True"
| "utf8_valid (b # bs) =
     (let w = utf8_width b in
      w \<noteq> 0 \<and> w \<le> Suc (length bs) \<and>
      (w = 1 \<or> utf8_second b (hd bs) \<and> list_all utf8_tail (take (w - 1) bs)) \<and>
      utf8_valid (drop (w - 1) bs))"
  by pat_completeness auto
termination
  by (relation "measure length") auto

text \<open>A string is the list of its bytes, as characters.\<close>

definition string_of_bytes :: "u8 list \<Rightarrow> string" where
  "string_of_bytes bs = map (\<lambda>b. char_of (unat b)) bs"

definition read_string :: "string reader" where
  "read_string = bindB read_u32 (\<lambda>n. bindB (read_bytes (unat n)) (\<lambda>bs.
     if utf8_valid bs then returnB (string_of_bytes bs) else failB))"

section \<open>Writers\<close>

definition borsh_bool :: "bool \<Rightarrow> u8 list" where
  "borsh_bool b = [if b then 1 else 0]"

definition borsh_string :: "string \<Rightarrow> u8 list" where
  "borsh_string s = to_le_bytes (of_nat (length s) :: u32) @ ascii s"

definition borsh_option :: "('a \<Rightarrow> u8 list) \<Rightarrow> 'a option \<Rightarrow> u8 list" where
  "borsh_option w x = (case x of None \<Rightarrow> [0] | Some a \<Rightarrow> 1 # w a)"

definition borsh_vec :: "('a \<Rightarrow> u8 list) \<Rightarrow> 'a list \<Rightarrow> u8 list" where
  "borsh_vec w xs = to_le_bytes (of_nat (length xs) :: u32) @ concat (map w xs)"

section \<open>Reading back\<close>

lemma bindB_Some [read_back]: "r bs = Some (a, bs') \<Longrightarrow> bindB r k bs = k a bs'"
  by (simp add: bindB_def)

lemma returnB_apply [simp, read_back]: "returnB a bs = Some (a, bs)"
  by (simp add: returnB_def)

lemma failB_apply [simp, read_back]: "failB bs = None"
  by (simp add: failB_def)

lemma bindB_eq_Some:
  "bindB r k bs = Some x \<longleftrightarrow> (\<exists>a bs'. r bs = Some (a, bs') \<and> k a bs' = Some x)"
  by (auto simp: bindB_def bind_eq_Some_conv)

lemma read_bytes_append [read_back]: "length xs = n \<Longrightarrow> read_bytes n (xs @ ys) = Some (xs, ys)"
  by (simp add: read_bytes_def)

lemma read_u8_Cons [simp, read_back]: "read_u8 (b # bs) = Some (b, bs)"
  by (simp add: read_u8_def bindB_def read_bytes_def)

lemma read_u16_bytes [simp, read_back]: "read_u16 (to_le_bytes x @ bs) = Some (x, bs)"
  by (simp add: read_u16_def bindB_def read_bytes_append)

lemma read_u32_bytes [simp, read_back]: "read_u32 (to_le_bytes x @ bs) = Some (x, bs)"
  by (simp add: read_u32_def bindB_def read_bytes_append)

lemma read_u64_bytes [simp, read_back]: "read_u64 (to_le_bytes x @ bs) = Some (x, bs)"
  by (simp add: read_u64_def bindB_def read_bytes_append)

lemma read_u128_bytes [simp, read_back]: "read_u128 (to_le_bytes x @ bs) = Some (x, bs)"
  by (simp add: read_u128_def bindB_def read_bytes_append)

lemma read_key_bytes [simp, read_back]: "read_key (key_bytes k @ bs) = Some (k, bs)"
  by (simp add: read_key_def bindB_def read_bytes_append)

lemma read_bool_bytes [simp, read_back]: "read_bool (borsh_bool b @ bs) = Some (b, bs)"
  by (simp add: read_bool_def borsh_bool_def bindB_def)

lemma read_option_bytes [read_back]:
  "(\<And>a. x = Some a \<Longrightarrow> r (w a @ bs) = Some (a, bs)) \<Longrightarrow> read_option r (borsh_option w x @ bs) = Some (x, bs)"
  by (cases x) (simp_all add: read_option_def borsh_option_def bindB_def)

lemma read_n_bytes:
  "(\<And>a bs. a \<in> set xs \<Longrightarrow> r (w a @ bs) = Some (a, bs)) \<Longrightarrow>
    read_n (length xs) r (concat (map w xs) @ bs) = Some (xs, bs)"
  by (induction xs) (simp_all add: bindB_def)

lemma unat_of_length: "length xs < 2 ^ 32 \<Longrightarrow> unat (of_nat (length xs) :: u32) = length xs"
  by (intro unat_of_nat_less) simp

lemma read_vec_bytes [read_back]:
  "length xs < 2 ^ 32 \<Longrightarrow> (\<And>a bs. a \<in> set xs \<Longrightarrow> r (w a @ bs) = Some (a, bs)) \<Longrightarrow>
    read_vec r (borsh_vec w xs @ bs) = Some (xs, bs)"
  by (simp add: read_vec_def borsh_vec_def bindB_def unat_of_length read_n_bytes)

lemma string_of_ascii [simp]: "string_of_bytes (ascii s) = s"
proof -
  have "char_of (unat (word_of_nat (of_char c) :: u8)) = c" for c
  proof -
    have "unat (word_of_nat (of_char c) :: u8) = (of_char c :: nat) mod 256"
      by (simp add: unsigned_of_nat take_bit_eq_mod)
    also have "\<dots> = of_char c" by (simp only: of_char_mod_256)
    finally show ?thesis by simp
  qed
  then show ?thesis by (simp add: string_of_bytes_def ascii_def comp_def)
qed

lemma read_string_bytes [read_back]:
  "length s < 2 ^ 32 \<Longrightarrow> utf8_valid (ascii s) \<Longrightarrow> read_string (borsh_string s @ bs) = Some (s, bs)"
  by (simp add: read_string_def borsh_string_def bindB_def unat_of_length read_bytes_append)

section \<open>Stability\<close>

definition stable :: "'a reader \<Rightarrow> bool" where
  "stable r \<longleftrightarrow> (\<forall>bs a rest. r bs = Some (a, rest) \<longrightarrow>
     (\<exists>used. bs = used @ rest \<and> (\<forall>rest'. r (used @ rest') = Some (a, rest'))))"

lemma stableE:
  assumes "stable r" "r bs = Some (a, rest)"
  obtains used where "bs = used @ rest" "\<And>rest'. r (used @ rest') = Some (a, rest')"
  using assms unfolding stable_def by blast

lemma stable_returnB [stable_intros]: "stable (returnB a)"
  by (simp add: stable_def)

lemma stable_failB [stable_intros]: "stable failB"
  by (simp add: stable_def)

lemma stable_bindB [stable_intros]:
  assumes "stable r" "\<And>a. stable (k a)"
  shows "stable (bindB r k)"
  unfolding stable_def
proof (intro allI impI)
  fix bs b rest
  assume "bindB r k bs = Some (b, rest)"
  then obtain a bs' where 1: "r bs = Some (a, bs')" and 2: "k a bs' = Some (b, rest)"
    by (auto simp: bindB_eq_Some)
  obtain u1 where u1: "bs = u1 @ bs'" "\<And>rest'. r (u1 @ rest') = Some (a, rest')"
    using stableE [OF assms(1) 1] by metis
  obtain u2 where u2: "bs' = u2 @ rest" "\<And>rest'. k a (u2 @ rest') = Some (b, rest')"
    using stableE [OF assms(2) 2] by metis
  have "bs = (u1 @ u2) @ rest \<and> (\<forall>rest'. bindB r k ((u1 @ u2) @ rest') = Some (b, rest'))"
    by (simp add: u1 u2 bindB_def)
  then show "\<exists>used. bs = used @ rest \<and> (\<forall>rest'. bindB r k (used @ rest') = Some (b, rest'))" by blast
qed

lemma stable_read_bytes [stable_intros]: "stable (read_bytes n)"
  unfolding stable_def
proof (intro allI impI)
  fix bs a rest
  assume "read_bytes n bs = Some (a, rest)"
  then have "n \<le> length bs" "a = take n bs" "rest = drop n bs"
    by (auto simp: read_bytes_def split: if_splits)
  then have "bs = a @ rest \<and> (\<forall>rest'. read_bytes n (a @ rest') = Some (a, rest'))"
    by (simp add: read_bytes_append)
  then show "\<exists>used. bs = used @ rest \<and> (\<forall>rest'. read_bytes n (used @ rest') = Some (a, rest'))" by blast
qed

lemma stable_if [stable_intros]: "stable r \<Longrightarrow> stable r' \<Longrightarrow> stable (if b then r else r')"
  by simp

lemma stable_read_n [stable_intros]: "stable r \<Longrightarrow> stable (read_n n r)"
  by (induction n) (auto intro!: stable_intros)

lemma stable_basic [stable_intros]:
  "stable read_u8" "stable read_u16" "stable read_u32" "stable read_u64" "stable read_u128"
  "stable read_key" "stable read_bool" "stable read_string"
  by (auto simp: read_u8_def read_u16_def read_u32_def read_u64_def read_u128_def read_key_def read_bool_def
      read_string_def intro!: stable_bindB stable_if stable_returnB stable_failB stable_read_bytes)

lemma stable_compound [stable_intros]:
  "stable r \<Longrightarrow> stable (read_option r)" "stable r \<Longrightarrow> stable (read_vec r)"
  by (auto simp: read_option_def read_vec_def intro!: stable_intros)

section \<open>Codecs\<close>

locale codec =
  fixes wr :: "'a \<Rightarrow> u8 list" and rd :: "'a reader" and ok :: "'a \<Rightarrow> bool"
  assumes reads_back: "ok a \<Longrightarrow> rd (wr a @ rest) = Some (a, rest)"
    and stable_rd: "stable rd"
begin

lemma truncated_refused:
  assumes "ok a" "n < length (wr a)"
  shows "rd (take n (wr a)) = None"
proof (rule ccontr)
  assume "rd (take n (wr a)) \<noteq> None"
  then obtain b rest where b: "rd (take n (wr a)) = Some (b, rest)" by auto
  obtain used where used: "take n (wr a) = used @ rest" "\<And>rest'. rd (used @ rest') = Some (b, rest')"
    using stableE [OF stable_rd b] by metis
  have "wr a = used @ (rest @ drop n (wr a))"
    using used(1) by (metis append.assoc append_take_drop_id)
  then have "rd (wr a) = Some (b, rest @ drop n (wr a))" using used(2) by metis
  moreover have "rd (wr a) = Some (a, [])" using reads_back [OF assms(1), of "[]"] by simp
  ultimately show False using assms(2) by simp
qed

lemma bytes_determine:
  assumes "ok a" "ok b" "wr a @ r = wr b @ s"
  shows "a = b \<and> r = s"
proof -
  have "Some (a, r) = Some (b, s)"
    using reads_back [OF assms(1), of r] reads_back [OF assms(2), of s] unfolding assms(3) by simp
  then show ?thesis by simp
qed

end

end
