(* ===== verification/Huma_State.thy ===== *)
theory Huma_State
  imports Borsh
begin

text \<open>
  The Huma account model: the constants (\<open>src/huma/constants.rs\<close>), the accounts of the
  permissionless program with their pure methods (\<open>src/huma/state.rs\<close>), the
  program-derived addresses (\<open>pda.rs\<close>), the instruction encoders (\<open>instruction.rs\<close>) and
  the pool detection (\<open>creation.rs\<close>). The Borsh, bincode and KLend decoders, and the
  power function of \<open>f64\<close>, are arguments (\<open>huma_ext\<close>).
\<close>

section \<open>Constants\<close>

definition PROGRAM_ID :: pubkey where
  "PROGRAM_ID = 113642892026253844281636523262536083571066148468328534996576770509190389069745"

definition HUMA_PROGRAM_ID :: pubkey where
  "HUMA_PROGRAM_ID = 90657407316610142490422403410398612632386528804767355618915970165490337154652"

definition JUP_LENDING_PROGRAM_ID :: pubkey where
  "JUP_LENDING_PROGRAM_ID = 4972097901504140077967802680781958347689912914876127068188767027426739981598"

definition JUP_LIQUIDITY_PROGRAM_ID :: pubkey where
  "JUP_LIQUIDITY_PROGRAM_ID = 4972118787675632179345391907461695917622703355642801338141002831724459510979"

definition JUP_LRRM_PROGRAM_ID :: pubkey where
  "JUP_LRRM_PROGRAM_ID = 4972100228328078259021641629797981037650117542432227477378147959097272543547"

definition KLEND_PROGRAM_ID :: pubkey where
  "KLEND_PROGRAM_ID = 2124942046077977619906336156481515877251532675532436082254018260872906604552"

definition KFARMS_PROGRAM_ID :: pubkey where
  "KFARMS_PROGRAM_ID = 98010651435919942948570068443805090822610647434851588040656784992542379525889"

definition SPL_TOKEN_PROGRAM_ID :: pubkey where
  "SPL_TOKEN_PROGRAM_ID = 3106054211088883198575105191760876350940303353676611666299516346430146937001"

definition ASSOCIATED_TOKEN_PROGRAM_ID :: pubkey where
  "ASSOCIATED_TOKEN_PROGRAM_ID =
     63590851936555425018482094543133168213809614203979002813017495418995103889497"

definition SYSTEM_PROGRAM_ID :: pubkey where
  "SYSTEM_PROGRAM_ID = 0"

definition SYSVAR_INSTRUCTIONS_ID :: pubkey where
  "SYSVAR_INSTRUCTIONS_ID = 3010411245946659004650937024412888917526102981211644260807408457663811420160"

definition POOL_CONFIG_KEY :: pubkey where
  "POOL_CONFIG_KEY = 7612049215817894209900757830052816946209429159308566486960163388267935131239"

definition CLOCK_ID :: pubkey where
  "CLOCK_ID = 3010411245977774767103551433779408434046391008353408711474217313814305570816"

definition POOL_STATE_SEED :: "u8 list" where "POOL_STATE_SEED = ascii ''pool_state''"
definition POOL_AUTHORITY_SEED :: "u8 list" where "POOL_AUTHORITY_SEED = ascii ''pool_authority''"
definition MODE_MINT_SEED :: "u8 list" where "MODE_MINT_SEED = ascii ''mode_mint''"
definition DEPLOYMENT_STATE_SEED :: "u8 list" where "DEPLOYMENT_STATE_SEED = ascii ''deployment_state''"
definition LENDER_STATE_SEED :: "u8 list" where "LENDER_STATE_SEED = ascii ''lender_state''"

definition DISCRIMINATOR_LEN :: nat where "DISCRIMINATOR_LEN = 8"
definition HUNDRED_PERCENT_BPS :: u64 where "HUNDRED_PERCENT_BPS = 10000"
definition KLEND_FRACTION_BITS :: nat where "KLEND_FRACTION_BITS = 60"
definition SECONDS_PER_DAY :: u64 where "SECONDS_PER_DAY = 24 * 60 * 60"
definition SECONDS_IN_A_YEAR :: u64 where "SECONDS_IN_A_YEAR = 365 * SECONDS_PER_DAY"
definition MAX_ASSETS_STALENESS_SECS :: u64 where "MAX_ASSETS_STALENESS_SECS = 5 * SECONDS_PER_DAY"

section \<open>Accounts\<close>

text \<open>The reserved bytes at the end of each account are read by nothing and are left out.\<close>

record huma_config =
  hc_id :: pubkey
  hc_bump :: u8
  hc_owner :: pubkey
  hc_treasury :: pubkey
  hc_sentinel :: pubkey
  hc_protocol_fee_bps :: u16
  hc_paused :: bool

record lp_config =
  liquidity_cap :: u128
  min_deposit_amount :: u64
  min_redemption_shares :: u64
  max_total_redemption_shares_per_window :: u128
  max_instant_withdrawal_shares_per_window :: u128

record fee_config =
  liquid_asset_ratio_lt_bps :: u16
  fee_bps :: u16

record withdrawal_config =
  instant_withdrawal_reserve_limit :: u64
  instant_withdrawal_fee_configs :: "fee_config list"
  liquidity_source :: "pubkey option"

record pool_config =
  pcf_bump :: u8
  pcf_huma_config :: pubkey
  pcf_pool_owner :: pubkey
  pcf_pool_owner_treasury :: pubkey
  pcf_underlying_mint :: pubkey
  pcf_pool_authority_bump :: u8
  pcf_pool_id :: pubkey
  pcf_pool_name :: string
  pcf_lp_config :: lp_config
  pcf_instant_withdrawal_config :: withdrawal_config

datatype deployment_strategy_type = Manual | JupLendType | KaminoLendType

record deployment_config =
  dc_bump :: u8
  dc_strategy_type :: deployment_strategy_type
  dc_target_key :: pubkey

datatype pool_status = Off | On | PreClosure | Closed

record mode_state =
  ms_assets :: u128
  ms_losses :: u128
  ms_cumulative_yields :: u128
  ms_assets_refreshed_at :: u64

record redemption_gating =
  total_shares_requested :: u128
  window_starts_at :: u64

record redemption =
  rd_next_request_id :: u128
  rd_last_request_id :: u128
  rd_global_redemption_gating :: redemption_gating
  rd_instant_withdrawal_gating :: redemption_gating

record pool_state =
  ps_bump :: u8
  ps_status :: pool_status
  ps_disbursement_reserve :: u128
  ps_mode_states :: "mode_state list"
  ps_mode_config_keys :: "pubkey list"
  ps_redemption :: redemption
  ps_cumulative_amount_deployed :: u128
  ps_cumulative_amount_paid_back :: u128
  ps_liquid_assets_deployed :: u64

record mode_config =
  mc_bump :: u8
  mc_mint_bump :: u8
  mc_id :: pubkey
  mc_name :: string
  mc_target_apy_bps :: u16
  mc_periodic_apy_bps :: f64

section \<open>Third-party decoders\<close>

text \<open>
  Each decoder takes the bytes after the discriminator and returns the account or an
  error message. The KLend types are cut down to what is read from them.
\<close>

record token_reserve =
  tr_mint :: pubkey
  tr_vault :: pubkey
  tr_borrow_rate :: u16
  tr_fee_on_interest :: u16
  tr_last_utilization :: u16
  tr_last_update_timestamp :: u64
  tr_supply_exchange_price :: u64
  tr_borrow_exchange_price :: u64
  tr_max_utilization :: u16
  tr_total_supply_with_interest :: u64
  tr_total_supply_interest_free :: u64
  tr_total_borrow_with_interest :: u64
  tr_total_borrow_interest_free :: u64
  tr_total_claim_amount :: u64
  tr_interacting_protocol :: pubkey
  tr_interacting_timestamp :: u64
  tr_interacting_balance :: u64

record klend_reserve =
  kr_lending_market :: pubkey
  kr_collateral_mint :: pubkey
  kr_collateral_supply_vault :: pubkey
  kr_liquidity_supply_vault :: pubkey
  kr_farm_collateral :: pubkey
  kr_available_liquidity :: u64
  kr_collateral_total_supply :: u64
  kr_borrowed_amount :: u128

record klend_deposit =
  kd_deposit_reserve :: pubkey
  kd_deposited_amount :: u64

record clock =
  cl_epoch :: u64
  cl_unix_timestamp :: u64

record huma_ext = ext +
  decode_huma_config :: "u8 list \<Rightarrow> string + huma_config"
  decode_pool_config :: "u8 list \<Rightarrow> string + pool_config"
  decode_mode_config :: "u8 list \<Rightarrow> string + mode_config"
  decode_deployment_config :: "u8 list \<Rightarrow> string + deployment_config"
  decode_pool_state :: "u8 list \<Rightarrow> string + pool_state"
  decode_token_reserve :: "u8 list \<Rightarrow> string + token_reserve"
  decode_clock :: "u8 list \<Rightarrow> string + clock"
  decode_klend_reserve :: "u8 list \<Rightarrow> string + klend_reserve"
  decode_klend_obligation :: "u8 list \<Rightarrow> string + klend_deposit list"
  f_powi :: "f64 \<Rightarrow> int \<Rightarrow> f64"

definition decode_failed :: "string \<Rightarrow> venue_error" where
  "decode_failed s = DeserializationFailed (EString s)"

text \<open>\<open>hashv(&[prefix, name])[..8]\<close>; the slice panics on a hash shorter than that.\<close>

definition anchor_discriminator :: "'x ext_scheme \<Rightarrow> string \<Rightarrow> string \<Rightarrow> ('e, u8 list) res" where
  "anchor_discriminator X prefix name =
     unwrap (get_range (hashv X [ascii prefix, ascii name]) 0 DISCRIMINATOR_LEN)"

definition anchor_account_discriminator :: "'x ext_scheme \<Rightarrow> string \<Rightarrow> ('e, u8 list) res" where
  "anchor_account_discriminator X name = anchor_discriminator X ''account:'' name"

definition anchor_instruction_discriminator :: "'x ext_scheme \<Rightarrow> string \<Rightarrow> ('e, u8 list) res" where
  "anchor_instruction_discriminator X name = anchor_discriminator X ''global:'' name"

definition decode_anchor_account ::
  "'x ext_scheme \<Rightarrow> (u8 list \<Rightarrow> string + 'a) \<Rightarrow> string \<Rightarrow> u8 list \<Rightarrow> (venue_error, 'a) res" where
  "decode_anchor_account X decode account_name data =
     (if length data < DISCRIMINATOR_LEN then
        Err (decode_failed (account_name @ '' data too short''))
      else
        bindR (anchor_account_discriminator X account_name) (\<lambda>expected.
        bindR (slice_p data 0 DISCRIMINATOR_LEN) (\<lambda>discriminator.
        if discriminator \<noteq> expected then
          Err (decode_failed (''invalid discriminator for '' @ account_name))
        else
          bindR (slice_p data DISCRIMINATOR_LEN (length data)) (\<lambda>value.
          case decode value of
            Inl e \<Rightarrow> Err (decode_failed (account_name @ '': '' @ e))
          | Inr a \<Rightarrow> Ok a))))"

lemma decode_anchor_account_eq:
  "decode_anchor_account X decode account_name data =
     (if length data < DISCRIMINATOR_LEN then
        Err (decode_failed (account_name @ '' data too short''))
      else
        bindR (anchor_account_discriminator X account_name) (\<lambda>expected.
        if take DISCRIMINATOR_LEN data \<noteq> expected then
          Err (decode_failed (''invalid discriminator for '' @ account_name))
        else
          (case decode (drop DISCRIMINATOR_LEN data) of
             Inl e \<Rightarrow> Err (decode_failed (account_name @ '': '' @ e))
           | Inr a \<Rightarrow> Ok a)))"
  by (cases "length data < DISCRIMINATOR_LEN") (simp_all add: decode_anchor_account_def not_less cong: if_cong)

definition read_token_account_amount :: "'x ext_scheme \<Rightarrow> u8 list \<Rightarrow> (venue_error, u64) res" where
  "read_token_account_amount X data =
     (case token_amount_unpack X data of Inl e \<Rightarrow> Err (decode_failed e) | Inr a \<Rightarrow> Ok a)"

definition read_mint_supply :: "'x ext_scheme \<Rightarrow> u8 list \<Rightarrow> (venue_error, u64) res" where
  "read_mint_supply X data =
     (case mint_supply_unpack X data of Inl e \<Rightarrow> Err (decode_failed e) | Inr a \<Rightarrow> Ok a)"

section \<open>Methods of the pool state\<close>

text \<open>\<open>x as i32\<close> of a 64-bit number keeps its low 32 bits, read signed.\<close>

definition as_i32 :: "u64 \<Rightarrow> int" where
  "as_i32 x = sint (ucast x :: 32 word)"

definition refreshed_assets :: "'x huma_ext_scheme \<Rightarrow> mode_state \<Rightarrow> f64 \<Rightarrow> u64 \<Rightarrow> u64" where
  "refreshed_assets X ms periodic_apy_bps current_ts =
     (let cached_assets = ucast (ms_assets ms) :: u64 in
      if f_le periodic_apy_bps (Finite 0) \<or> ms_assets_refreshed_at ms = 0 then cached_assets
      else
        let seconds_elapsed = saturating_sub current_ts (ms_assets_refreshed_at ms) in
        if seconds_elapsed = 0 then cached_assets
        else
          let yield_rate_per_second =
                f_div periodic_apy_bps (f_mul (f_of_u64 SECONDS_IN_A_YEAR) (f_of_u64 HUNDRED_PERCENT_BPS))
          in f_to_u64 (f_mul (f_of_u64 cached_assets)
               (f_powi X (f_add (f_of_nat 1) yield_rate_per_second) (as_i32 seconds_elapsed))))"

definition would_exceed :: "redemption_gating \<Rightarrow> u64 \<Rightarrow> u64 \<Rightarrow> u64 \<Rightarrow> bool" where
  "would_exceed g shares current_ts max_shares =
     (let start_of_today = current_ts div SECONDS_PER_DAY * SECONDS_PER_DAY;
          used = (if window_starts_at g < start_of_today then 0 else ucast (total_shares_requested g))
      in max_shares < saturating_add used shares)"

definition is_pool_on :: "pool_state \<Rightarrow> bool" where
  "is_pool_on ps = (ps_status ps = On)"

definition mode_index_for :: "pool_state \<Rightarrow> pubkey \<Rightarrow> nat option" where
  "mode_index_for ps mode_config_key = position (\<lambda>k. k = mode_config_key) (ps_mode_config_keys ps)"

definition all_mode_assets_fresh :: "pool_state \<Rightarrow> u64 \<Rightarrow> bool" where
  "all_mode_assets_fresh ps current_ts =
     list_all (\<lambda>s. saturating_sub current_ts (ms_assets_refreshed_at s) \<le> MAX_ASSETS_STALENESS_SECS)
       (ps_mode_states ps)"

text \<open>\<open>&self.mode_states[mode_index]\<close> panics out of range; a sum of \<open>u128\<close> panics on overflow.\<close>

definition mode_state :: "pool_state \<Rightarrow> nat \<Rightarrow> ('e, mode_state) res" where
  "mode_state ps mode_index = unwrap (get (ps_mode_states ps) mode_index)"

fun sum_p :: "u128 \<Rightarrow> u128 list \<Rightarrow> ('e, u128) res" where
  "sum_p acc [] = Ok acc"
| "sum_p acc (x # xs) = bindR (add_p acc x) (\<lambda>acc. sum_p acc xs)"

definition get_pool_total_assets :: "pool_state \<Rightarrow> ('e, u64) res" where
  "get_pool_total_assets ps = bindR (sum_p 0 (map ms_assets (ps_mode_states ps))) (\<lambda>s. Ok (ucast s))"

definition refreshed_total_assets :: "pool_state \<Rightarrow> nat \<Rightarrow> u64 \<Rightarrow> ('e, u64) res" where
  "refreshed_total_assets ps mode_index refreshed_mode_assets =
     bindR (mode_state ps mode_index) (\<lambda>ms.
     bindR (get_pool_total_assets ps) (\<lambda>total.
       Ok (saturating_add total (saturating_sub refreshed_mode_assets (ucast (ms_assets ms))))))"

definition get_available_balance :: "pool_state \<Rightarrow> u64 \<Rightarrow> u64 \<Rightarrow> u64" where
  "get_available_balance ps underlying_balance reserve_limit =
     saturating_sub (saturating_sub underlying_balance (ucast (ps_disbursement_reserve ps))) reserve_limit"

section \<open>The progressive withdrawal fee\<close>

definition withdrawal_amount_at_boundary :: "u16 \<Rightarrow> u64 \<Rightarrow> u64 \<Rightarrow> ('e, u64) res" where
  "withdrawal_amount_at_boundary boundary_bps total_assets_before liquid_assets_before =
     (let boundary = ucast boundary_bps :: u128; hundred_pct = ucast HUNDRED_PERCENT_BPS in
      bindR (mul_p (ucast liquid_assets_before) hundred_pct) (\<lambda>scaled.
      bindR (mul_p boundary (ucast total_assets_before)) (\<lambda>limit.
      bindR (sub_p scaled limit) (\<lambda>num.
      bindR (sub_p hundred_pct boundary) (\<lambda>den.
      bindR (div_p num den) (\<lambda>q. Ok (ucast q)))))))"

text \<open>\<open>u128::div_ceil\<close> by a positive divisor.\<close>

definition u128_div_ceil :: "u128 \<Rightarrow> u128 \<Rightarrow> u128" where
  "u128_div_ceil a b = (if a mod b = 0 then a div b else a div b + 1)"

definition bracket_index :: "fee_config list \<Rightarrow> u64 \<Rightarrow> u64 \<Rightarrow> nat option" where
  "bracket_index configs liquid_assets total_assets =
     position (\<lambda>c. (ucast liquid_assets :: u128) * ucast HUNDRED_PERCENT_BPS
         \<le> ucast (liquid_asset_ratio_lt_bps c) * ucast total_assets) configs"

text \<open>
  The products of \<open>bracket_index\<close>, of a 64-bit and a 16-bit number, fit 128 bits.
  The loop over \<open>(i_end..=i_start).rev()\<close>, here over the list of those indices, with the
  running fee and the amount withdrawn before the bracket.
\<close>

fun fee_loop ::
  "fee_config list \<Rightarrow> u64 \<Rightarrow> u64 \<Rightarrow> u64 \<Rightarrow> nat \<Rightarrow> u64 \<Rightarrow> u64 \<Rightarrow> nat list \<Rightarrow> ('e, u64) res" where
  "fee_loop configs total_before liquid_before withdrawal_amount i_end total_fee enter [] = Ok total_fee"
| "fee_loop configs total_before liquid_before withdrawal_amount i_end total_fee enter (i # is) =
     bindR (unwrap (get configs i)) (\<lambda>config.
     bindR (if i = i_end then Ok withdrawal_amount
            else
              bindR (unwrap (get configs (i - 1))) (\<lambda>below.
                withdrawal_amount_at_boundary (liquid_asset_ratio_lt_bps below) total_before liquid_before)) (\<lambda>exit.
     bindR (sub_p exit enter) (\<lambda>slice.
     bindR (mul_p (ucast slice) (ucast (fee_bps config))) (\<lambda>product.
     bindR (add_p total_fee (ucast (u128_div_ceil product (ucast HUNDRED_PERCENT_BPS)))) (\<lambda>total_fee.
       fee_loop configs total_before liquid_before withdrawal_amount i_end total_fee exit is)))))"

definition compute_instant_withdrawal_fee ::
  "withdrawal_config \<Rightarrow> u64 \<Rightarrow> u64 \<Rightarrow> u64 \<Rightarrow> ('e, u64 option) res" where
  "compute_instant_withdrawal_fee config total_assets_before liquid_assets_before withdrawal_amount =
     (let configs = instant_withdrawal_fee_configs config;
          liquid_assets_after = saturating_sub liquid_assets_before withdrawal_amount;
          total_assets_after = saturating_sub total_assets_before withdrawal_amount
      in if withdrawal_amount = 0 then Ok (Some 0)
         else if total_assets_after = 0 then Ok None
         else
           (case bracket_index configs liquid_assets_after total_assets_after of
              None \<Rightarrow> Ok None
            | Some i_end \<Rightarrow>
                bindR (unwrap (get configs i_end)) (\<lambda>last.
                if HUNDRED_PERCENT_BPS \<le> ucast (fee_bps last) then Ok None
                else
                  (case bracket_index configs liquid_assets_before total_assets_before of
                     None \<Rightarrow> Ok None
                   | Some i_start \<Rightarrow>
                       bindR (fee_loop configs total_assets_before liquid_assets_before
                         withdrawal_amount i_end 0 0 (rev [i_end..<Suc i_start])) (\<lambda>fee.
                       Ok (Some fee))))))"

definition marginal_fee_bps :: "withdrawal_config \<Rightarrow> u64 \<Rightarrow> u64 \<Rightarrow> u64 \<Rightarrow> ('e, u16 option) res" where
  "marginal_fee_bps config total_assets_before liquid_assets_before withdrawal_amount =
     (let configs = instant_withdrawal_fee_configs config;
          liquid_assets_after = saturating_sub liquid_assets_before withdrawal_amount;
          total_assets_after = saturating_sub total_assets_before withdrawal_amount
      in if total_assets_after = 0 then Ok None
         else
           (case bracket_index configs liquid_assets_after total_assets_after of
              None \<Rightarrow> Ok None
            | Some i_end \<Rightarrow>
                bindR (unwrap (get configs i_end)) (\<lambda>last.
                if HUNDRED_PERCENT_BPS \<le> ucast (fee_bps last) then Ok None
                else Ok (Some (fee_bps last)))))"

section \<open>Addresses (\<open>pda.rs\<close>)\<close>

definition derive_pool_state :: "'x ext_scheme \<Rightarrow> pubkey \<Rightarrow> pubkey" where
  "derive_pool_state X pool_config_key =
     find_pda X [POOL_STATE_SEED, key_bytes pool_config_key] PROGRAM_ID"

definition pool_authority_with_bump :: "'x ext_scheme \<Rightarrow> pubkey \<Rightarrow> u8 \<Rightarrow> pubkey option" where
  "pool_authority_with_bump X pool_config_key bump =
     create_pda X [POOL_AUTHORITY_SEED, key_bytes pool_config_key, [bump]] PROGRAM_ID"

definition derive_mode_mint :: "'x ext_scheme \<Rightarrow> pubkey \<Rightarrow> pubkey \<Rightarrow> pubkey" where
  "derive_mode_mint X pool_config_key mode_config_key =
     find_pda X [MODE_MINT_SEED, key_bytes pool_config_key, key_bytes mode_config_key] PROGRAM_ID"

definition derive_deployment_state :: "'x ext_scheme \<Rightarrow> pubkey \<Rightarrow> pubkey" where
  "derive_deployment_state X deployment_config_key =
     find_pda X [DEPLOYMENT_STATE_SEED, key_bytes deployment_config_key] PROGRAM_ID"

definition derive_lender_state :: "'x ext_scheme \<Rightarrow> pubkey \<Rightarrow> pubkey \<Rightarrow> pubkey" where
  "derive_lender_state X mode_config_key lender =
     find_pda X [LENDER_STATE_SEED, key_bytes mode_config_key, key_bytes lender] PROGRAM_ID"

section \<open>Instructions (\<open>instruction.rs\<close>)\<close>

datatype huma_instruction =
  Deposit u64
| InstantWithdraw u64 u64
| CreateLenderAccountsV2

definition NO_COMMITMENT :: string where "NO_COMMITMENT = ''NO_COMMITMENT''"

text \<open>Borsh: little-endian integers, a string as its 32-bit length and its bytes, a bool as a byte.\<close>

fun huma_pack :: "'x ext_scheme \<Rightarrow> huma_instruction \<Rightarrow> ('e, u8 list) res" where
  "huma_pack X (Deposit assets) =
     bindR (anchor_instruction_discriminator X ''deposit'') (\<lambda>d.
       Ok (d @ to_le_bytes assets @ borsh_string NO_COMMITMENT @ borsh_bool False))"
| "huma_pack X (InstantWithdraw shares max_fee) =
     bindR (anchor_instruction_discriminator X ''instant_withdraw'') (\<lambda>d.
       Ok (d @ to_le_bytes shares @ to_le_bytes max_fee))"
| "huma_pack X CreateLenderAccountsV2 =
     anchor_instruction_discriminator X ''create_lender_accounts_v2''"

section \<open>Pool detection (\<open>creation.rs\<close>)\<close>

definition ADD_MODE_DISCRIMINATOR :: "u8 list" where
  "ADD_MODE_DISCRIMINATOR = [136, 187, 228, 193, 168, 107, 113, 144]"

definition huma_creation_of :: "parsed_instruction \<Rightarrow> pool_creation option" where
  "huma_creation_of ix =
     Option.bind (get (pi_accounts ix) 5) (\<lambda>mode_config.
     Option.bind (get (pi_accounts ix) 4) (\<lambda>underlying_mint.
     Option.bind (get (pi_accounts ix) 6) (\<lambda>mode_mint.
       Some \<lparr>pc_protocol = Huma, pc_pool = mode_config, pc_mints = [underlying_mint, mode_mint]\<rparr>)))"

definition huma_parse_pool_creations :: "parsed_instruction list \<Rightarrow> pool_creation list" where
  "huma_parse_pool_creations instructions =
     List.map_filter huma_creation_of
       (filter (\<lambda>ix. get_range (pi_data ix) 0 8 = Some ADD_MODE_DISCRIMINATOR)
         (filter (\<lambda>ix. pi_program_id ix = PROGRAM_ID) instructions))"

end
