(* ===== verification/Huma_Fee.thy ===== *)
theory Huma_Fee
  imports Huma_State
begin

text \<open>
  The progressive withdrawal fee of \<open>src/huma/state.rs\<close> against a reference: the fee of a
  withdrawal is the sum, over the brackets of the liquid-asset ratio, of the bracket's
  fee on the part of the withdrawal that lies in it, each rounded up.
\<close>

section \<open>Bracket boundaries\<close>

text \<open>
  \<open>boundary r T L\<close>: how much of \<open>T\<close> total and \<open>L\<close> liquid assets can be withdrawn before the
  liquid ratio falls to \<open>r\<close> hundredths of a percent.
\<close>

definition boundary :: "nat \<Rightarrow> nat \<Rightarrow> nat \<Rightarrow> nat" where
  "boundary r T L = (10000 * L - r * T) div (10000 - r)"

definition in_ratio :: "nat \<Rightarrow> nat \<Rightarrow> nat \<Rightarrow> bool" where
  "in_ratio r T L \<longleftrightarrow> L * 10000 \<le> r * T"

lemma boundary_le:
  assumes "L \<le> T" "r < 10000"
  shows "boundary r T L \<le> L"
proof -
  have "10000 * L - r * T \<le> 10000 * L - r * L"
    using assms(1) by (intro diff_le_mono2) simp
  also have "\<dots> = L * (10000 - r)" by (simp add: diff_mult_distrib2 mult.commute)
  finally have "(10000 * L - r * T) div (10000 - r) \<le> L * (10000 - r) div (10000 - r)"
    by (rule div_le_mono)
  then show ?thesis using assms(2) by (simp add: boundary_def)
qed

lemma boundary_antimono:
  assumes "L \<le> T" "r \<le> r'" "r' < 10000"
  shows "boundary r' T L \<le> boundary r T L"
  unfolding boundary_def
proof (rule div_le_cross)
  show "(10000 * L - r' * T) * (10000 - r) \<le> (10000 * L - r * T) * (10000 - r')"
  proof (cases "r' * T \<le> 10000 * L")
    case True
    have rT: "r * T \<le> 10000 * L" using mult_le_mono1 [OF assms(2), of T] True by linarith
    have "int (10000 * L) * (int r' - int r) \<le> int (10000 * T) * (int r' - int r)"
      using assms(1,2) by (intro mult_right_mono) auto
    then have "(int (10000 * L) - int r' * int T) * (10000 - int r)
        \<le> (int (10000 * L) - int r * int T) * (10000 - int r')"
      by (simp add: algebra_simps)
    then have "int ((10000 * L - r' * T) * (10000 - r)) \<le> int ((10000 * L - r * T) * (10000 - r'))"
      using True rT assms(2,3) by (simp only: of_nat_mult of_nat_diff) (simp add: of_nat_diff)
    then show ?thesis by (simp only: of_nat_le_iff)
  qed simp
qed (use assms in auto)

lemma ratio_after_iff:
  assumes "L \<le> T" "r < 10000" "w < T"
  shows "in_ratio r (T - w) (L - w) \<longleftrightarrow> 10000 * L - r * T \<le> w * (10000 - r)"
proof (cases "w \<le> L")
  case True
  have "in_ratio r (T - w) (L - w) \<longleftrightarrow> int (L - w) * 10000 \<le> int r * int (T - w)"
    unfolding in_ratio_def by (metis of_nat_le_iff of_nat_mult of_nat_numeral)
  also have "\<dots> \<longleftrightarrow> 10000 * int L \<le> int r * int T + int w * (10000 - int r)"
    using True assms(3) by (simp add: of_nat_diff algebra_simps)
  also have "\<dots> \<longleftrightarrow> int (10000 * L) \<le> int (r * T + w * (10000 - r))"
    using assms(2) by (simp add: of_nat_diff)
  also have "\<dots> \<longleftrightarrow> 10000 * L - r * T \<le> w * (10000 - r)" by linarith
  finally show ?thesis .
next
  case False
  have "10000 * L - r * T \<le> 10000 * L - r * L"
    using assms(1) by (intro diff_le_mono2) simp
  also have "\<dots> = L * (10000 - r)" by (simp add: diff_mult_distrib2 mult.commute)
  also have "\<dots> \<le> w * (10000 - r)" using False by simp
  finally show ?thesis using False by (simp add: in_ratio_def)
qed

lemma boundary_le_after:
  assumes "L \<le> T" "r < 10000" "w < T" "in_ratio r (T - w) (L - w)"
  shows "boundary r T L \<le> w"
proof -
  have "(10000 * L - r * T) div (10000 - r) \<le> w * (10000 - r) div (10000 - r)"
    using assms by (intro div_le_mono) (simp add: ratio_after_iff)
  then show ?thesis using assms(2) by (simp add: boundary_def)
qed

lemma boundary_ge_after:
  assumes "L \<le> T" "r < 10000" "w < T" "\<not> in_ratio r (T - w) (L - w)"
  shows "w \<le> boundary r T L"
  using assms by (simp add: boundary_def ratio_after_iff less_eq_div_iff_mult_less_eq)

lemma in_ratio_after:
  assumes "L \<le> T" "in_ratio r T L" "w < T"
  shows "in_ratio r (T - w) (L - w)"
proof (cases "r < 10000")
  case True
  then show ?thesis using assms by (simp add: ratio_after_iff) (simp add: in_ratio_def mult.commute)
next
  case False
  then have "(L - w) * 10000 \<le> (T - w) * r"
    using assms(1) by (intro mult_le_mono) auto
  then show ?thesis by (simp add: in_ratio_def mult.commute)
qed

lemma not_in_ratio_less: "L \<le> T \<Longrightarrow> \<not> in_ratio r T L \<Longrightarrow> r < 10000"
  unfolding in_ratio_def by (rule ccontr) (metis mult.commute mult_le_mono not_less)

section \<open>The code's arithmetic\<close>

lemma hundred_pct [simp]: "unat (ucast HUNDRED_PERCENT_BPS :: u128) = 10000"
  "(ucast HUNDRED_PERCENT_BPS :: u128) = 10000"
  by (simp_all add: HUNDRED_PERCENT_BPS_def)

lemma unat_lt_16: "unat (r :: u16) < 65536"
  using unat_lt_len [of r] by simp

lemma scaled_liquid: "unat (ucast (a :: u64) * 10000 :: u128) = unat a * 10000"
  and scaled_liquid_fits: "unat a * 10000 < 2 ^ 128"
proof -
  show "unat a * 10000 < 2 ^ 128" using unat_lt_64 [of a] by (simp del: unat_lt_64)
  then show "unat (ucast a * 10000 :: u128) = unat a * 10000"
    by (subst unat_mult_fits) (simp_all add: unat_widen)
qed

lemma scaled_total: "unat (ucast (r :: u16) * ucast (a :: u64) :: u128) = unat r * unat a"
  and scaled_total_fits: "unat r * unat a < 2 ^ 128"
proof -
  have "unat r * unat a < 2 ^ 16 * 2 ^ 64"
    using unat_lt_16 [of r] unat_lt_64 [of a] by (intro mult_strict_mono) (simp_all del: unat_lt_64)
  then show "unat r * unat a < 2 ^ 128" by simp
  then show "unat (ucast r * ucast a :: u128) = unat r * unat a"
    by (subst unat_mult_fits) (simp_all add: unat_widen unat_widen16)
qed

abbreviation ratio_of :: "fee_config \<Rightarrow> nat" where
  "ratio_of c \<equiv> unat (liquid_asset_ratio_lt_bps c)"

abbreviation fee_of :: "fee_config \<Rightarrow> nat" where
  "fee_of c \<equiv> unat (fee_bps c)"

lemma bracket_index_eq:
  "bracket_index configs L T = position (\<lambda>c. in_ratio (ratio_of c) (unat T) (unat L)) configs"
  by (simp add: bracket_index_def in_ratio_def word_le_nat_alt scaled_liquid scaled_total)

lemma withdrawal_amount_at_boundary_eq:
  assumes "unat L \<le> unat T" "\<not> in_ratio (unat r) (unat T) (unat L)"
  shows "withdrawal_amount_at_boundary r T L = Ok (of_nat (boundary (unat r) (unat T) (unat L)))"
proof -
  have r: "unat r < 10000" by (rule not_in_ratio_less [OF assms])
  have le: "(ucast r * ucast T :: u128) \<le> ucast L * 10000"
    using assms(2) by (simp add: in_ratio_def word_le_nat_alt scaled_liquid scaled_total)
  have r': "(ucast r :: u128) \<le> 10000" using r by (simp add: word_le_nat_alt unat_widen16)
  have num: "unat (ucast L * 10000 - ucast r * ucast T :: u128) = 10000 * unat L - unat r * unat T"
    using le by (simp only: unat_sub_le scaled_liquid scaled_total)
  have den: "unat (10000 - ucast r :: u128) = 10000 - unat r"
    using r' by (simp add: unat_sub_le unat_widen16)
  then have nz: "(10000 - ucast r :: u128) \<noteq> 0" using r by (metis less_numeral_extra(3) unat_0 zero_less_diff)
  have q: "unat ((ucast L * 10000 - ucast r * ucast T) div (10000 - ucast r) :: u128)
      = boundary (unat r) (unat T) (unat L)"
    by (simp add: unat_div num den boundary_def)
  have "ucast ((ucast L * 10000 - ucast r * ucast T) div (10000 - ucast r) :: u128) =
      (of_nat (boundary (unat r) (unat T) (unat L)) :: u64)"
    by (metis q of_nat_unat)
  then show ?thesis using le r' nz
    by (simp add: withdrawal_amount_at_boundary_def mul_p_def sub_p_def div_p_def checked_mul_def
        checked_sub_def checked_div_def unat_widen unat_widen16 scaled_liquid_fits [simplified]
        scaled_total_fits [simplified])
qed

lemma slice_fee_eq:
  fixes s :: u64
  assumes "fee_of c \<le> 10000"
  shows "mul_p (ucast s :: u128) (ucast (fee_bps c)) = Ok (ucast s * ucast (fee_bps c))"
    and "unat (ucast (u128_div_ceil (ucast s * ucast (fee_bps c)) 10000) :: u64)
      = ceil_div (unat s * fee_of c) 10000"
    and "ceil_div (unat s * fee_of c) 10000 \<le> unat s"
proof -
  show mul: "mul_p (ucast s :: u128) (ucast (fee_bps c)) = Ok (ucast s * ucast (fee_bps c))"
    using scaled_total_fits [of "fee_bps c" s]
    by (simp add: mul_p_def checked_mul_def unat_widen unat_widen16 mult.commute)
  have p: "unat (ucast s * ucast (fee_bps c) :: u128) = unat s * fee_of c"
    using scaled_total [of "fee_bps c" s] by (simp add: mult.commute)
  show le: "ceil_div (unat s * fee_of c) 10000 \<le> unat s"
    using assms by (simp add: ceil_div_le_iff mult.commute)
  let ?p = "ucast s * ucast (fee_bps c) :: u128"
  have "unat ?p div 10000 < 2 ^ 127" using unat_lt_len [of ?p] by simp
  then have "unat (u128_div_ceil ?p 10000) = ceil_div (unat ?p) 10000"
    by (auto simp: u128_div_ceil_def ceil_div_div_mod unat_div unat_mod word_unat_eq_iff [of "?p mod 10000"]
        unat_add_fits)
  then show "unat (ucast (u128_div_ceil ?p 10000) :: u64) = ceil_div (unat s * fee_of c) 10000"
    using le unat_lt_64 [of s] unfolding p by (subst unat_narrow_fits) (simp_all del: unat_lt_64)
qed

section \<open>The reference fee\<close>

text \<open>
  Bracket \<open>i\<close> of the brackets up to \<open>s\<close> (the one of the ratio before the withdrawal)
  covers the amounts from \<open>lower\<close> to \<open>upper\<close>; both are cut at the withdrawal \<open>w\<close>.
\<close>

definition lower_cut :: "fee_config list \<Rightarrow> nat \<Rightarrow> nat \<Rightarrow> nat \<Rightarrow> nat \<Rightarrow> nat \<Rightarrow> nat" where
  "lower_cut cs T L s w i = (if i = s then 0 else min w (boundary (ratio_of (cs ! i)) T L))"

definition upper_cut :: "fee_config list \<Rightarrow> nat \<Rightarrow> nat \<Rightarrow> nat \<Rightarrow> nat \<Rightarrow> nat \<Rightarrow> nat" where
  "upper_cut cs T L s w i = (if i = 0 then w else min w (boundary (ratio_of (cs ! (i - 1))) T L))"

definition bracket_part :: "fee_config list \<Rightarrow> nat \<Rightarrow> nat \<Rightarrow> nat \<Rightarrow> nat \<Rightarrow> nat \<Rightarrow> nat" where
  "bracket_part cs T L s w i = upper_cut cs T L s w i - lower_cut cs T L s w i"

definition part_fee :: "fee_config list \<Rightarrow> nat \<Rightarrow> nat \<Rightarrow> nat \<Rightarrow> nat \<Rightarrow> nat \<Rightarrow> nat" where
  "part_fee cs T L s w i = ceil_div (bracket_part cs T L s w i * fee_of (cs ! i)) 10000"

definition progressive_fee :: "fee_config list \<Rightarrow> nat \<Rightarrow> nat \<Rightarrow> nat \<Rightarrow> nat \<Rightarrow> nat" where
  "progressive_fee cs T L s w = (\<Sum>i\<le> s. part_fee cs T L s w i)"

text \<open>The configurations the program accepts: ascending ratios and fees of at most 100%.\<close>

definition wf_fees :: "fee_config list \<Rightarrow> bool" where
  "wf_fees cs \<longleftrightarrow> sorted (map ratio_of cs) \<and> list_all (\<lambda>c. fee_of c \<le> 10000) cs"

text \<open>The setting of a withdrawal: the bracket \<open>s\<close> the liquid ratio starts in.\<close>

definition starts_in :: "fee_config list \<Rightarrow> nat \<Rightarrow> nat \<Rightarrow> nat \<Rightarrow> bool" where
  "starts_in cs T L s \<longleftrightarrow> wf_fees cs \<and> L \<le> T \<and> position (\<lambda>c. in_ratio (ratio_of c) T L) cs = Some s"

lemma starts_inD:
  assumes "starts_in cs T L s"
  shows "s < length cs" "L \<le> T" "i < s \<Longrightarrow> \<not> in_ratio (ratio_of (cs ! i)) T L"
    "i < s \<Longrightarrow> ratio_of (cs ! i) < 10000" "in_ratio (ratio_of (cs ! s)) T L"
    "i \<le> s \<Longrightarrow> fee_of (cs ! i) \<le> 10000" "i \<le> j \<Longrightarrow> j \<le> s \<Longrightarrow> ratio_of (cs ! i) \<le> ratio_of (cs ! j)"
proof -
  show s: "s < length cs" "L \<le> T" "i < s \<Longrightarrow> \<not> in_ratio (ratio_of (cs ! i)) T L"
    "in_ratio (ratio_of (cs ! s)) T L"
    using assms by (auto simp: starts_in_def position_eq_Some)
  show "i < s \<Longrightarrow> ratio_of (cs ! i) < 10000" using s not_in_ratio_less by blast
  show "i \<le> s \<Longrightarrow> fee_of (cs ! i) \<le> 10000"
    using assms s(1) by (auto simp: starts_in_def wf_fees_def list_all_length)
  have "sorted (map ratio_of cs)" using assms by (simp add: starts_in_def wf_fees_def)
  then show "i \<le> j \<Longrightarrow> j \<le> s \<Longrightarrow> ratio_of (cs ! i) \<le> ratio_of (cs ! j)"
    using s(1) sorted_nth_mono [of "map ratio_of cs" i j] by simp
qed

lemma boundary_order:
  assumes "starts_in cs T L s" "i \<le> j" "j < s"
  shows "boundary (ratio_of (cs ! j)) T L \<le> boundary (ratio_of (cs ! i)) T L"
  using starts_inD [OF assms(1)] assms(2,3) by (intro boundary_antimono) auto

lemma cuts_order:
  assumes "starts_in cs T L s" "i \<le> s"
  shows "lower_cut cs T L s w i \<le> upper_cut cs T L s w i" "upper_cut cs T L s w i \<le> w"
    "0 < i \<Longrightarrow> upper_cut cs T L s w i = lower_cut cs T L s w (i - 1)"
  using boundary_order [OF assms(1), of "i - 1" i] assms(2)
  by (auto simp: lower_cut_def upper_cut_def min_def)

lemma parts_sum:
  assumes "starts_in cs T L s" "k \<le> s"
  shows "(\<Sum>i\<le>k. bracket_part cs T L s w i) = w - lower_cut cs T L s w k"
  using assms(2)
proof (induction k)
  case 0
  then show ?case by (simp add: bracket_part_def upper_cut_def)
next
  case (Suc k)
  then show ?case
    using cuts_order [OF assms(1) Suc.prems, of w] cuts_order(1,2) [OF assms(1), of k w]
    by (simp add: bracket_part_def)
qed

lemma part_fee_le:
  assumes "starts_in cs T L s" "i \<le> s"
  shows "part_fee cs T L s w i \<le> bracket_part cs T L s w i"
  using starts_inD(6) [OF assms] by (simp add: part_fee_def ceil_div_le_iff mult.commute)

lemma progressive_fee_le:
  assumes "starts_in cs T L s"
  shows "progressive_fee cs T L s w \<le> w"
proof -
  have "progressive_fee cs T L s w \<le> (\<Sum>i\<le> s. bracket_part cs T L s w i)"
    unfolding progressive_fee_def using part_fee_le [OF assms] by (intro sum_mono) auto
  also have "\<dots> \<le> w" by (simp add: parts_sum [OF assms])
  finally show ?thesis .
qed

section \<open>The loop computes the reference fee\<close>

text \<open>A withdrawal \<open>w\<close> that ends in bracket \<open>e\<close>.\<close>

definition ends_in :: "fee_config list \<Rightarrow> nat \<Rightarrow> nat \<Rightarrow> nat \<Rightarrow> nat \<Rightarrow> bool" where
  "ends_in cs T L w e \<longleftrightarrow> w < T \<and> position (\<lambda>c. in_ratio (ratio_of c) (T - w) (L - w)) cs = Some e"

lemma ends_before:
  assumes "starts_in cs T L s" "w < T"
  obtains e where "ends_in cs T L w e" "e \<le> s"
proof -
  have "in_ratio (ratio_of (cs ! s)) (T - w) (L - w)"
    using starts_inD(2,5) [OF assms(1)] assms(2) by (intro in_ratio_after)
  then have ex: "\<exists>e. position (\<lambda>c. in_ratio (ratio_of c) (T - w) (L - w)) cs = Some e"
    using starts_inD(1) [OF assms(1)] by (metis nth_mem option.exhaust position_eq_None)
  then obtain e where e: "position (\<lambda>c. in_ratio (ratio_of c) (T - w) (L - w)) cs = Some e" by blast
  then have "e \<le> s"
    using \<open>in_ratio (ratio_of (cs ! s)) (T - w) (L - w)\<close> by (auto simp: position_eq_Some not_less [symmetric])
  with e assms(2) show thesis by (intro that) (simp add: ends_in_def)
qed

lemma ends_in_boundaries:
  assumes st: "starts_in cs T L s" and en: "ends_in cs T L w e"
  shows "e \<le> i \<Longrightarrow> i < s \<Longrightarrow> boundary (ratio_of (cs ! i)) T L \<le> w"
    and "i < e \<Longrightarrow> i < s \<Longrightarrow> w \<le> boundary (ratio_of (cs ! i)) T L"
proof -
  have w: "w < T" and e: "e < length cs" "in_ratio (ratio_of (cs ! e)) (T - w) (L - w)"
    "\<And>i. i < e \<Longrightarrow> \<not> in_ratio (ratio_of (cs ! i)) (T - w) (L - w)"
    using en by (auto simp: ends_in_def position_eq_Some)
  show "boundary (ratio_of (cs ! i)) T L \<le> w" if "e \<le> i" "i < s"
  proof -
    have "boundary (ratio_of (cs ! e)) T L \<le> w"
      using starts_inD [OF st] that w e(2) by (intro boundary_le_after) auto
    then show ?thesis using boundary_order [OF st that] by linarith
  qed
  show "w \<le> boundary (ratio_of (cs ! i)) T L" if "i < e" "i < s"
    using starts_inD [OF st] that w e(3) by (intro boundary_ge_after) auto
qed

lemma ends_in_cuts:
  assumes st: "starts_in cs T L s" and en: "ends_in cs T L w e" and e: "e \<le> s"
  shows "e \<le> i \<Longrightarrow> i \<le> s \<Longrightarrow> upper_cut cs T L s w i = (if i = e then w else boundary (ratio_of (cs ! (i - 1))) T L)"
    and "i < e \<Longrightarrow> part_fee cs T L s w i = 0"
proof -
  note b = ends_in_boundaries [OF st en]
  show "upper_cut cs T L s w i = (if i = e then w else boundary (ratio_of (cs ! (i - 1))) T L)"
    if "e \<le> i" "i \<le> s"
    using b(1) [of "i - 1"] b(2) [of "e - 1"] that by (cases "i = 0"; cases "i = e") (auto simp: upper_cut_def)
  show "part_fee cs T L s w i = 0" if "i < e"
  proof -
    have "lower_cut cs T L s w i = w" using b(2) [of i] that e by (simp add: lower_cut_def)
    moreover have "upper_cut cs T L s w i \<le> w" using cuts_order(2) [OF st] that e by simp
    ultimately show ?thesis by (simp add: part_fee_def bracket_part_def)
  qed
qed

lemma fee_loop_step:
  fixes T L w enter tf :: u64
  assumes st: "starts_in cs (unat T) (unat L) s" and en: "ends_in cs (unat T) (unat L) (unat w) e"
    and i: "e \<le> i" "i \<le> s"
    and enter: "unat enter = lower_cut cs (unat T) (unat L) s (unat w) i"
    and fits: "unat tf + (unat w - unat enter) < 2 ^ 64"
  obtains tf' exit where
    "fee_loop cs T L w e tf enter (i # is) = fee_loop cs T L w e tf' exit is"
    "unat exit = upper_cut cs (unat T) (unat L) s (unat w) i"
    "unat tf' = unat tf + part_fee cs (unat T) (unat L) s (unat w) i"
    "unat tf' + (unat w - unat exit) < 2 ^ 64"
proof -
  let ?up = "upper_cut cs (unat T) (unat L) s (unat w) i" and ?lo = "lower_cut cs (unat T) (unat L) s (unat w) i"
  let ?exit = "of_nat ?up :: u64"
  note D = starts_inD [OF st]
  note cuts = cuts_order [OF st i(2), of "unat w"]
  have up: "unat ?exit = ?up"
    using cuts(2) unat_lt_64 [of w] by (intro unat_of_nat_less) (simp del: unat_lt_64)
  have exit: "(if i = e then Ok w else bindR (unwrap (get cs (i - 1))) (\<lambda>below.
      withdrawal_amount_at_boundary (liquid_asset_ratio_lt_bps below) T L)) = (Ok ?exit :: ('e, u64) res)"
  proof (cases "i = e")
    case True
    then show ?thesis using ends_in_cuts(1) [OF st en _ i] i by simp
  next
    case False
    then have "i - 1 < s" "0 < i" using i by auto
    then show ?thesis
      using D(1,2) D(3) [of "i - 1"] False ends_in_cuts(1) [OF st en _ i] i
      by (simp add: get_def withdrawal_amount_at_boundary_eq)
  qed
  have le: "enter \<le> ?exit" using cuts(1) by (simp add: word_le_nat_alt up enter)
  have part: "unat (?exit - enter) = bracket_part cs (unat T) (unat L) s (unat w) i"
    using le by (simp add: unat_sub_le up enter bracket_part_def)
  have fee: "fee_of (cs ! i) \<le> 10000" by (rule D(6) [OF i(2)])
  note sf = slice_fee_eq [OF fee, of "?exit - enter"]
  let ?sf = "ucast (u128_div_ceil (ucast (?exit - enter) * ucast (fee_bps (cs ! i))) 10000) :: u64"
  have sfn: "unat ?sf = part_fee cs (unat T) (unat L) s (unat w) i"
    using sf(2) by (simp add: part part_fee_def)
  have pf: "part_fee cs (unat T) (unat L) s (unat w) i \<le> ?up - ?lo"
    using part_fee_le [OF st i(2)] by (simp add: bracket_part_def)
  have tot: "unat tf + unat ?sf < 2 ^ 64"
    using fits pf cuts unfolding sfn enter by linarith
  have "fee_loop cs T L w e tf enter (i # is) = fee_loop cs T L w e (tf + ?sf) ?exit is"
    using i D(1) le tot
    by (simp add: exit get_def sub_p_def checked_sub_def sf(1) add_p_def checked_add_def)
  moreover have "unat (tf + ?sf) = unat tf + part_fee cs (unat T) (unat L) s (unat w) i"
    using tot sfn by (simp add: unat_add_fits)
  moreover have "unat (tf + ?sf) + (unat w - unat ?exit) < 2 ^ 64"
    using fits pf cuts unfolding calculation(2) up enter by linarith
  ultimately show thesis using up that by blast
qed

lemma fee_loop_sum:
  fixes T L w enter tf :: u64
  assumes st: "starts_in cs (unat T) (unat L) s" and en: "ends_in cs (unat T) (unat L) (unat w) e"
    and "e \<le> k" "k \<le> s" "unat enter = lower_cut cs (unat T) (unat L) s (unat w) k"
    and "unat tf + (unat w - unat enter) < 2 ^ 64"
  shows "(fee_loop cs T L w e tf enter (rev [e..<Suc k]) :: ('e, u64) res) =
    Ok (of_nat (unat tf + (\<Sum>i = e..k. part_fee cs (unat T) (unat L) s (unat w) i)))"
  using assms(3-)
proof (induction k arbitrary: tf enter rule: dec_induct)
  case base
  obtain tf' exit where
    "(fee_loop cs T L w e tf enter [e] :: ('e, u64) res) = fee_loop cs T L w e tf' exit []"
    "unat tf' = unat tf + part_fee cs (unat T) (unat L) s (unat w) e"
    by (rule fee_loop_step [OF st en order_refl base.prems(1-3), of "[]"])
  moreover have "tf' = of_nat (unat tf')" by simp
  ultimately have "(fee_loop cs T L w e tf enter [e] :: ('e, u64) res) =
    Ok (of_nat (unat tf + part_fee cs (unat T) (unat L) s (unat w) e))"
    by (simp only: fee_loop.simps(1))
  then show ?case by (simp del: fee_loop.simps)
next
  case (step k)
  obtain tf' exit where s:
    "(fee_loop cs T L w e tf enter (Suc k # rev [e..<Suc k]) :: ('e, u64) res) = fee_loop cs T L w e tf' exit (rev [e..<Suc k])"
    "unat exit = upper_cut cs (unat T) (unat L) s (unat w) (Suc k)"
    "unat tf' = unat tf + part_fee cs (unat T) (unat L) s (unat w) (Suc k)"
    "unat tf' + (unat w - unat exit) < 2 ^ 64"
    by (rule fee_loop_step [OF st en _ step.prems(1-3), of "rev [e..<Suc k]"]) (use step.hyps in auto)
  have "unat exit = lower_cut cs (unat T) (unat L) s (unat w) k"
    using cuts_order(3) [OF st step.prems(1)] s(2) by simp
  then have "(fee_loop cs T L w e tf' exit (rev [e..<Suc k]) :: ('e, u64) res) =
    Ok (of_nat (unat tf' + (\<Sum>i = e..k. part_fee cs (unat T) (unat L) s (unat w) i)))"
    using step.prems(1) s(4) by (intro step.IH) auto
  moreover have "rev [e..<Suc (Suc k)] = Suc k # rev [e..<Suc k]" using step.hyps by simp
  ultimately show ?case using step.hyps s by (simp add: add.commute add.left_commute)
qed

text \<open>The whole fee, on every branch, for a pool with at least as many total as liquid assets.\<close>

lemma compute_fee_eq:
  fixes T L w :: u64
  assumes cs: "wf_fees (instant_withdrawal_fee_configs config)" and LT: "L \<le> T"
  shows "(compute_instant_withdrawal_fee config T L w :: ('e, u64 option) res) =
    (let cs = instant_withdrawal_fee_configs config in
     if w = 0 then Ok (Some 0)
     else if T \<le> w then Ok None
     else
       case position (\<lambda>c. in_ratio (ratio_of c) (unat T) (unat L)) cs of
         None \<Rightarrow> Ok None
       | Some s \<Rightarrow>
           if fee_of (cs ! the (position (\<lambda>c. in_ratio (ratio_of c) (unat T - unat w) (unat L - unat w)) cs)) = 10000
           then Ok None
           else Ok (Some (of_nat (progressive_fee cs (unat T) (unat L) s (unat w)))))"
proof (cases "w = 0 \<or> T \<le> w")
  case True
  then show ?thesis
    by (auto simp: compute_instant_withdrawal_fee_def Let_def saturating_sub_def)
next
  case False
  let ?cs = "instant_withdrawal_fee_configs config"
  have w: "w \<noteq> 0" "unat w < unat T" "\<not> T \<le> w" using False by (auto simp: word_le_nat_alt)
  have after: "saturating_sub T w \<noteq> 0" "unat (saturating_sub T w) = unat T - unat w"
    "unat (saturating_sub L w) = unat L - unat w"
    using w(2) by (auto simp: unat_ops word_unat_eq_iff)
  have idx: "bracket_index ?cs (saturating_sub L w) (saturating_sub T w) =
      position (\<lambda>c. in_ratio (ratio_of c) (unat T - unat w) (unat L - unat w)) ?cs"
    by (simp add: bracket_index_eq after)
  have full: "HUNDRED_PERCENT_BPS \<le> ucast (f :: u16) \<longleftrightarrow> 10000 \<le> unat f" for f
    by (simp add: HUNDRED_PERCENT_BPS_def word_le_nat_alt unsigned_ucast_eq take_bit_nat_eq_self
        unat_lt_len [THEN order_less_le_trans])
  show ?thesis
  proof (cases "position (\<lambda>c. in_ratio (ratio_of c) (unat T) (unat L)) ?cs")
    case None
    then have before: "bracket_index ?cs L T = None" by (simp add: bracket_index_eq)
    show ?thesis using w after(1) None
      by (auto simp: compute_instant_withdrawal_fee_def Let_def idx before get_def position_eq_Some
          split: option.splits)
  next
    case (Some s)
    have st: "starts_in ?cs (unat T) (unat L) s"
      using cs LT Some by (simp add: starts_in_def word_le_nat_alt)
    obtain e where en: "ends_in ?cs (unat T) (unat L) (unat w) e" and e: "e \<le> s"
      using ends_before [OF st w(2)] by blast
    have pos: "position (\<lambda>c. in_ratio (ratio_of c) (unat T - unat w) (unat L - unat w)) ?cs = Some e"
      using en by (simp add: ends_in_def)
    have loop: "fee_loop ?cs T L w e 0 0 (rev [e..<Suc s]) =
        (Ok (of_nat (progressive_fee ?cs (unat T) (unat L) s (unat w))) :: ('e, u64) res)"
    proof -
      have "(\<Sum>i = e..s. part_fee ?cs (unat T) (unat L) s (unat w) i) = progressive_fee ?cs (unat T) (unat L) s (unat w)"
        unfolding progressive_fee_def
        by (rule sum.mono_neutral_left) (use ends_in_cuts(2) [OF st en e] in auto)
      then show ?thesis
        using fee_loop_sum [OF st en e order_refl, of 0 0] unat_lt_64 [of w]
        by (simp add: lower_cut_def del: unat_lt_64 upt_Suc)
    qed
    have "10000 \<le> fee_of (?cs ! e) \<longleftrightarrow> fee_of (?cs ! e) = 10000"
      using starts_inD(6) [OF st e] by auto
    moreover have "e < length ?cs" using e starts_inD(1) [OF st] by simp
    moreover have "bracket_index ?cs L T = Some s" using Some by (simp add: bracket_index_eq)
    ultimately show ?thesis using w after(1) Some
      by (simp add: compute_instant_withdrawal_fee_def Let_def idx pos get_def full loop
          del: upt_Suc)
  qed
qed

section \<open>The fee grows with the withdrawal, by at most its growth\<close>

lemma part_mono:
  assumes "starts_in cs T L s" "i \<le> s" "w \<le> w'"
  shows "bracket_part cs T L s w i \<le> bracket_part cs T L s w' i"
  using boundary_order [OF assms(1), of "i - 1" i] assms(2,3)
  by (cases "i = 0"; cases "i = s") (auto simp: bracket_part_def lower_cut_def upper_cut_def min_def)

lemma ceil_div_add_le:
  assumes "f \<le> b" "0 < b"
  shows "ceil_div ((p + k) * f) b \<le> ceil_div (p * f) b + k"
proof -
  have "p * f \<le> b * ceil_div (p * f) b" by (rule ceil_div_ge [OF assms(2)])
  moreover have "k * f \<le> b * k" using assms(1) by (simp add: mult.commute)
  ultimately have "(p + k) * f \<le> b * (ceil_div (p * f) b + k)"
    by (simp only: add_mult_distrib add_mult_distrib2 add_mono)
  then show ?thesis by (simp only: ceil_div_le_iff [OF assms(2)])
qed

lemma progressive_fee_mono:
  assumes "starts_in cs T L s" "w \<le> w'"
  shows "progressive_fee cs T L s w \<le> progressive_fee cs T L s w'"
  unfolding progressive_fee_def part_fee_def
  using part_mono [OF assms(1) _ assms(2)] by (intro sum_mono ceil_div_mono) auto

lemma progressive_fee_lipschitz:
  assumes st: "starts_in cs T L s" and w: "w \<le> w'"
  shows "progressive_fee cs T L s w' + w \<le> progressive_fee cs T L s w + w'"
proof -
  let ?p = "bracket_part cs T L s w" and ?p' = "bracket_part cs T L s w'"
  have "part_fee cs T L s w' i + ?p i \<le> part_fee cs T L s w i + ?p' i" if i: "i \<le> s" for i
  proof -
    obtain k where k: "?p' i = ?p i + k" using part_mono [OF st i w] le_Suc_ex by blast
    then show ?thesis
      using ceil_div_add_le [OF starts_inD(6) [OF st i], of "?p i" k] by (simp add: part_fee_def)
  qed
  then have "(\<Sum>i\<le> s. part_fee cs T L s w' i + ?p i) \<le> (\<Sum>i\<le> s. part_fee cs T L s w i + ?p' i)"
    by (intro sum_mono) auto
  then show ?thesis
    by (simp add: sum.distrib parts_sum [OF st] lower_cut_def progressive_fee_def)
qed

lemma compute_fee_Some:
  fixes T L w f :: u64
  assumes cs: "wf_fees (instant_withdrawal_fee_configs config)" and LT: "L \<le> T"
    and f: "compute_instant_withdrawal_fee config T L w = (Ok (Some f) :: ('e, u64 option) res)" and w: "w \<noteq> 0"
  obtains s where "starts_in (instant_withdrawal_fee_configs config) (unat T) (unat L) s"
    "w < T" "unat f = progressive_fee (instant_withdrawal_fee_configs config) (unat T) (unat L) s (unat w)"
proof -
  let ?cs = "instant_withdrawal_fee_configs config"
  obtain s where s: "position (\<lambda>c. in_ratio (ratio_of c) (unat T) (unat L)) ?cs = Some s"
    "f = of_nat (progressive_fee ?cs (unat T) (unat L) s (unat w))" "w < T"
    using f w by (auto simp: compute_fee_eq [OF cs LT] Let_def not_le split: if_splits option.splits)
  then have st: "starts_in ?cs (unat T) (unat L) s"
    using cs LT by (simp add: starts_in_def word_le_nat_alt)
  have "unat f = progressive_fee ?cs (unat T) (unat L) s (unat w)"
    unfolding s(2) using progressive_fee_le [OF st, of "unat w"] unat_lt_64 [of w]
    by (intro unat_of_nat_less) (simp del: unat_lt_64)
  with st s(3) show thesis by (rule that)
qed

lemma compute_fee_bounds:
  fixes T L w w' f f' :: u64
  assumes cs: "wf_fees (instant_withdrawal_fee_configs config)" and LT: "L \<le> T"
    and f: "compute_instant_withdrawal_fee config T L w = (Ok (Some f) :: ('e, u64 option) res)"
    and f': "compute_instant_withdrawal_fee config T L w' = (Ok (Some f') :: ('e, u64 option) res)"
    and ww: "w \<le> w'"
  shows "f \<le> f' \<and> f' \<le> w' \<and> w - f \<le> w' - f'"
proof (cases "w' = 0")
  case True
  then show ?thesis using f f' ww by (simp add: compute_fee_eq [OF cs LT])
next
  case False
  obtain s where s: "starts_in (instant_withdrawal_fee_configs config) (unat T) (unat L) s"
    "unat f' = progressive_fee (instant_withdrawal_fee_configs config) (unat T) (unat L) s (unat w')"
    by (rule compute_fee_Some [OF cs LT f' False])
  have le': "unat f' \<le> unat w'" unfolding s(2) by (rule progressive_fee_le [OF s(1)])
  show ?thesis
  proof (cases "w = 0")
    case True
    then have "f = 0" using f by (simp add: compute_fee_eq [OF cs LT])
    then show ?thesis using True le' by (simp add: word_le_nat_alt)
  next
    case w: False
    obtain t where t: "starts_in (instant_withdrawal_fee_configs config) (unat T) (unat L) t"
      "unat f = progressive_fee (instant_withdrawal_fee_configs config) (unat T) (unat L) t (unat w)"
      by (rule compute_fee_Some [OF cs LT f w])
    have "t = s" using s(1) t(1) by (simp add: starts_in_def)
    moreover have "unat w \<le> unat w'" using ww by (simp add: word_le_nat_alt)
    ultimately have "unat f \<le> unat f'" "unat f' + unat w \<le> unat f + unat w'"
      using progressive_fee_mono [OF s(1)] progressive_fee_lipschitz [OF s(1)] s(2) t(2) by simp_all
    moreover have "unat f \<le> unat w" unfolding t(2) by (rule progressive_fee_le [OF t(1)])
    ultimately show ?thesis using le' by (auto simp: word_le_nat_alt unat_sub_le)
  qed
qed

section \<open>Properties\<close>

text \<open>
  C5: with ascending ratio thresholds and fees of at most 100%, for a pool with at least
  as many total as liquid assets, the fee computation never panics and returns, on every
  branch, the reference: nothing to pay for no withdrawal, no quote when the whole pool
  is withdrawn, when no bracket holds the starting ratio, or when the last bracket takes
  everything, and otherwise the sum of the rounded-up fees of the brackets crossed.
\<close>

theorem huma_fee_refines:
  fixes T L w :: u64
  assumes "wf_fees (instant_withdrawal_fee_configs config)" "L \<le> T"
  shows "(compute_instant_withdrawal_fee config T L w :: ('e, u64 option) res) =
    (let cs = instant_withdrawal_fee_configs config in
     if w = 0 then Ok (Some 0)
     else if T \<le> w then Ok None
     else
       case position (\<lambda>c. in_ratio (ratio_of c) (unat T) (unat L)) cs of
         None \<Rightarrow> Ok None
       | Some s \<Rightarrow>
           if fee_of (cs ! the (position (\<lambda>c. in_ratio (ratio_of c) (unat T - unat w) (unat L - unat w)) cs)) = 10000
           then Ok None
           else Ok (Some (of_nat (progressive_fee cs (unat T) (unat L) s (unat w)))))"
  by (rule compute_fee_eq [OF assms])

definition sample_fees :: withdrawal_config where
  "sample_fees =
     \<lparr>instant_withdrawal_reserve_limit = 0,
      instant_withdrawal_fee_configs =
        [\<lparr>liquid_asset_ratio_lt_bps = 2500, fee_bps = 500\<rparr>,
         \<lparr>liquid_asset_ratio_lt_bps = 5000, fee_bps = 200\<rparr>,
         \<lparr>liquid_asset_ratio_lt_bps = 10000, fee_bps = 50\<rparr>],
      liquidity_source = Some 1\<rparr>"

lemma sample_fees_wf: "wf_fees (instant_withdrawal_fee_configs sample_fees)"
  by (simp add: wf_fees_def sample_fees_def)

lemma sample_starts: "position (\<lambda>c. in_ratio (ratio_of c) 1000000 600000)
    (instant_withdrawal_fee_configs sample_fees) = Some 2"
  by (simp add: sample_fees_def in_ratio_def)

lemma sample_fee: "progressive_fee (instant_withdrawal_fee_configs sample_fees) 1000000 600000 2 300000 = 3000"
proof -
  have "{..2::nat} = {0, 1, 2}" by auto
  then show ?thesis
    by (simp add: progressive_fee_def part_fee_def bracket_part_def upper_cut_def lower_cut_def boundary_def
        sample_fees_def ceil_div_def)
qed

lemma sample_compute:
  "compute_instant_withdrawal_fee sample_fees 1000000 600000 300000 = (Ok (Some 3000) :: (unit, u64 option) res)"
proof -
  have "the (position (\<lambda>c. in_ratio (ratio_of c) (1000000 - 300000) (600000 - 300000))
      (instant_withdrawal_fee_configs sample_fees)) = 1"
    by (simp add: sample_fees_def in_ratio_def)
  then show ?thesis
    using compute_fee_eq [OF sample_fees_wf, of 600000 1000000 300000] sample_starts sample_fee
    by (simp add: Let_def) (simp add: sample_fees_def)
qed

theorem huma_fee_refines_witness:
  "compute_instant_withdrawal_fee sample_fees 1000000 600000 300000 = (Ok (Some 3000) :: (unit, u64 option) res)"
proof -
  have "the (position (\<lambda>c. in_ratio (ratio_of c) (1000000 - 300000) (600000 - 300000))
      (instant_withdrawal_fee_configs sample_fees)) = 1"
    by (simp add: sample_fees_def in_ratio_def)
  then show ?thesis
    using huma_fee_refines [OF sample_fees_wf, of 600000 1000000 300000] sample_starts sample_fee
    by (simp add: Let_def) (simp add: sample_fees_def)
qed

text \<open>
  Under the same conditions a larger withdrawal pays at least as much, never more than
  itself, and pays out at least as much.
\<close>

theorem huma_fee_monotone:
  fixes T L w w' f f' :: u64
  assumes "wf_fees (instant_withdrawal_fee_configs config)" "L \<le> T"
    and "compute_instant_withdrawal_fee config T L w = (Ok (Some f) :: ('e, u64 option) res)"
    and "compute_instant_withdrawal_fee config T L w' = (Ok (Some f') :: ('e, u64 option) res)"
    and "w \<le> w'"
  shows "f \<le> f' \<and> f' \<le> w' \<and> w - f \<le> w' - f'"
  using assms by (rule compute_fee_bounds)

theorem huma_fee_monotone_witness: "(0::u64) \<le> 3000 \<and> (3000::u64) \<le> 300000 \<and> (0::u64) - 0 \<le> 300000 - 3000"
proof -
  have zero: "compute_instant_withdrawal_fee sample_fees 1000000 600000 0 = (Ok (Some 0) :: (unit, u64 option) res)"
    by (simp add: compute_instant_withdrawal_fee_def)
  show ?thesis
    by (rule huma_fee_monotone [OF sample_fees_wf _ zero sample_compute]) simp_all
qed

end
