(* ===== verification/Huma_Math.thy ===== *)
theory Huma_Math
  imports Huma_Fee
begin

text \<open>
  The pricing functions of \<open>src/huma/math.rs\<close>: shares for a deposit, underlying for an
  instant withdrawal, and the two marginal prices in floating point.
\<close>

definition deposit_price :: "u64 \<Rightarrow> u64 \<Rightarrow> f64" where
  "deposit_price mode_assets mode_supply =
     (if mode_supply = 0 then f_of_nat 1 else f_div (f_of_u64 mode_supply) (f_of_u64 mode_assets))"

text \<open>
  \<open>(a as u128 * b as u128 / c as u128) as u64\<close>: the product cannot overflow, a division by zero
  panics, and the cast keeps the low 64 bits.
\<close>

definition mul_div :: "u64 \<Rightarrow> u64 \<Rightarrow> u64 \<Rightarrow> ('e, u64) res" where
  "mul_div a b c =
     bindR (mul_p (ucast a :: u128) (ucast b)) (\<lambda>product.
     bindR (div_p product (ucast c)) (\<lambda>quotient.
     Ok (ucast quotient)))"

definition liquid_assets :: "u64 \<Rightarrow> u64 \<Rightarrow> u64 \<Rightarrow> u64" where
  "liquid_assets liquid_assets_deployed pool_available_balance total_assets =
     min (saturating_add liquid_assets_deployed pool_available_balance) total_assets"

definition instant_withdraw_price ::
  "u64 \<Rightarrow> u64 \<Rightarrow> u64 \<Rightarrow> u64 \<Rightarrow> u64 \<Rightarrow> u64 \<Rightarrow> withdrawal_config \<Rightarrow> ('e, f64 option) res" where
  "instant_withdraw_price shares mode_assets total_assets mode_supply pool_available_balance
      liquid_assets_deployed config =
     (if mode_supply = 0 then Ok None
      else
        bindR (mul_div shares mode_assets mode_supply) (\<lambda>withdrawal_amount.
        bindR (marginal_fee_bps config total_assets
          (liquid_assets liquid_assets_deployed pool_available_balance total_assets)
          withdrawal_amount) (\<lambda>marginal.
        case marginal of
          None \<Rightarrow> Ok None
        | Some fee \<Rightarrow>
            let gross_rate = f_div (f_of_u64 mode_assets) (f_of_u64 mode_supply);
                keep = f_sub (f_of_nat 1) (f_div (f_of_u16 fee) (f_of_u64 HUNDRED_PERCENT_BPS))
            in Ok (Some (f_mul gross_rate keep)))))"

definition shares_for_deposit :: "u64 \<Rightarrow> u64 \<Rightarrow> u64 \<Rightarrow> ('e, u64 option) res" where
  "shares_for_deposit assets mode_assets mode_supply =
     (if mode_supply = 0 then Ok (Some assets)
      else if mode_assets = 0 then Ok None
      else
        bindR (mul_div assets mode_supply mode_assets) (\<lambda>shares.
        Ok (if shares = 0 then None else Some shares)))"

definition underlying_for_instant_withdraw ::
  "u64 \<Rightarrow> u64 \<Rightarrow> u64 \<Rightarrow> u64 \<Rightarrow> u64 \<Rightarrow> u64 \<Rightarrow> withdrawal_config \<Rightarrow> ('e, u64 option) res" where
  "underlying_for_instant_withdraw shares mode_assets total_assets mode_supply
      pool_available_balance liquid_assets_deployed config =
     (if mode_supply = 0 then Ok None
      else
        bindR (mul_div shares mode_assets mode_supply) (\<lambda>withdrawal_amount.
        bindR (compute_instant_withdrawal_fee config total_assets
          (liquid_assets liquid_assets_deployed pool_available_balance total_assets)
          withdrawal_amount) (\<lambda>fee.
        case fee of
          None \<Rightarrow> Ok None
        | Some fee \<Rightarrow>
            let out = saturating_sub withdrawal_amount fee
            in Ok (if out = 0 then None else Some out))))"

section \<open>Scaling\<close>

text \<open>
  The value of \<open>mul_div\<close> where it does not panic, and the functions above in its terms: their
  guards keep them from the division by zero.
\<close>

definition scale :: "u64 \<Rightarrow> u64 \<Rightarrow> u64 \<Rightarrow> u64" where
  "scale shares assets supply = ucast ((ucast shares * ucast assets :: u128) div ucast supply)"

lemma mul_div_eq: "supply \<noteq> 0 \<Longrightarrow> mul_div shares assets supply = Ok (scale shares assets supply)"
  using mult_u64_fits [of shares assets]
  by (simp add: mul_div_def mul_p_def div_p_def checked_mul_def checked_div_def unat_widen scale_def widen_nonzero)

lemma mul_div_zero: "mul_div shares assets 0 = Panic"
  using mult_u64_fits [of shares assets]
  by (simp add: mul_div_def mul_p_def div_p_def checked_mul_def checked_div_def unat_widen)

definition deposit_shares :: "u64 \<Rightarrow> u64 \<Rightarrow> u64 \<Rightarrow> u64 option" where
  "deposit_shares assets mode_assets mode_supply =
     (if mode_supply = 0 then Some assets
      else if mode_assets = 0 then None
      else
        let shares = scale assets mode_supply mode_assets
        in if shares = 0 then None else Some shares)"

lemma shares_for_deposit_eq [simp]:
  "shares_for_deposit assets mode_assets mode_supply = Ok (deposit_shares assets mode_assets mode_supply)"
  by (simp add: shares_for_deposit_def deposit_shares_def mul_div_eq Let_def)

lemma underlying_scaled:
  "underlying_for_instant_withdraw shares mode_assets total_assets mode_supply
      pool_available_balance liquid_assets_deployed config =
     (if mode_supply = 0 then Ok None
      else
        let withdrawal_amount = scale shares mode_assets mode_supply
        in bindR (compute_instant_withdrawal_fee config total_assets
             (liquid_assets liquid_assets_deployed pool_available_balance total_assets)
             withdrawal_amount) (\<lambda>fee.
           case fee of
             None \<Rightarrow> Ok None
           | Some fee \<Rightarrow>
               let out = saturating_sub withdrawal_amount fee
               in Ok (if out = 0 then None else Some out)))"
  by (simp add: underlying_for_instant_withdraw_def mul_div_eq Let_def)

lemma unat_scale:
  assumes "supply \<noteq> 0" "unat shares * unat assets div unat supply < 2 ^ 64"
  shows "unat (scale shares assets supply) = unat shares * unat assets div unat supply"
  using assms(2) by (simp add: scale_def unat_narrow unat_div unat_mult_widen unat_widen)

lemma liquid_le_total: "liquid_assets d b t \<le> t"
  by (simp add: liquid_assets_def)

lemma scale_0 [simp]: "scale 0 a s = 0"
  by (simp add: scale_def)

section \<open>The marginal fee\<close>

lemma marginal_fee_no_panic: "marginal_fee_bps config T L w \<noteq> Panic"
  by (auto simp: marginal_fee_bps_def Let_def get_def bracket_index_def position_eq_Some bindR_eq_Inl
      split: option.splits)

lemma marginal_fee_Some:
  "marginal_fee_bps config T L w = Ok (Some f) \<longleftrightarrow>
    (\<exists>e. ends_in (instant_withdrawal_fee_configs config) (unat T) (unat L) (unat w) e \<and>
      f = fee_bps (instant_withdrawal_fee_configs config ! e) \<and> unat f < 10000)"
proof -
  let ?cs = "instant_withdrawal_fee_configs config"
  have full: "HUNDRED_PERCENT_BPS \<le> ucast (f :: u16) \<longleftrightarrow> 10000 \<le> unat f" for f
    by (simp add: HUNDRED_PERCENT_BPS_def word_le_nat_alt unsigned_ucast_eq take_bit_nat_eq_self
        unat_lt_len [THEN order_less_le_trans])
  have idx: "bracket_index ?cs (saturating_sub L w) (saturating_sub T w) =
      position (\<lambda>c. in_ratio (ratio_of c) (unat T - unat w) (unat L - unat w)) ?cs"
    by (simp add: bracket_index_eq unat_ops)
  have zero: "saturating_sub T w = 0 \<longleftrightarrow> \<not> unat w < unat T"
    by (simp add: word_unat_eq_iff unat_ops not_less)
  have "e < length ?cs" if "position (\<lambda>c. in_ratio (ratio_of c) (unat T - unat w) (unat L - unat w)) ?cs = Some e" for e
    using that by (simp add: position_eq_Some)
  then show ?thesis
    by (auto simp: marginal_fee_bps_def Let_def idx zero full ends_in_def get_def
        split: option.splits if_splits)
qed

lemma saturating_sub_eq_0: "saturating_sub w f = 0 \<longleftrightarrow> \<not> f < w"
  by (auto simp: word_unat_eq_iff unat_ops word_less_nat_alt)

lemma saturating_sub_less: "f < w \<Longrightarrow> saturating_sub w f = w - f"
  by (simp add: saturating_sub_def order_less_imp_le)

lemma underlying_Some:
  "underlying_for_instant_withdraw shares mode_assets total_assets mode_supply b d config =
      (Ok (Some out) :: ('e, u64 option) res) \<longleftrightarrow>
    mode_supply \<noteq> 0 \<and> (\<exists>fee. compute_instant_withdrawal_fee config total_assets
        (liquid_assets d b total_assets) (scale shares mode_assets mode_supply) = (Ok (Some fee) :: ('e, u64 option) res) \<and>
      fee < scale shares mode_assets mode_supply \<and> out = scale shares mode_assets mode_supply - fee)"
proof (cases "compute_instant_withdrawal_fee config total_assets (liquid_assets d b total_assets)
    (scale shares mode_assets mode_supply) :: ('e, u64 option) res")
  case (Inr f)
  then show ?thesis
    by (cases f) (auto simp: underlying_scaled Let_def saturating_sub_eq_0 saturating_sub_less)
qed (simp add: underlying_scaled Let_def)

text \<open>A withdrawal that is served reaches a bracket whose fee is its marginal fee.\<close>

lemma compute_fee_marginal:
  fixes T L w f :: u64
  assumes cs: "wf_fees (instant_withdrawal_fee_configs config)" and LT: "L \<le> T"
    and f: "compute_instant_withdrawal_fee config T L w = (Ok (Some f) :: ('e, u64 option) res)" and w: "w \<noteq> 0"
  obtains s e where "starts_in (instant_withdrawal_fee_configs config) (unat T) (unat L) s"
    "ends_in (instant_withdrawal_fee_configs config) (unat T) (unat L) (unat w) e" "e \<le> s"
    "unat f = progressive_fee (instant_withdrawal_fee_configs config) (unat T) (unat L) s (unat w)"
    "fee_of (instant_withdrawal_fee_configs config ! e) < 10000"
    "marginal_fee_bps config T L w = (Ok (Some (fee_bps (instant_withdrawal_fee_configs config ! e))) :: ('e, u16 option) res)"
proof -
  let ?cs = "instant_withdrawal_fee_configs config"
  obtain s where st: "starts_in ?cs (unat T) (unat L) s" and wT: "w < T"
    and fee: "unat f = progressive_fee ?cs (unat T) (unat L) s (unat w)"
    by (rule compute_fee_Some [OF cs LT f w])
  obtain e where e: "ends_in ?cs (unat T) (unat L) (unat w) e" "e \<le> s"
    by (rule ends_before [OF st]) (use wT in \<open>simp add: word_less_nat_alt\<close>)
  have "position (\<lambda>c. in_ratio (ratio_of c) (unat T) (unat L)) ?cs = Some s"
    using st by (simp add: starts_in_def)
  then have "fee_of (?cs ! e) \<noteq> 10000"
    using f w wT e(1) by (auto simp: compute_fee_eq [OF cs LT] Let_def ends_in_def split: if_splits)
  then have less: "fee_of (?cs ! e) < 10000" using starts_inD(6) [OF st e(2)] by linarith
  moreover have "marginal_fee_bps config T L w = (Ok (Some (fee_bps (?cs ! e))) :: ('e, u16 option) res)"
    unfolding marginal_fee_Some using e(1) less by blast
  ultimately show thesis using st e fee by (intro that)
qed

lemma ends_in_antimono:
  assumes "ends_in cs T L w e" "ends_in cs T L w' e'" "w \<le> w'" "L \<le> T"
  shows "e' \<le> e"
proof -
  have e: "in_ratio (ratio_of (cs ! e)) (T - w) (L - w)" and w': "w' < T"
    using assms(1,2) by (auto simp: ends_in_def position_eq_Some)
  have "in_ratio (ratio_of (cs ! e)) (T - w - (w' - w)) (L - w - (w' - w))"
    by (rule in_ratio_after) (use assms(3,4) w' e in auto)
  then have "in_ratio (ratio_of (cs ! e)) (T - w') (L - w')" using assms(3) by simp
  then show ?thesis using assms(2) by (auto simp: ends_in_def position_eq_Some not_less [symmetric])
qed

section \<open>Properties of the share conversion\<close>

text \<open>
  A deposit never mints shares worth more than it brings, at the price of the pool
  before it, and a deposit into an empty mode mints one share per atom; a larger deposit
  mints at least as many shares. (The share count fits 64 bits: the code casts it down.)
\<close>

theorem shares_for_deposit_fair:
  assumes "shares_for_deposit assets mode_assets mode_supply = (Ok (Some shares) :: ('e, u64 option) res)"
    and "mode_supply \<noteq> 0 \<longrightarrow> unat assets * unat mode_supply div unat mode_assets < 2 ^ 64"
  shows "shares = (if mode_supply = 0 then assets else of_nat (unat assets * unat mode_supply div unat mode_assets)) \<and>
    (mode_supply \<noteq> 0 \<longrightarrow> 0 < shares \<and> unat shares * unat mode_assets \<le> unat assets * unat mode_supply)"
proof (cases "mode_supply = 0")
  case True
  then show ?thesis using assms(1) by (simp add: deposit_shares_def)
next
  case False
  then have ma: "mode_assets \<noteq> 0" and s: "shares = scale assets mode_supply mode_assets" "shares \<noteq> 0"
    using assms(1) by (auto simp: deposit_shares_def Let_def split: if_splits)
  have n: "unat shares = unat assets * unat mode_supply div unat mode_assets"
    unfolding s(1) using assms(2) False ma by (simp add: unat_scale)
  then have "shares = of_nat (unat assets * unat mode_supply div unat mode_assets)"
    by (metis of_nat_unat ucast_id)
  then show ?thesis using False s(2) n by (simp add: word_greater_zero_iff)
qed

theorem shares_for_deposit_fair_witness:
  "shares_for_deposit 1000 2000 1000 = (Ok (Some 500) :: (unit, u64 option) res) \<and> unat (500 :: u64) * unat (2000 :: u64) \<le> unat (1000 :: u64) * unat (1000 :: u64)"
proof -
  have ok: "shares_for_deposit 1000 2000 1000 = (Ok (Some 500) :: (unit, u64 option) res)"
    by (simp add: deposit_shares_def scale_def Let_def)
  have "unat (500 :: u64) * unat (2000 :: u64) \<le> unat (1000 :: u64) * unat (1000 :: u64)"
    using shares_for_deposit_fair [OF ok] by simp
  with ok show ?thesis by blast
qed

section \<open>Properties of the prices\<close>

lemma quotient_range:
  fixes a b :: u64
  assumes "a \<noteq> 0" "b \<noteq> 0"
  obtains q where "f_div (f_of_u64 a) (f_of_u64 b) = Finite q" "2 powi (- 64) \<le> q" "q \<le> 2 powi 64"
proof -
  obtain x where x: "f_of_u64 a = Finite x" "1 \<le> x" "x \<le> 2 powi 64"
    by (rule f_of_u64_range [of a]) (use assms in auto)
  obtain y where y: "f_of_u64 b = Finite y" "1 \<le> y" "y \<le> 2 powi 64"
    by (rule f_of_u64_range [of b]) (use assms in auto)
  have "2 powi (- 64) * y \<le> 2 powi (- 64) * 2 powi 64"
    using y(3) by (rule mult_left_mono) simp
  also have "\<dots> = (1 :: rat)" by (simp flip: powi_add)
  finally have lo: "2 powi (- 64) \<le> x / y" using x(2) y(2) by (simp add: pos_le_divide_eq)
  have "x / y \<le> x / 1" using x(2) y(2) by (intro divide_left_mono) simp_all
  then have hi: "x / y \<le> 2 powi 64" using x(3) by simp
  show thesis
  proof (rule round64_between [OF _ _ lo hi])
    fix q
    assume "round64 (x / y) = Finite q" "2 powi (- 64) \<le> q" "q \<le> 2 powi 64"
    with x y show thesis by (intro that [of q]) auto
  qed simp_all
qed

text \<open>What is kept after a fee of \<open>f\<close> hundredths of a percent.\<close>

definition keep_of :: "u16 \<Rightarrow> f64" where
  "keep_of f = f_sub (f_of_nat 1) (f_div (f_of_u16 f) (f_of_u64 HUNDRED_PERCENT_BPS))"

lemma keep_of_shape:
  assumes "unat f \<le> unat f'" "unat f' < 10000"
  obtains k k' where "keep_of f = Finite k" "keep_of f' = Finite k'" "2 powi (- 14) \<le> k'" "k' \<le> k" "k \<le> 1"
proof -
  have hundred: "f_of_u64 HUNDRED_PERCENT_BPS = Finite 10000"
    unfolding f_of_u64_def f_of_nat_def HUNDRED_PERCENT_BPS_def using round64_nat [of 10000] by simp
  have exact: "f_of_u16 g = Finite (rat_of_nat (unat g))" if "unat g < 10000" for g
    unfolding f_of_u16_def f_of_nat_def by (rule round64_nat) (use that in simp)
  have top: "round64 (1 - 2 powi (- 14)) = Finite (1 - 2 powi (- 14) :: rat)"
  proof -
    have e: "exponent (1 - 2 powi (- 14) :: rat) \<le> - 14"
    proof -
      have "log2_floor (1 - 2 powi (- 14) :: rat) \<le> log2_floor 1"
        by (intro log2_floor_mono) (simp_all add: power_int_minus)
      also have "log2_floor 1 = 0" by (rule log2_floor_unique) simp_all
      finally show ?thesis by (simp add: exponent_def)
    qed
    have "round_pos (1 - 2 powi (- 14) :: rat) = 1 - 2 powi (- 14)"
      by (rule round_pos_exact [of _ "2 ^ 14 - 1"]) (use e in \<open>simp_all add: power_int_minus\<close>)
    then show ?thesis by (simp add: round64_pos power_int_minus)
  qed
  have q: "\<exists>q. round64 (rat_of_nat (unat g) / 10000) = Finite q \<and> 0 \<le> q \<and> q \<le> 1 - 2 powi (- 14)"
    if "unat g < 10000" for g :: u16
  proof -
    have "rat_of_nat (unat g) \<le> of_nat 9999" using that by (simp only: of_nat_le_iff)
    then have "rat_of_nat (unat g) / 10000 \<le> 1 - 2 powi (- 14)" by (simp add: power_int_minus del: of_nat_unat)
    from round64_mono [OF this] have "f_le (round64 (rat_of_nat (unat g) / 10000)) (Finite (1 - 2 powi (- 14)))"
      by (simp only: top)
    moreover have "f_le (Finite 0) (round64 (rat_of_nat (unat g) / 10000))"
      by (rule round64_nonneg) (simp del: of_nat_unat)
    ultimately show ?thesis by (cases "round64 (rat_of_nat (unat g) / 10000)") auto
  qed
  obtain q where q1: "round64 (rat_of_nat (unat f) / 10000) = Finite q" "0 \<le> q" "q \<le> 1 - 2 powi (- 14)"
    using q assms by (meson le_less_trans)
  obtain q' where q2: "round64 (rat_of_nat (unat f') / 10000) = Finite q'" "0 \<le> q'" "q' \<le> 1 - 2 powi (- 14)"
    using q assms by blast
  have "rat_of_nat (unat f) \<le> rat_of_nat (unat f')" using assms(1) by (simp only: of_nat_le_iff)
  then have qq: "q \<le> q'"
    using round64_mono_Finite [OF q1(1) q2(1)] by (simp add: divide_right_mono del: of_nat_unat)
  have lo: "2 powi (- 14) \<le> 1 - q" "2 powi (- 14) \<le> 1 - q'" and hi: "1 - q \<le> 2 powi 0" "1 - q' \<le> 2 powi 0"
    using q1 q2 by simp_all
  obtain k where k: "round64 (1 - q) = Finite k" "2 powi (- 14) \<le> k" "k \<le> 2 powi 0"
    by (rule round64_between [OF _ _ lo(1) hi(1)]) simp_all
  obtain k' where k': "round64 (1 - q') = Finite k'" "2 powi (- 14) \<le> k'" "k' \<le> 2 powi 0"
    by (rule round64_between [OF _ _ lo(2) hi(2)]) simp_all
  have "k' \<le> k" by (rule round64_mono_Finite [OF k'(1) k(1)]) (use qq in simp)
  moreover have "keep_of f = Finite k" "keep_of f' = Finite k'"
    using assms q1(1) q2(1) k(1) k'(1)
    by (simp_all add: keep_of_def f_sub_def f_of_nat_1 exact hundred del: of_nat_unat One_nat_def)
  ultimately show thesis using k k' that by simp
qed

text \<open>Lower liquid ratios pay higher fees.\<close>

definition fees_descend :: "fee_config list \<Rightarrow> bool" where
  "fees_descend cs = sorted_wrt (\<lambda>a b. fee_of b \<le> fee_of a) cs"

lemma marginal_fee_mono:
  assumes "fees_descend (instant_withdrawal_fee_configs config)" "L \<le> T" "w \<le> w'"
    and "marginal_fee_bps config T L w = (Ok (Some f) :: ('e, u16 option) res)"
    and "marginal_fee_bps config T L w' = (Ok (Some f') :: ('e, u16 option) res)"
  shows "unat f \<le> unat f'" "unat f' < 10000"
proof -
  let ?cs = "instant_withdrawal_fee_configs config"
  obtain e where e: "ends_in ?cs (unat T) (unat L) (unat w) e" "f = fee_bps (?cs ! e)"
    using assms(4) unfolding marginal_fee_Some by blast
  obtain e' where e': "ends_in ?cs (unat T) (unat L) (unat w') e'" "f' = fee_bps (?cs ! e')" "unat f' < 10000"
    using assms(5) unfolding marginal_fee_Some by blast
  have "e' \<le> e" by (rule ends_in_antimono [OF e(1) e'(1)]) (use assms(2,3) in \<open>simp_all add: word_le_nat_alt\<close>)
  moreover have "e < length ?cs" using e(1) by (simp add: ends_in_def position_eq_Some)
  ultimately show "unat f \<le> unat f'" using assms(1) e(2) e'(2)
    by (cases "e' = e") (auto simp: fees_descend_def sorted_wrt_iff_nth_less)
  show "unat f' < 10000" by (rule e'(3))
qed

lemma instant_withdraw_price_eq:
  "(instant_withdraw_price shares mode_assets total_assets mode_supply b d config :: ('e, f64 option) res) =
    (if mode_supply = 0 then Ok None
     else bindR (marginal_fee_bps config total_assets (liquid_assets d b total_assets)
         (scale shares mode_assets mode_supply))
       (\<lambda>f. Ok (map_option (\<lambda>f. f_mul (f_div (f_of_u64 mode_assets) (f_of_u64 mode_supply)) (keep_of f)) f)))"
  by (cases "marginal_fee_bps config total_assets (liquid_assets d b total_assets)
      (scale shares mode_assets mode_supply) :: ('e, u16 option) res")
    (auto simp: instant_withdraw_price_def mul_div_eq keep_of_def Let_def split: option.splits)

text \<open>
  With fees that rise as the liquid ratio falls, the marginal price of an instant
  withdrawal is, in floating point, a finite positive number that never rises with the
  number of shares. (The larger withdrawal amount fits 64 bits: the code casts it down.)
\<close>

theorem instant_withdraw_price_positive_decreasing:
  assumes "fees_descend (instant_withdrawal_fee_configs config)" "mode_assets \<noteq> 0" "shares \<le> shares'"
    and "unat shares' * unat mode_assets div unat mode_supply < 2 ^ 64"
    and p: "instant_withdraw_price shares mode_assets total_assets mode_supply b d config = (Ok (Some p) :: ('e, f64 option) res)"
    and p': "instant_withdraw_price shares' mode_assets total_assets mode_supply b d config = (Ok (Some p') :: ('e, f64 option) res)"
  shows "\<exists>x x'. p = Finite x \<and> p' = Finite x' \<and> 0 < x' \<and> x' \<le> x"
proof -
  let ?w = "scale shares mode_assets mode_supply" and ?w' = "scale shares' mode_assets mode_supply"
  let ?L = "liquid_assets d b total_assets" and ?g = "f_div (f_of_u64 mode_assets) (f_of_u64 mode_supply)"
  have ms: "mode_supply \<noteq> 0" using p by (auto simp: instant_withdraw_price_eq)
  obtain f where f: "marginal_fee_bps config total_assets ?L ?w = (Ok (Some f) :: ('e, u16 option) res)" "p = f_mul ?g (keep_of f)"
    using p ms by (auto simp: instant_withdraw_price_eq res_inv)
  obtain f' where f': "marginal_fee_bps config total_assets ?L ?w' = (Ok (Some f') :: ('e, u16 option) res)" "p' = f_mul ?g (keep_of f')"
    using p' ms by (auto simp: instant_withdraw_price_eq res_inv)
  have le: "unat shares * unat mode_assets div unat mode_supply \<le> unat shares' * unat mode_assets div unat mode_supply"
    using assms(3) by (intro div_le_mono mult_le_mono1) (simp add: word_le_nat_alt)
  have "?w \<le> ?w'"
    unfolding word_le_nat_alt using le assms(4) ms by (subst (1 2) unat_scale) auto
  note mono = marginal_fee_mono [OF assms(1) liquid_le_total this f(1) f'(1)]
  obtain k k' where k: "keep_of f = Finite k" "keep_of f' = Finite k'" "2 powi (- 14) \<le> k'" "k' \<le> k" "k \<le> 1"
    by (rule keep_of_shape [OF mono])
  obtain g where g: "?g = Finite g" "2 powi (- 64) \<le> g" "g \<le> 2 powi 64"
    by (rule quotient_range [OF assms(2) ms])
  have g0: "0 < g" using g(2) powi_pos [of "- 64"] by linarith
  have k0: "0 < k'" using k(3) powi_pos [of "- 14"] by linarith
  have bounds: "2 powi (- 78) \<le> g * h" "g * h \<le> 2 powi 64" if "k' \<le> h" "h \<le> 1" for h
  proof -
    have "2 powi (- 64) * 2 powi (- 14) \<le> g * h"
      using g(2) k(3) that g0 by (intro mult_mono) auto
    then show "2 powi (- 78) \<le> g * h" by (simp flip: powi_add)
    have "g * h \<le> g * 1" using that g0 by (intro mult_left_mono) auto
    then show "g * h \<le> 2 powi 64" using g(3) by linarith
  qed
  obtain x where x: "round64 (g * k) = Finite x"
    by (rule round64_between [OF _ _ bounds [OF k(4,5)]]) simp_all
  obtain x' where x': "round64 (g * k') = Finite x'" "2 powi (- 78) \<le> x'"
    by (rule round64_between [OF _ _ bounds [OF order_refl order_trans [OF k(4,5)]]]) simp_all
  have "x' \<le> x" by (rule round64_mono_Finite [OF x'(1) x]) (use k(4) g0 in simp)
  moreover have "0 < x'" using x'(2) powi_pos [of "- 78"] by linarith
  ultimately show ?thesis using f(2) f'(2) k g(1) x x' by simp
qed

lemma sample_price:
  "(instant_withdraw_price 10000 1000000 1000000 1000000 600000 0 sample_fees :: (unit, f64 option) res) =
    Ok (Some (f_mul (f_div (f_of_u64 1000000) (f_of_u64 1000000)) (keep_of 50)))"
  "(instant_withdraw_price 300000 1000000 1000000 1000000 600000 0 sample_fees :: (unit, f64 option) res) =
    Ok (Some (f_mul (f_div (f_of_u64 1000000) (f_of_u64 1000000)) (keep_of 200)))"
proof -
  have L: "liquid_assets 0 600000 1000000 = 600000"
    by (simp add: liquid_assets_def saturating_add_def)
  have w: "scale 10000 1000000 1000000 = 10000" "scale 300000 1000000 1000000 = 300000"
    by (simp_all add: scale_def)
  have e: "ends_in (instant_withdrawal_fee_configs sample_fees) 1000000 600000 10000 2"
    "ends_in (instant_withdrawal_fee_configs sample_fees) 1000000 600000 300000 1"
    by (simp_all add: ends_in_def in_ratio_def sample_fees_def)
  have "marginal_fee_bps sample_fees 1000000 600000 10000 = (Ok (Some 50) :: (unit, u16 option) res)"
    unfolding marginal_fee_Some by (rule exI [of _ 2]) (use e(1) in \<open>simp add: sample_fees_def\<close>)
  moreover have "marginal_fee_bps sample_fees 1000000 600000 300000 = (Ok (Some 200) :: (unit, u16 option) res)"
    unfolding marginal_fee_Some by (rule exI [of _ 1]) (use e(2) in \<open>simp add: sample_fees_def\<close>)
  ultimately show "(instant_withdraw_price 10000 1000000 1000000 1000000 600000 0 sample_fees :: (unit, f64 option) res) =
      Ok (Some (f_mul (f_div (f_of_u64 1000000) (f_of_u64 1000000)) (keep_of 50)))"
    "(instant_withdraw_price 300000 1000000 1000000 1000000 600000 0 sample_fees :: (unit, f64 option) res) =
      Ok (Some (f_mul (f_div (f_of_u64 1000000) (f_of_u64 1000000)) (keep_of 200)))"
    by (simp_all add: instant_withdraw_price_eq L w)
qed

theorem instant_withdraw_price_positive_decreasing_witness:
  "\<exists>x x'. f_mul (f_div (f_of_u64 1000000) (f_of_u64 1000000)) (keep_of 50) = Finite x \<and>
    f_mul (f_div (f_of_u64 1000000) (f_of_u64 1000000)) (keep_of 200) = Finite x' \<and> 0 < x' \<and> x' \<le> x"
  by (rule instant_withdraw_price_positive_decreasing [OF _ _ _ _ sample_price])
    (simp_all add: fees_descend_def sample_fees_def)

end
