(* ===== verification/Huma_Strategy.thy ===== *)
theory Huma_Strategy
  imports Huma_State Account_Cache
begin

text \<open>
  The lending strategies behind an instant withdrawal (\<open>src/huma/strategy\<close>): JupLend and
  KaminoLend, each with its addresses, its update from the account cache and the accounts
  it adds to the instruction, and the \<open>Strategy\<close> sum that dispatches to them. What the
  venue relies on is the locale \<open>lending_strategy\<close>.
\<close>

section \<open>Reading the answer of the cache\<close>

text \<open>\<open>accounts.try_into()\<close> to an array of known length, and an account that must exist.\<close>

definition to_array :: "nat \<Rightarrow> 'a list \<Rightarrow> (venue_error, 'a list) res" where
  "to_array n xs = (if length xs = n then Ok xs else Err FailedToFetchMultipleAccountData)"

definition found :: "account option list \<Rightarrow> nat \<Rightarrow> pubkey \<Rightarrow> (venue_error, account) res" where
  "found accounts i key = ok_or (accounts ! i) (NoAccountFound (EPubkey key))"

lemma to_array_simps [simp]:
  "to_array n xs = Inr ys \<longleftrightarrow> length xs = n \<and> ys = xs" "to_array n xs \<noteq> Panic"
  by (auto simp: to_array_def)

lemma found_simps [simp]: "found as i k = Inr a \<longleftrightarrow> as ! i = Some a" "found as i k \<noteq> Panic"
  by (auto simp: found_def res_inv)

section \<open>JupLend (\<open>jup_lend.rs\<close>)\<close>

definition EXCHANGE_PRICES_PRECISION :: u128 where
  "EXCHANGE_PRICES_PRECISION = 1000000000000"

definition derive_f_token_mint :: "'x ext_scheme \<Rightarrow> pubkey \<Rightarrow> pubkey" where
  "derive_f_token_mint X liquidity_mint =
     find_pda X [ascii ''f_token_mint'', key_bytes liquidity_mint] JUP_LENDING_PROGRAM_ID"

definition derive_lending_admin :: "'x ext_scheme \<Rightarrow> pubkey" where
  "derive_lending_admin X = find_pda X [ascii ''lending_admin''] JUP_LENDING_PROGRAM_ID"

definition derive_supply_token_reserves_liquidity :: "'x ext_scheme \<Rightarrow> pubkey \<Rightarrow> pubkey" where
  "derive_supply_token_reserves_liquidity X liquidity_mint =
     find_pda X [ascii ''reserve'', key_bytes liquidity_mint] JUP_LIQUIDITY_PROGRAM_ID"

definition derive_lending_supply_position_on_liquidity ::
  "'x ext_scheme \<Rightarrow> pubkey \<Rightarrow> pubkey \<Rightarrow> pubkey" where
  "derive_lending_supply_position_on_liquidity X liquidity_mint lending_pda =
     find_pda X [ascii ''user_supply_position'', key_bytes liquidity_mint, key_bytes lending_pda]
       JUP_LIQUIDITY_PROGRAM_ID"

definition derive_rate_model :: "'x ext_scheme \<Rightarrow> pubkey \<Rightarrow> pubkey" where
  "derive_rate_model X liquidity_mint =
     find_pda X [ascii ''rate_model'', key_bytes liquidity_mint] JUP_LIQUIDITY_PROGRAM_ID"

definition derive_liquidity :: "'x ext_scheme \<Rightarrow> pubkey" where
  "derive_liquidity X = find_pda X [ascii ''liquidity''] JUP_LIQUIDITY_PROGRAM_ID"

definition derive_rewards_rate_model :: "'x ext_scheme \<Rightarrow> pubkey \<Rightarrow> pubkey" where
  "derive_rewards_rate_model X liquidity_mint =
     find_pda X [ascii ''lending_rewards_rate_model'', key_bytes liquidity_mint] JUP_LRRM_PROGRAM_ID"

record jup_lend =
  jl_lending :: pubkey
  jl_liquidity_mint :: pubkey
  jl_reserve_key :: pubkey
  jl_position_key :: pubkey
  jl_f_token_mint :: pubkey
  jl_owner_f_token_ata :: pubkey
  jl_available_liquidity :: u64

definition jup_lend_new :: "'x ext_scheme \<Rightarrow> pubkey \<Rightarrow> pubkey \<Rightarrow> pubkey \<Rightarrow> jup_lend" where
  "jup_lend_new X lending liquidity_mint pool_authority =
     (let f_token_mint = derive_f_token_mint X liquidity_mint in
      \<lparr>jl_lending = lending,
       jl_liquidity_mint = liquidity_mint,
       jl_reserve_key = derive_supply_token_reserves_liquidity X liquidity_mint,
       jl_position_key = derive_lending_supply_position_on_liquidity X liquidity_mint lending,
       jl_f_token_mint = f_token_mint,
       jl_owner_f_token_ata = ata_with_program X pool_authority f_token_mint SPL_TOKEN_PROGRAM_ID,
       jl_available_liquidity = 0\<rparr>)"

definition jup_required_pubkeys :: "jup_lend \<Rightarrow> pubkey list" where
  "jup_required_pubkeys s = [jl_reserve_key s, jl_owner_f_token_ata s]"

text \<open>The product of two 64-bit numbers fits 128 bits; the cast down truncates.\<close>

definition jup_redemption_value :: "u64 \<Rightarrow> token_reserve \<Rightarrow> u64" where
  "jup_redemption_value f_token_balance reserve =
     ucast ((ucast f_token_balance * ucast (tr_supply_exchange_price reserve) :: u128)
       div EXCHANGE_PRICES_PRECISION)"

definition jup_vault_liquid :: "token_reserve \<Rightarrow> u64" where
  "jup_vault_liquid reserve =
     saturating_sub
       (saturating_add (tr_total_supply_with_interest reserve) (tr_total_supply_interest_free reserve))
       (saturating_add (tr_total_borrow_with_interest reserve) (tr_total_borrow_interest_free reserve))"

definition jup_update ::
  "'x huma_ext_scheme \<Rightarrow> ('c \<Rightarrow> pubkey list \<Rightarrow> (account_cache_error, account option list) res \<times> 'c)
    \<Rightarrow> (jup_lend \<times> 'c, venue_error, unit) stateful" where
  "jup_update X fetch =
     bindS getS (\<lambda>s. let self = fst s in
     bindS (fetchS fetch [jl_reserve_key self, jl_owner_f_token_ata self]) (\<lambda>accounts.
     bindS (liftS (to_array 2 accounts)) (\<lambda>accounts.
     bindS (liftS (found accounts 0 (jl_reserve_key self))) (\<lambda>reserve_account.
     bindS (liftS (found accounts 1 (jl_owner_f_token_ata self))) (\<lambda>f_token_account.
     bindS (liftS (decode_anchor_account X (decode_token_reserve X) ''TokenReserve''
       (acc_data reserve_account))) (\<lambda>reserve.
     bindS (liftS (read_token_account_amount X (acc_data f_token_account))) (\<lambda>f_token_balance.
     venueS (\<lambda>v. v\<lparr>jl_available_liquidity :=
       min (jup_vault_liquid reserve) (jup_redemption_value f_token_balance reserve)\<rparr>))))))))"

definition jup_remaining_accounts :: "'x ext_scheme \<Rightarrow> jup_lend \<Rightarrow> pubkey \<Rightarrow> account_meta list" where
  "jup_remaining_accounts X s underlying_token_program =
     (let liquidity_mint = jl_liquidity_mint s;
          liquidity = derive_liquidity X;
          vault = ata_with_program X liquidity liquidity_mint underlying_token_program
      in [meta_new (jl_owner_f_token_ata s) False,
          meta_readonly (derive_lending_admin X) False,
          meta_new (jl_lending s) False,
          meta_new (jl_f_token_mint s) False,
          meta_new (jl_reserve_key s) False,
          meta_new (jl_position_key s) False,
          meta_readonly (derive_rate_model X liquidity_mint) False,
          meta_new vault False,
          meta_new liquidity False,
          meta_new JUP_LIQUIDITY_PROGRAM_ID False,
          meta_readonly (derive_rewards_rate_model X liquidity_mint) False,
          meta_readonly ASSOCIATED_TOKEN_PROGRAM_ID False,
          meta_readonly SYSTEM_PROGRAM_ID False,
          meta_readonly JUP_LENDING_PROGRAM_ID False])"

definition jup_lookup_table_keys :: "jup_lend \<Rightarrow> pubkey list" where
  "jup_lookup_table_keys s =
     [jl_lending s, jl_reserve_key s, jl_position_key s,
      JUP_LENDING_PROGRAM_ID, JUP_LIQUIDITY_PROGRAM_ID, JUP_LRRM_PROGRAM_ID]"

section \<open>KaminoLend (\<open>kamino_lend.rs\<close>)\<close>

definition derive_lending_market_authority :: "'x ext_scheme \<Rightarrow> pubkey \<Rightarrow> pubkey" where
  "derive_lending_market_authority X lending_market =
     find_pda X [ascii ''lma'', key_bytes lending_market] KLEND_PROGRAM_ID"

definition derive_obligation :: "'x ext_scheme \<Rightarrow> pubkey \<Rightarrow> pubkey \<Rightarrow> pubkey" where
  "derive_obligation X pool_authority lending_market =
     find_pda X [[0], [0], key_bytes pool_authority, key_bytes lending_market,
       key_bytes default_pubkey, key_bytes default_pubkey] KLEND_PROGRAM_ID"

definition derive_obligation_farm_user_state :: "'x ext_scheme \<Rightarrow> pubkey \<Rightarrow> pubkey \<Rightarrow> pubkey" where
  "derive_obligation_farm_user_state X farm_state obligation =
     find_pda X [ascii ''user'', key_bytes farm_state, key_bytes obligation] KFARMS_PROGRAM_ID"

record kamino_lend =
  kl_reserve :: pubkey
  kl_pool_authority :: pubkey
  kl_lending_market :: pubkey
  kl_obligation :: pubkey
  kl_reserve_collateral_mint :: pubkey
  kl_reserve_collateral_supply :: pubkey
  kl_reserve_liquidity_supply :: pubkey
  kl_farm_state :: "pubkey option"
  kl_obligation_farm_user_state :: "pubkey option"
  kl_available_liquidity :: u64

definition kamino_lend_new :: "pubkey \<Rightarrow> pubkey \<Rightarrow> kamino_lend" where
  "kamino_lend_new reserve pool_authority =
     \<lparr>kl_reserve = reserve,
      kl_pool_authority = pool_authority,
      kl_lending_market = default_pubkey,
      kl_obligation = default_pubkey,
      kl_reserve_collateral_mint = default_pubkey,
      kl_reserve_collateral_supply = default_pubkey,
      kl_reserve_liquidity_supply = default_pubkey,
      kl_farm_state = None,
      kl_obligation_farm_user_state = None,
      kl_available_liquidity = 0\<rparr>"

definition kamino_required_pubkeys :: "kamino_lend \<Rightarrow> pubkey list" where
  "kamino_required_pubkeys s =
     kl_reserve s # (if kl_obligation s \<noteq> default_pubkey then [kl_obligation s] else [])"

text \<open>The fields the update copies from the reserve account before its second round.\<close>

definition kamino_read_reserve :: "'x ext_scheme \<Rightarrow> klend_reserve \<Rightarrow> kamino_lend \<Rightarrow> kamino_lend" where
  "kamino_read_reserve X reserve s =
     (let obligation = derive_obligation X (kl_pool_authority s) (kr_lending_market reserve);
          farm = kr_farm_collateral reserve
      in s\<lparr>kl_lending_market := kr_lending_market reserve,
          kl_reserve_collateral_mint := kr_collateral_mint reserve,
          kl_reserve_collateral_supply := kr_collateral_supply_vault reserve,
          kl_reserve_liquidity_supply := kr_liquidity_supply_vault reserve,
          kl_obligation := obligation,
          kl_farm_state := (if farm \<noteq> default_pubkey then Some farm else None),
          kl_obligation_farm_user_state :=
            (if farm \<noteq> default_pubkey then Some (derive_obligation_farm_user_state X farm obligation)
             else None)\<rparr>)"

definition kamino_total_supply :: "klend_reserve \<Rightarrow> ('e, u128) res" where
  "kamino_total_supply reserve =
     add_p (ucast (kr_available_liquidity reserve)) (drop_bit KLEND_FRACTION_BITS (kr_borrowed_amount reserve))"

definition kamino_deposited :: "pubkey \<Rightarrow> klend_deposit list \<Rightarrow> u64" where
  "kamino_deposited reserve deposits =
     (case List.find (\<lambda>d. kd_deposit_reserve d = reserve) deposits of
        Some d \<Rightarrow> kd_deposited_amount d
      | None \<Rightarrow> 0)"

definition kamino_redemption_value :: "u64 \<Rightarrow> u128 \<Rightarrow> u64 \<Rightarrow> ('e, u64) res" where
  "kamino_redemption_value deposited_collateral total_supply_underlying total_collateral =
     (if total_collateral = 0 then Ok 0
      else
        bindR (mul_p (ucast deposited_collateral) total_supply_underlying) (\<lambda>product.
        bindR (div_p product (ucast total_collateral)) (\<lambda>quotient.
        Ok (ucast quotient))))"

definition klend_decode :: "(u8 list \<Rightarrow> string + 'a) \<Rightarrow> string \<Rightarrow> account \<Rightarrow> (venue_error, 'a) res" where
  "klend_decode decode what account =
     (case decode (acc_data account) of
        Inl e \<Rightarrow> Err (decode_failed (''KLend '' @ what @ '': '' @ e))
      | Inr a \<Rightarrow> Ok a)"

definition kamino_update ::
  "'x huma_ext_scheme \<Rightarrow> ('c \<Rightarrow> pubkey list \<Rightarrow> (account_cache_error, account option list) res \<times> 'c)
    \<Rightarrow> (kamino_lend \<times> 'c, venue_error, unit) stateful" where
  "kamino_update X fetch =
     bindS getS (\<lambda>s. let key = kl_reserve (fst s) in
     bindS (fetchS fetch [key]) (\<lambda>accounts.
     bindS (liftS (to_array 1 accounts)) (\<lambda>accounts.
     bindS (liftS (found accounts 0 key)) (\<lambda>reserve_account.
     bindS (liftS (klend_decode (decode_klend_reserve X) ''reserve'' reserve_account)) (\<lambda>reserve.
     bindS (venueS (kamino_read_reserve X reserve)) (\<lambda>_.
     bindS (liftS (kamino_total_supply reserve)) (\<lambda>total_supply_underlying.
     bindS getS (\<lambda>s.
     bindS (fetchS fetch [kl_obligation (fst s)]) (\<lambda>accounts.
     bindS (liftS (to_array 1 accounts)) (\<lambda>accounts.
     bindS (liftS (case accounts ! 0 of
         None \<Rightarrow> Ok 0
       | Some account \<Rightarrow>
           bindR (klend_decode (decode_klend_obligation X) ''obligation'' account) (\<lambda>deposits.
             Ok (kamino_deposited key deposits)))) (\<lambda>deposited_collateral.
     bindS (liftS (kamino_redemption_value deposited_collateral total_supply_underlying
       (kr_collateral_total_supply reserve))) (\<lambda>redemption_value.
     venueS (\<lambda>v. v\<lparr>kl_available_liquidity := min (kr_available_liquidity reserve) redemption_value\<rparr>)))))))))))))"

definition kamino_remaining_accounts :: "'x ext_scheme \<Rightarrow> kamino_lend \<Rightarrow> account_meta list" where
  "kamino_remaining_accounts X s =
     [meta_new (kl_reserve s) False,
      meta_readonly (kl_lending_market s) False,
      meta_readonly (derive_lending_market_authority X (kl_lending_market s)) False,
      meta_new (kl_obligation s) False,
      meta_new (kl_reserve_collateral_mint s) False,
      meta_new (kl_reserve_collateral_supply s) False,
      meta_new (kl_reserve_liquidity_supply s) False,
      meta_readonly SPL_TOKEN_PROGRAM_ID False,
      meta_readonly SYSVAR_INSTRUCTIONS_ID False,
      meta_readonly KFARMS_PROGRAM_ID False] @
     (case (kl_farm_state s, kl_obligation_farm_user_state s) of
        (Some farm_state, Some user_state) \<Rightarrow> [meta_new user_state False, meta_new farm_state False]
      | _ \<Rightarrow> []) @
     [meta_readonly KLEND_PROGRAM_ID False]"

definition option_list :: "'a option \<Rightarrow> 'a list" where
  "option_list x = (case x of None \<Rightarrow> [] | Some a \<Rightarrow> [a])"

definition kamino_lookup_table_keys :: "kamino_lend \<Rightarrow> pubkey list" where
  "kamino_lookup_table_keys s =
     [kl_reserve s, kl_lending_market s, kl_obligation s, kl_reserve_collateral_mint s,
      kl_reserve_collateral_supply s, kl_reserve_liquidity_supply s, KLEND_PROGRAM_ID, KFARMS_PROGRAM_ID] @
     option_list (kl_farm_state s) @ option_list (kl_obligation_farm_user_state s)"

section \<open>The strategy of a deployment (\<open>strategy/mod.rs\<close>)\<close>

datatype strategy = JupLend jup_lend | KaminoLend kamino_lend

fun strategy_new ::
  "'x ext_scheme \<Rightarrow> deployment_strategy_type \<Rightarrow> pubkey \<Rightarrow> pubkey \<Rightarrow> pubkey \<Rightarrow> (venue_error, strategy) res" where
  "strategy_new X JupLendType target underlying_mint pool_authority =
     Ok (JupLend (jup_lend_new X target underlying_mint pool_authority))"
| "strategy_new X KaminoLendType target underlying_mint pool_authority =
     Ok (KaminoLend (kamino_lend_new target pool_authority))"
| "strategy_new X Manual target underlying_mint pool_authority =
     Err (UnsupportedVenue (EStaticStr ''manual strategy is not routable''))"

definition from_deployment_config ::
  "'x ext_scheme \<Rightarrow> deployment_config \<Rightarrow> pubkey \<Rightarrow> pubkey \<Rightarrow> (venue_error, strategy) res" where
  "from_deployment_config X d underlying_mint pool_authority =
     strategy_new X (dc_strategy_type d) (dc_target_key d) underlying_mint pool_authority"

fun strategy_required_pubkeys :: "strategy \<Rightarrow> pubkey list" where
  "strategy_required_pubkeys (JupLend s) = jup_required_pubkeys s"
| "strategy_required_pubkeys (KaminoLend s) = kamino_required_pubkeys s"

text \<open>A method of a part of the state: the part is put back, also after an error.\<close>

definition withinS ::
  "('w \<Rightarrow> 'v) \<Rightarrow> ('w \<times> 'c, 'e, 'a) stateful \<Rightarrow> 'w \<Rightarrow> 'c \<Rightarrow> ('e, 'a) res \<times> ('v \<times> 'c)" where
  "withinS put m w c = (case m (w, c) of (r, (w', c')) \<Rightarrow> (r, (put w', c')))"

definition strategy_update ::
  "'x huma_ext_scheme \<Rightarrow> ('c \<Rightarrow> pubkey list \<Rightarrow> (account_cache_error, account option list) res \<times> 'c)
    \<Rightarrow> (strategy \<times> 'c, venue_error, unit) stateful" where
  "strategy_update X fetch s =
     (case fst s of
        JupLend j \<Rightarrow> withinS JupLend (jup_update X fetch) j (snd s)
      | KaminoLend k \<Rightarrow> withinS KaminoLend (kamino_update X fetch) k (snd s))"

fun strategy_remaining_accounts :: "'x ext_scheme \<Rightarrow> strategy \<Rightarrow> pubkey \<Rightarrow> account_meta list" where
  "strategy_remaining_accounts X (JupLend s) token_program = jup_remaining_accounts X s token_program"
| "strategy_remaining_accounts X (KaminoLend s) token_program = kamino_remaining_accounts X s"

fun available_liquidity_for_withdrawal :: "strategy \<Rightarrow> u64" where
  "available_liquidity_for_withdrawal (JupLend s) = jl_available_liquidity s"
| "available_liquidity_for_withdrawal (KaminoLend s) = kl_available_liquidity s"

fun strategy_lookup_table_keys :: "strategy \<Rightarrow> pubkey list" where
  "strategy_lookup_table_keys (JupLend s) = jup_lookup_table_keys s"
| "strategy_lookup_table_keys (KaminoLend s) = kamino_lookup_table_keys s"

text \<open>A method of a local value, which is dropped when the method fails.\<close>

definition localS :: "'w \<Rightarrow> ('w \<times> 'c, 'e, unit) stateful \<Rightarrow> ('v \<times> 'c, 'e, 'w) stateful" where
  "localS w m s = (case m (w, snd s) of (r, (w', c')) \<Rightarrow> (bindR r (\<lambda>_. Ok w'), (fst s, c')))"

lemma localS_eq_Inr [res_inv]:
  "localS w m s = (Inr w', s') \<longleftrightarrow> (\<exists>c'. m (w, snd s) = (Ok (), (w', c')) \<and> s' = (fst s, c'))"
  by (auto simp: localS_def res_inv split: prod.splits)

lemma keeps_localS [keeps_intros]: "keeps (\<lambda>s. P (fst s)) (localS w m)"
  by (simp add: keeps_def localS_def split: prod.splits)

section \<open>What the venue relies on\<close>

text \<open>
  A strategy keeps its state good through every update, failed ones included, changes
  what it says is available only in an update that succeeds, and adds at most fourteen
  accounts to an instruction, none of them a signer.
\<close>

locale lending_strategy =
  fixes update :: "('s \<times> 'c, venue_error, unit) stateful"
    and available :: "'s \<Rightarrow> u64"
    and remaining :: "'s \<Rightarrow> pubkey \<Rightarrow> account_meta list"
    and good :: "'s \<Rightarrow> bool"
  assumes update_keeps: "keeps (\<lambda>s. good (fst s)) update"
    and update_failed: "update (s, c) = (Inl x, (s', c')) \<Longrightarrow> available s' = available s"
    and remaining_unsigned: "m \<in> set (remaining s tp) \<Longrightarrow> \<not> is_signer m"
    and remaining_bounded: "good s \<Longrightarrow> length (remaining s tp) \<le> 14"
begin

lemma good_after:
  assumes "good s" "update (s, c) = (r, (s', c'))"
  shows "good s'"
  using update_keeps assms unfolding keeps_def by (metis fst_conv snd_conv)

text \<open>An instruction of the user alone stays one when the strategy adds its accounts.\<close>

lemma signers_with_remaining:
  "filter is_signer (ms @ remaining s tp) = filter is_signer ms"
  using remaining_unsigned by (auto simp: filter_empty_conv)

end

subsection \<open>JupLend provides it\<close>

definition jup_good :: "jup_lend \<Rightarrow> bool" where
  "jup_good s = True"

lemma jup_update_Ok:
  "jup_update X fetch (s, c) = (Ok (), (s', c')) \<longleftrightarrow>
    (\<exists>reserve_account f_token_account reserve balance.
      fetch c [jl_reserve_key s, jl_owner_f_token_ata s] = (Ok [Some reserve_account, Some f_token_account], c') \<and>
      decode_anchor_account X (decode_token_reserve X) ''TokenReserve'' (acc_data reserve_account) = Ok reserve \<and>
      read_token_account_amount X (acc_data f_token_account) = Ok balance \<and>
      s' = s\<lparr>jl_available_liquidity := min (jup_vault_liquid reserve) (jup_redemption_value balance reserve)\<rparr>)"
  (is "?l = ?r")
proof
  show "?l \<Longrightarrow> ?r"
    by (auto simp: jup_update_def Let_def res_inv length_Suc_conv numeral_2_eq_2)
  show "?r \<Longrightarrow> ?l"
    by (auto simp: jup_update_def Let_def res_inv numeral_2_eq_2)
qed

interpretation jup: lending_strategy
  "jup_update X fetch" jl_available_liquidity "jup_remaining_accounts X" jup_good for X fetch
proof
  show "keeps (\<lambda>s. jup_good (fst s)) (jup_update X fetch)"
    by (simp add: keeps_def jup_good_def)
  show "jup_update X fetch (s, c) = (Inl x, (s', c')) \<Longrightarrow>
      jl_available_liquidity s' = jl_available_liquidity s" for s c x s' c'
    by (auto simp: jup_update_def Let_def bindS_def liftS_def getS_def fetchS_def venueS_def modifyS_def
        split: prod.splits sum.splits)
qed (auto simp: jup_remaining_accounts_def Let_def meta_new_def meta_readonly_def)

subsection \<open>KaminoLend provides it\<close>

text \<open>
  The obligation is that of the market last read, and the farm's accounts are both
  absent or both there, the user's one derived for the obligation.
\<close>

definition kamino_good :: "'x ext_scheme \<Rightarrow> kamino_lend \<Rightarrow> bool" where
  "kamino_good X s \<longleftrightarrow>
     (kl_lending_market s = default_pubkey \<and> kl_obligation s = default_pubkey \<or>
       kl_obligation s = derive_obligation X (kl_pool_authority s) (kl_lending_market s)) \<and>
     kl_farm_state s \<noteq> Some default_pubkey \<and>
     kl_obligation_farm_user_state s =
       map_option (\<lambda>f. derive_obligation_farm_user_state X f (kl_obligation s)) (kl_farm_state s)"

lemma kamino_good_new: "kamino_good X (kamino_lend_new reserve pool_authority)"
  by (simp add: kamino_good_def kamino_lend_new_def)

lemma kamino_good_read: "kamino_good X (kamino_read_reserve X reserve s)"
  by (simp add: kamino_good_def kamino_read_reserve_def Let_def)

lemma kamino_update_keeps:
  assumes "\<And>s reserve. P s \<Longrightarrow> P (kamino_read_reserve X reserve s)"
    and "\<And>s a. P s \<Longrightarrow> P (s\<lparr>kl_available_liquidity := a\<rparr>)"
  shows "keeps (\<lambda>s. P (fst s)) (kamino_update X fetch)"
  unfolding kamino_update_def Let_def by (intro keeps_intros assms)

lemma kamino_remaining_length:
  "kamino_good X s \<Longrightarrow> length (kamino_remaining_accounts X s) = (if kl_farm_state s = None then 11 else 13)"
  by (cases "kl_farm_state s") (simp_all add: kamino_good_def kamino_remaining_accounts_def)

interpretation kamino: lending_strategy
  "kamino_update X fetch" kl_available_liquidity "\<lambda>s _. kamino_remaining_accounts X s" "kamino_good X"
  for X fetch
proof
  show "keeps (\<lambda>s. kamino_good X (fst s)) (kamino_update X fetch)"
    by (rule kamino_update_keeps) (simp_all add: kamino_good_read, simp add: kamino_good_def)
  show "kamino_update X fetch (s, c) = (Inl x, (s', c')) \<Longrightarrow>
      kl_available_liquidity s' = kl_available_liquidity s" for s c x s' c'
    by (auto simp: kamino_update_def kamino_read_reserve_def Let_def bindS_def liftS_def getS_def fetchS_def
        venueS_def modifyS_def split: prod.splits sum.splits)
qed (auto simp: kamino_remaining_accounts_def kamino_remaining_length meta_new_def meta_readonly_def
    split: option.splits)

subsection \<open>The sum provides it\<close>

fun strategy_good :: "'x ext_scheme \<Rightarrow> strategy \<Rightarrow> bool" where
  "strategy_good X (JupLend s) = jup_good s"
| "strategy_good X (KaminoLend s) = kamino_good X s"

lemma withinS_eq: "withinS put m w c = (r, (v, c')) \<longleftrightarrow> (\<exists>w'. m (w, c) = (r, (w', c')) \<and> v = put w')"
  by (auto simp: withinS_def split: prod.splits)

interpretation strategy: lending_strategy
  "strategy_update X fetch" available_liquidity_for_withdrawal "strategy_remaining_accounts X"
  "strategy_good X" for X fetch
proof
  show "keeps (\<lambda>s. strategy_good X (fst s)) (strategy_update X fetch)"
    by (auto simp: keeps_def strategy_update_def withinS_def jup_good_def split: strategy.splits prod.splits
        dest: kamino.good_after [rotated])
  show "available_liquidity_for_withdrawal s' = available_liquidity_for_withdrawal s"
    if "strategy_update X fetch (s, c) = (Inl x, (s', c'))" for s c x s' c'
    using that jup.update_failed [of X fetch] kamino.update_failed [of X fetch]
    by (cases s) (auto simp: strategy_update_def withinS_eq)
  show "\<not> is_signer m" if "m \<in> set (strategy_remaining_accounts X s tp)" for m s tp
    using that by (cases s) (auto dest: jup.remaining_unsigned kamino.remaining_unsigned)
  show "length (strategy_remaining_accounts X s tp) \<le> 14" if "strategy_good X s" for s tp
    using that jup.remaining_bounded kamino.remaining_bounded by (cases s) auto
qed

lemma strategy_new_good: "from_deployment_config X d u a = Ok s \<Longrightarrow> strategy_good X s"
  by (cases "dc_strategy_type d") (auto simp: from_deployment_config_def jup_good_def kamino_good_new)

section \<open>What can be withdrawn\<close>

lemma div_scaled_le:
  fixes x y d :: u128
  shows "unat (ucast ((x * y) div d) :: u64) * unat d \<le> unat (x * y)"
proof -
  have "unat (ucast ((x * y) div d) :: u64) \<le> unat ((x * y) div d)"
    by (simp add: unat_narrow)
  then have "unat (ucast ((x * y) div d) :: u64) * unat d \<le> unat ((x * y) div d) * unat d"
    by (rule mult_le_mono1)
  also have "\<dots> \<le> unat (x * y)" by (simp add: unat_div div_times_less_eq_dividend)
  finally show ?thesis .
qed

lemma jup_redemption_le:
  "unat (jup_redemption_value balance reserve) * 10 ^ 12 \<le> unat balance * unat (tr_supply_exchange_price reserve)"
  using div_scaled_le [of "ucast balance" "ucast (tr_supply_exchange_price reserve)" EXCHANGE_PRICES_PRECISION]
  by (simp add: jup_redemption_value_def EXCHANGE_PRICES_PRECISION_def unat_ops)

lemma kamino_total_supply_eq:
  "(kamino_total_supply reserve :: ('e, u128) res) =
    Ok (ucast (kr_available_liquidity reserve) + drop_bit KLEND_FRACTION_BITS (kr_borrowed_amount reserve))"
  "unat (ucast (kr_available_liquidity reserve) + drop_bit KLEND_FRACTION_BITS (kr_borrowed_amount reserve)) =
    unat (kr_available_liquidity reserve) + unat (kr_borrowed_amount reserve) div 2 ^ 60"
proof -
  have d: "unat (drop_bit KLEND_FRACTION_BITS (kr_borrowed_amount reserve)) = unat (kr_borrowed_amount reserve) div 2 ^ 60"
    by (simp add: KLEND_FRACTION_BITS_def unsigned_drop_bit_eq drop_bit_eq_div unat_div)
  have "unat (kr_borrowed_amount reserve) div 2 ^ 60 < 2 ^ 68"
    using unat_lt_len [of "kr_borrowed_amount reserve"] by (simp add: div_less_iff_less_mult)
  from add_strict_mono [OF unat_lt_len [of "kr_available_liquidity reserve"] this]
  have f: "unat (ucast (kr_available_liquidity reserve) :: u128) +
      unat (drop_bit KLEND_FRACTION_BITS (kr_borrowed_amount reserve)) < 2 ^ LENGTH(128)"
    unfolding d unat_ops by (rule order_less_le_trans) simp
  then show "(kamino_total_supply reserve :: ('e, u128) res) =
      Ok (ucast (kr_available_liquidity reserve) + drop_bit KLEND_FRACTION_BITS (kr_borrowed_amount reserve))"
    by (simp add: kamino_total_supply_def add_p_def checked_add_def)
  show "unat (ucast (kr_available_liquidity reserve) + drop_bit KLEND_FRACTION_BITS (kr_borrowed_amount reserve)) =
      unat (kr_available_liquidity reserve) + unat (kr_borrowed_amount reserve) div 2 ^ 60"
    by (simp only: unat_add_fits [OF f]) (simp add: d unat_ops)
qed

lemma kamino_redemption_Ok:
  assumes "kamino_redemption_value deposited supply collateral = (Ok v :: ('e, u64) res)"
  shows "unat v * unat collateral \<le> unat deposited * unat supply"
proof (cases "collateral = 0")
  case False
  then have fits: "unat (ucast deposited :: u128) * unat supply < 2 ^ 128"
    and v: "v = ucast ((ucast deposited * supply) div ucast collateral)"
    using assms by (auto simp: kamino_redemption_value_def mul_p_def div_p_def res_inv checked_eq_Some)
  have "unat (ucast deposited * supply) = unat deposited * unat supply"
    using fits by (subst unat_mult_fits) (simp_all add: unat_ops)
  then show ?thesis
    using div_scaled_le [of "ucast deposited" "supply" "ucast collateral"] by (simp add: v unat_ops)
qed simp

text \<open>The collateral the pool holds, as the last obligation account fetched says.\<close>

definition kamino_collateral ::
  "'x huma_ext_scheme \<Rightarrow> pubkey \<Rightarrow> account option \<Rightarrow> (venue_error, u64) res" where
  "kamino_collateral X key a =
     (case a of
        None \<Rightarrow> Ok 0
      | Some account \<Rightarrow>
          bindR (klend_decode (decode_klend_obligation X) ''obligation'' account) (\<lambda>deposits.
            Ok (kamino_deposited key deposits)))"

lemma kamino_update_Ok:
  assumes "kamino_update X fetch (s, c) = (Ok (), (s', c'))"
  obtains c1 account reserve a deposited worth where
    "fetch c [kl_reserve s] = (Ok [Some account], c1)"
    "decode_klend_reserve X (acc_data account) = Inr reserve"
    "fetch c1 [derive_obligation X (kl_pool_authority s) (kr_lending_market reserve)] = (Ok [a], c')"
    "kamino_collateral X (kl_reserve s) a = Ok deposited"
    "kamino_redemption_value deposited
      (ucast (kr_available_liquidity reserve) + drop_bit KLEND_FRACTION_BITS (kr_borrowed_amount reserve))
      (kr_collateral_total_supply reserve) = (Ok worth :: (venue_error, u64) res)"
    "s' = (kamino_read_reserve X reserve s)\<lparr>kl_available_liquidity := min (kr_available_liquidity reserve) worth\<rparr>"
proof -
  have dec: "klend_decode decode what account = Ok r \<longleftrightarrow> decode (acc_data account) = Inr r"
    for decode :: "u8 list \<Rightarrow> string + 'q" and what account r
    by (auto simp: klend_decode_def split: sum.splits)
  have ob: "kl_obligation (kamino_read_reserve X reserve s) =
      derive_obligation X (kl_pool_authority s) (kr_lending_market reserve)" for reserve
    by (simp add: kamino_read_reserve_def Let_def)
  show thesis
    using assms
    by (auto simp: kamino_update_def Let_def res_inv kamino_total_supply_eq dec ob length_Suc_conv
        kamino_collateral_def [symmetric] intro: that)
qed

subsection \<open>Updates do not panic\<close>

definition hashes_ok :: "'x ext_scheme \<Rightarrow> bool" where
  "hashes_ok X \<longleftrightarrow> (\<forall>bs. 8 \<le> length (hashv X bs))"

lemma discriminator_no_panic [simp]: "hashes_ok X \<Longrightarrow> anchor_discriminator X p n \<noteq> Panic"
  by (auto simp: anchor_discriminator_def hashes_ok_def get_range_def DISCRIMINATOR_LEN_def)

lemma decode_anchor_no_panic [simp]:
  "hashes_ok X \<Longrightarrow> decode_anchor_account X decode n data \<noteq> Panic"
  by (auto simp: decode_anchor_account_eq anchor_account_discriminator_def bindR_eq_Inl split: sum.splits)

lemma read_token_no_panic [simp]: "read_token_account_amount X d \<noteq> Panic" "read_mint_supply X d \<noteq> Panic"
  by (auto simp: read_token_account_amount_def read_mint_supply_def split: sum.splits)

lemma klend_decode_no_panic [simp]: "klend_decode decode what account \<noteq> Panic"
  by (auto simp: klend_decode_def split: sum.splits)

text \<open>A method that does not panic on a well-formed cache, and leaves it well-formed.\<close>

definition safe :: "('c \<Rightarrow> bool) \<Rightarrow> ('v \<Rightarrow> bool) \<Rightarrow> ('v \<times> 'c, 'e, 'a) stateful \<Rightarrow> ('a \<Rightarrow> bool) \<Rightarrow> bool" where
  "safe ok P m Q \<longleftrightarrow> (\<forall>v c. P v \<longrightarrow> ok c \<longrightarrow>
     (case m (v, c) of (r, (v', c')) \<Rightarrow> r \<noteq> Panic \<and> ok c' \<and> (\<forall>a. r = Ok a \<longrightarrow> P v' \<and> Q a)))"

named_theorems safe_intros \<open>how the method combinators stay safe\<close>

lemma safe_bindS:
  assumes "safe ok P m Q" "\<And>a. Q a \<Longrightarrow> safe ok P (k a) R"
  shows "safe ok P (bindS m k) R"
  unfolding safe_def
proof (intro allI impI)
  fix v c
  assume "P v" "ok c"
  then have m: "case m (v, c) of (r, (v', c')) \<Rightarrow> r \<noteq> Panic \<and> ok c' \<and> (\<forall>a. r = Ok a \<longrightarrow> P v' \<and> Q a)"
    using assms(1) by (simp add: safe_def)
  obtain r v' c' where mv: "m (v, c) = (r, (v', c'))" using prod_cases3 by blast
  show "case bindS m k (v, c) of (r, (v', c')) \<Rightarrow> r \<noteq> Panic \<and> ok c' \<and> (\<forall>a. r = Ok a \<longrightarrow> P v' \<and> R a)"
  proof (cases r)
    case (Inl x)
    then show ?thesis using m mv by simp
  next
    case (Inr a)
    then have "safe ok P (k a) R" "P v'" "ok c'" using m mv assms(2) by auto
    then show ?thesis using mv Inr by (simp add: safe_def)
  qed
qed

lemma safe_liftS [safe_intros]:
  assumes "r \<noteq> Panic" "\<And>a. r = Ok a \<Longrightarrow> safe ok P (k a) R"
  shows "safe ok P (bindS (liftS r) k) R"
  using assms by (cases r) (auto simp: safe_def liftS_def bindS_def)

lemma safe_getS [safe_intros]:
  assumes "\<And>s. P (fst s) \<Longrightarrow> safe ok P (k s) R"
  shows "safe ok P (bindS getS k) R"
  using assms by (simp add: safe_def)

lemma safe_venueS [safe_intros]:
  assumes "\<And>v. P v \<Longrightarrow> P (f v)"
  shows "safe ok P (venueS f) (\<lambda>_. True)"
  using assms by (simp add: safe_def venueS_def modifyS_def)

lemmas safe_venue_step [safe_intros] = safe_bindS [OF safe_venueS]

lemma safe_weaken: "safe ok P m Q \<Longrightarrow> (\<And>a. Q a \<Longrightarrow> R a) \<Longrightarrow> safe ok P m R"
  unfolding safe_def case_prod_unfold by blast

context accounts_cache
begin

lemma safe_fetchS: "safe wf P (fetchS fetch ks) (\<lambda>xs. length xs = length ks)"
  unfolding safe_def
proof (intro allI impI)
  fix v c
  assume "P v" "wf c"
  from this(1) show "case fetchS fetch ks (v, c) of (r, (v', c')) \<Rightarrow>
      r \<noteq> Panic \<and> wf c' \<and> (\<forall>a. r = Ok a \<longrightarrow> P v' \<and> length a = length ks)"
    by - (rule fetch_cases [OF \<open>wf c\<close>, of ks]; simp add: fetchS_def)
qed

lemmas safe_fetch_step = safe_bindS [OF safe_fetchS]

end

text \<open>
  A reserve whose liquidity and borrowed atoms together fit 64 bits, as the token's
  supply does.
\<close>

definition klend_sane :: "'x huma_ext_scheme \<Rightarrow> bool" where
  "klend_sane X \<longleftrightarrow> (\<forall>d r. decode_klend_reserve X d = Inr r \<longrightarrow>
     unat (kr_available_liquidity r) + unat (kr_borrowed_amount r) div 2 ^ 60 < 2 ^ 64)"

lemma kamino_redemption_no_panic:
  assumes "unat t < 2 ^ 64"
  shows "kamino_redemption_value deposited t collateral \<noteq> Panic"
proof -
  have "unat (ucast deposited :: u128) * unat t < 2 ^ LENGTH(128)"
  proof -
    have "unat deposited * unat t \<le> unat deposited * 2 ^ 64"
      using assms by (intro mult_le_mono2) simp
    also have "\<dots> < 2 ^ 64 * 2 ^ 64"
      using unat_lt_len [of deposited] by (intro mult_strict_right_mono) simp_all
    finally show ?thesis by (simp add: unat_ops)
  qed
  then show ?thesis
    by (simp add: kamino_redemption_value_def mul_p_def div_p_def checked_mul_def checked_div_def widen_nonzero)
qed

context accounts_cache
begin

lemma jup_update_safe:
  assumes "hashes_ok X"
  shows "safe wf (\<lambda>_. True) (jup_update X fetch) (\<lambda>_. True)"
  unfolding jup_update_def Let_def
  by (intro safe_intros safe_fetch_step) (simp_all add: assms)

lemma kamino_update_safe:
  assumes "klend_sane X"
  shows "safe wf (\<lambda>_. True) (kamino_update X fetch) (\<lambda>_. True)"
proof -
  have sane: "unat t < 2 ^ 64" if "kamino_total_supply r = (Ok t :: (venue_error, u128) res)"
    "klend_decode (decode_klend_reserve X) ''reserve'' a = Ok r" for a r t
    using assms that by (auto simp: klend_sane_def klend_decode_def kamino_total_supply_eq split: sum.splits)
  have no_panic: "kamino_total_supply r \<noteq> (Panic :: (venue_error, u128) res)" for r
    by (simp add: kamino_total_supply_eq)
  have deposit: "(case a of None \<Rightarrow> Ok 0 | Some account \<Rightarrow>
      bindR (klend_decode (decode_klend_obligation X) ''obligation'' account) (\<lambda>deposits.
        Ok (kamino_deposited key deposits))) \<noteq> Panic" for a key
    by (simp add: bindR_eq_Inl split: option.splits)
  show ?thesis
    unfolding kamino_update_def Let_def
    by (intro safe_intros safe_fetch_step kamino_redemption_no_panic no_panic deposit
        to_array_simps(2) found_simps(2) klend_decode_no_panic TrueI)
      (erule sane, assumption)
qed

lemma strategy_update_safe:
  assumes "hashes_ok X" "klend_sane X"
  shows "safe wf (\<lambda>_. True) (strategy_update X fetch) (\<lambda>_. True)"
proof -
  have "fst (jup_update X fetch (j, c)) \<noteq> Panic \<and> wf (snd (snd (jup_update X fetch (j, c))))"
    if "wf c" for j c
    using jup_update_safe [OF assms(1)] that unfolding safe_def case_prod_unfold by blast
  moreover have "fst (kamino_update X fetch (k, c)) \<noteq> Panic \<and> wf (snd (snd (kamino_update X fetch (k, c))))"
    if "wf c" for k c
    using kamino_update_safe [OF assms(2)] that unfolding safe_def case_prod_unfold by blast
  ultimately show ?thesis
    by (auto simp: safe_def strategy_update_def withinS_def case_prod_unfold split: strategy.splits)
qed

end

section \<open>Properties\<close>

text \<open>Sample decoders: every account of the sample chain decodes to the same values.\<close>

definition sample_token_reserve :: token_reserve where
  "sample_token_reserve =
     \<lparr>tr_mint = 0, tr_vault = 0, tr_borrow_rate = 0, tr_fee_on_interest = 0, tr_last_utilization = 0,
      tr_last_update_timestamp = 0, tr_supply_exchange_price = 1500000000000, tr_borrow_exchange_price = 0,
      tr_max_utilization = 0, tr_total_supply_with_interest = 900, tr_total_supply_interest_free = 100,
      tr_total_borrow_with_interest = 200, tr_total_borrow_interest_free = 0, tr_total_claim_amount = 0,
      tr_interacting_protocol = 0, tr_interacting_timestamp = 0, tr_interacting_balance = 0\<rparr>"

definition sample_klend_reserve :: klend_reserve where
  "sample_klend_reserve =
     \<lparr>kr_lending_market = 21, kr_collateral_mint = 22, kr_collateral_supply_vault = 23,
      kr_liquidity_supply_vault = 24, kr_farm_collateral = 25, kr_available_liquidity = 500,
      kr_collateral_total_supply = 1000, kr_borrowed_amount = push_bit 60 1500\<rparr>"

definition sample_clock :: clock where
  "sample_clock = \<lparr>cl_epoch = 3, cl_unix_timestamp = 1000\<rparr>"

definition sample_pool_config :: pool_config where
  "sample_pool_config =
     \<lparr>pcf_bump = 0, pcf_huma_config = 11, pcf_pool_owner = 12, pcf_pool_owner_treasury = 13,
      pcf_underlying_mint = 14, pcf_pool_authority_bump = 254, pcf_pool_id = 15, pcf_pool_name = ''pool'',
      pcf_lp_config =
        \<lparr>liquidity_cap = 2000000, min_deposit_amount = 10, min_redemption_shares = 10,
         max_total_redemption_shares_per_window = 1000000,
         max_instant_withdrawal_shares_per_window = 1000000\<rparr>,
      pcf_instant_withdrawal_config =
        \<lparr>instant_withdrawal_reserve_limit = 0,
         instant_withdrawal_fee_configs =
           [\<lparr>liquid_asset_ratio_lt_bps = 2500, fee_bps = 500\<rparr>,
            \<lparr>liquid_asset_ratio_lt_bps = 10000, fee_bps = 50\<rparr>],
         liquidity_source = Some 16\<rparr>\<rparr>"

definition sample_mode_config :: mode_config where
  "sample_mode_config =
     \<lparr>mc_bump = 0, mc_mint_bump = 0, mc_id = 17, mc_name = ''mode'', mc_target_apy_bps = 0,
      mc_periodic_apy_bps = Finite 0\<rparr>"

definition sample_gating :: redemption_gating where
  "sample_gating = \<lparr>total_shares_requested = 0, window_starts_at = 0\<rparr>"

definition sample_pool_state :: pool_state where
  "sample_pool_state =
     \<lparr>ps_bump = 0, ps_status = On, ps_disbursement_reserve = 0,
      ps_mode_states =
        [\<lparr>ms_assets = 1000000, ms_losses = 0, ms_cumulative_yields = 0, ms_assets_refreshed_at = 1000\<rparr>],
      ps_mode_config_keys = [18],
      ps_redemption =
        \<lparr>rd_next_request_id = 0, rd_last_request_id = 0,
         rd_global_redemption_gating = sample_gating, rd_instant_withdrawal_gating = sample_gating\<rparr>,
      ps_cumulative_amount_deployed = 0, ps_cumulative_amount_paid_back = 0, ps_liquid_assets_deployed = 0\<rparr>"

definition sample_huma :: huma_ext where
  "sample_huma =
     \<lparr>find_pda = (\<lambda>_ _. 5), create_pda = (\<lambda>_ _. Some 6), ata_with_program = (\<lambda>_ _ _. 7),
      hashv = (\<lambda>_. replicate 32 0), mint_unpack = (\<lambda>_. Some (6, None)),
      mint_supply_unpack = (\<lambda>_. Inr 1000000), token_amount_unpack = (\<lambda>_. Inr 600000),
      token_amount_unpack_checked = (\<lambda>_. Some 600000),
      decode_huma_config = (\<lambda>_. Inr \<lparr>hc_id = 0, hc_bump = 0, hc_owner = 0, hc_treasury = 0, hc_sentinel = 0,
        hc_protocol_fee_bps = 0, hc_paused = False\<rparr>),
      decode_pool_config = (\<lambda>_. Inr sample_pool_config),
      decode_mode_config = (\<lambda>_. Inr sample_mode_config),
      decode_deployment_config = (\<lambda>_. Inr \<lparr>dc_bump = 0, dc_strategy_type = KaminoLendType, dc_target_key = 19\<rparr>),
      decode_pool_state = (\<lambda>_. Inr sample_pool_state),
      decode_token_reserve = (\<lambda>_. Inr sample_token_reserve),
      decode_clock = (\<lambda>_. Inr sample_clock),
      decode_klend_reserve = (\<lambda>_. Inr sample_klend_reserve),
      decode_klend_obligation = (\<lambda>_. Inr [\<lparr>kd_deposit_reserve = 19, kd_deposited_amount = 100\<rparr>]),
      f_powi = (\<lambda>x _. x)\<rparr>"

definition sample_huma_account :: account where
  "sample_huma_account = \<lparr>lamports = 1, acc_data = replicate 8 0, acc_owner = TOKEN_PROGRAM_ID, executable = False\<rparr>"

definition huma_rpc :: rpc_client where
  "huma_rpc =
     \<lparr>rpc_get_account = (\<lambda>_. Inr sample_huma_account),
      rpc_get_multiple_accounts = (\<lambda>ks. Inr (map (\<lambda>_. Some sample_huma_account) ks))\<rparr>"

abbreviation huma_cache :: rpc_client_cache where
  "huma_cache \<equiv> rpc_client_cache_new huma_rpc"

lemma huma_cache_wf: "rpc_wf huma_cache"
  by (simp add: rpc_wf_def rpc_client_cache_new_def huma_rpc_def)

lemma sample_huma_ok: "hashes_ok sample_huma" "klend_sane sample_huma"
  by (simp_all add: hashes_ok_def klend_sane_def sample_huma_def sample_klend_reserve_def
      unsigned_push_bit_eq)

text \<open>A cache that always finds the sample account, without remembering anything.\<close>

definition everything :: "unit \<Rightarrow> pubkey list \<Rightarrow> (account_cache_error, account option list) res \<times> unit" where
  "everything c ks = (Ok (map (\<lambda>_. Some sample_huma_account) ks), c)"

lemma sample_decode [simp]:
  "decode_anchor_account sample_huma (\<lambda>_. Inr a) n (acc_data sample_huma_account) = Ok a"
  by (simp add: decode_anchor_account_eq anchor_account_discriminator_def anchor_discriminator_def
      get_range_def DISCRIMINATOR_LEN_def sample_huma_def sample_huma_account_def)

lemma sample_huma_simps [simp]:
  "decode_token_reserve sample_huma = (\<lambda>_. Inr sample_token_reserve)"
  "decode_klend_reserve sample_huma = (\<lambda>_. Inr sample_klend_reserve)"
  "decode_klend_obligation sample_huma = (\<lambda>_. Inr [\<lparr>kd_deposit_reserve = 19, kd_deposited_amount = 100\<rparr>])"
  "read_token_account_amount sample_huma d = Ok 600000"
  "read_mint_supply sample_huma d = Ok 1000000"
  "find_pda sample_huma bs k = 5"
  by (simp_all add: sample_huma_def read_token_account_amount_def read_mint_supply_def)

text \<open>
  After a successful update, the amount JupLend is said to give back is neither more
  than the protocol's supply not lent out, nor more than the pool's f-tokens are worth at
  the exchange price; both are read from the two accounts fetched, and nothing else of
  the strategy changes.
\<close>

theorem jup_liquidity_bounded:
  assumes "jup_update X fetch (s, c) = (Ok (), (s', c'))"
  shows "\<exists>r t reserve balance.
    fetch c [jl_reserve_key s, jl_owner_f_token_ata s] = (Ok [Some r, Some t], c') \<and>
    decode_anchor_account X (decode_token_reserve X) ''TokenReserve'' (acc_data r) = Ok reserve \<and>
    read_token_account_amount X (acc_data t) = Ok balance \<and>
    unat (jl_available_liquidity s') * 10 ^ 12 \<le> unat balance * unat (tr_supply_exchange_price reserve) \<and>
    unat (jl_available_liquidity s') \<le>
      unat (tr_total_supply_with_interest reserve) + unat (tr_total_supply_interest_free reserve) -
      (unat (tr_total_borrow_with_interest reserve) + unat (tr_total_borrow_interest_free reserve)) \<and>
    s' = s\<lparr>jl_available_liquidity := jl_available_liquidity s'\<rparr>"
proof -
  obtain r t reserve balance where *:
    "fetch c [jl_reserve_key s, jl_owner_f_token_ata s] = (Ok [Some r, Some t], c')"
    "decode_anchor_account X (decode_token_reserve X) ''TokenReserve'' (acc_data r) = Ok reserve"
    "read_token_account_amount X (acc_data t) = Ok balance"
    and s': "s' = s\<lparr>jl_available_liquidity := min (jup_vault_liquid reserve) (jup_redemption_value balance reserve)\<rparr>"
    using assms unfolding jup_update_Ok by blast
  have "unat (jl_available_liquidity s') * 10 ^ 12 \<le> unat (jup_redemption_value balance reserve) * 10 ^ 12"
    by (simp add: s' unat_ops)
  also note jup_redemption_le
  finally have "unat (jl_available_liquidity s') * 10 ^ 12 \<le> unat balance * unat (tr_supply_exchange_price reserve)" .
  moreover have "unat (jl_available_liquidity s') \<le>
      unat (tr_total_supply_with_interest reserve) + unat (tr_total_supply_interest_free reserve) -
      (unat (tr_total_borrow_with_interest reserve) + unat (tr_total_borrow_interest_free reserve))"
    by (simp add: s' unat_ops jup_vault_liquid_def)
  ultimately show ?thesis using * s' by (intro exI [of _ r] exI [of _ t] exI [of _ reserve] exI [of _ balance]) simp
qed

lemma sample_jup_update:
  "jup_update sample_huma everything (jup_lend_new sample_huma 20 14 6, ()) =
    (Ok (), ((jup_lend_new sample_huma 20 14 6)\<lparr>jl_available_liquidity := 800\<rparr>, ()))"
proof -
  have "min (jup_vault_liquid sample_token_reserve) (jup_redemption_value 600000 sample_token_reserve) = 800"
    by (simp add: jup_vault_liquid_def jup_redemption_value_def sample_token_reserve_def saturating_add_def
        saturating_sub_def EXCHANGE_PRICES_PRECISION_def)
  then show ?thesis
    unfolding jup_update_Ok by (simp add: everything_def)
qed

theorem jup_liquidity_bounded_witness:
  "\<exists>reserve balance. read_token_account_amount sample_huma (acc_data sample_huma_account) = Ok balance \<and>
    decode_anchor_account sample_huma (\<lambda>_. Inr sample_token_reserve) ''TokenReserve'' (acc_data sample_huma_account) =
      Ok reserve \<and>
    unat (800 :: u64) * 10 ^ 12 \<le> unat balance * unat (tr_supply_exchange_price reserve)"
  using jup_liquidity_bounded [OF sample_jup_update] by (fastforce simp: everything_def)

lemma kamino_redemption_floor:
  assumes "kamino_redemption_value deposited supply collateral = (Ok v :: ('e, u64) res)"
  shows "unat v = (if unat collateral = 0 then 0 else unat deposited * unat supply div unat collateral mod 2 ^ 64)"
  using assms
  by (auto simp: kamino_redemption_value_def mul_p_def div_p_def res_inv checked_eq_Some unat_narrow unat_div
      unat_mult_fits unat_widen unat_eq_0 split: if_splits)

text \<open>
  C34: after a successful update, the amount KaminoLend is said to give back is exactly the
  smaller of the reserve's free liquidity and what the pool's deposited collateral redeems for at
  the reserve's exchange rate, rounded down and read in 64 bits (nothing when no collateral was
  ever issued). It is thus never worth more than that collateral. The market, vaults, obligation
  and farm accounts are those of the reserve account fetched, and the collateral is read from the
  obligation account derived from them.
\<close>

theorem kamino_liquidity_exact:
  assumes "kamino_update X fetch (s, c) = (Ok (), (s', c'))"
  shows "\<exists>c1 r reserve o' deposited.
    fetch c [kl_reserve s] = (Ok [Some r], c1) \<and>
    decode_klend_reserve X (acc_data r) = Inr reserve \<and>
    fetch c1 [kl_obligation s'] = (Ok [o'], c') \<and>
    kamino_collateral X (kl_reserve s) o' = Ok deposited \<and>
    unat (kl_available_liquidity s') = min (unat (kr_available_liquidity reserve))
      (if unat (kr_collateral_total_supply reserve) = 0 then 0
       else unat deposited * (unat (kr_available_liquidity reserve) + unat (kr_borrowed_amount reserve) div 2 ^ 60)
         div unat (kr_collateral_total_supply reserve) mod 2 ^ 64) \<and>
    unat (kl_available_liquidity s') * unat (kr_collateral_total_supply reserve) \<le>
      unat deposited * (unat (kr_available_liquidity reserve) + unat (kr_borrowed_amount reserve) div 2 ^ 60) \<and>
    s' = (kamino_read_reserve X reserve s)\<lparr>kl_available_liquidity := kl_available_liquidity s'\<rparr>"
proof -
  obtain c1 r reserve a deposited worth where *:
    "fetch c [kl_reserve s] = (Ok [Some r], c1)"
    "decode_klend_reserve X (acc_data r) = Inr reserve"
    "fetch c1 [derive_obligation X (kl_pool_authority s) (kr_lending_market reserve)] = (Ok [a], c')"
    "kamino_collateral X (kl_reserve s) a = Ok deposited"
    and w: "kamino_redemption_value deposited
      (ucast (kr_available_liquidity reserve) + drop_bit KLEND_FRACTION_BITS (kr_borrowed_amount reserve))
      (kr_collateral_total_supply reserve) = (Ok worth :: (venue_error, u64) res)"
    and s': "s' = (kamino_read_reserve X reserve s)\<lparr>kl_available_liquidity := min (kr_available_liquidity reserve) worth\<rparr>"
    by (rule kamino_update_Ok [OF assms])
  have "unat (kl_available_liquidity s') * unat (kr_collateral_total_supply reserve) \<le>
      unat worth * unat (kr_collateral_total_supply reserve)"
    by (simp add: s' unat_ops)
  also note kamino_redemption_Ok [OF w]
  also note kamino_total_supply_eq(2)
  finally have bound: "unat (kl_available_liquidity s') * unat (kr_collateral_total_supply reserve) \<le>
      unat deposited * (unat (kr_available_liquidity reserve) + unat (kr_borrowed_amount reserve) div 2 ^ 60)" .
  have "unat (kl_available_liquidity s') = min (unat (kr_available_liquidity reserve)) (unat worth)"
    by (simp add: s' unat_ops)
  note this [unfolded kamino_redemption_floor [OF w] kamino_total_supply_eq(2)]
  with bound show ?thesis
    using * by (intro exI [of _ c1] exI [of _ r] exI [of _ reserve] exI [of _ a] exI [of _ deposited])
      (simp add: s' kamino_read_reserve_def Let_def)
qed

abbreviation sample_kamino :: kamino_lend where
  "sample_kamino \<equiv> kamino_lend_new 19 6"

lemma sample_kamino_update:
  "kamino_update sample_huma everything (sample_kamino, ()) =
    (Ok (), ((kamino_read_reserve sample_huma sample_klend_reserve sample_kamino)\<lparr>kl_available_liquidity := 200\<rparr>, ()))"
proof -
  have "kamino_redemption_value 100 (500 + drop_bit KLEND_FRACTION_BITS (push_bit 60 1500)) 1000 =
      (Ok 200 :: (venue_error, u64) res)"
    by (simp add: kamino_redemption_value_def mul_p_def div_p_def checked_mul_def checked_div_def KLEND_FRACTION_BITS_def)
  then show ?thesis
    by (simp add: kamino_update_def Let_def everything_def fetchS_def bindS_def liftS_def getS_def venueS_def
        modifyS_def to_array_def found_def klend_decode_def kamino_total_supply_eq(1) kamino_deposited_def)
      (simp add: sample_klend_reserve_def kamino_lend_new_def modifyS_def)
qed

theorem kamino_liquidity_exact_witness:
  "\<exists>reserve deposited. decode_klend_reserve sample_huma (acc_data sample_huma_account) = Inr reserve \<and>
    kamino_collateral sample_huma 19 (Some sample_huma_account) = Ok deposited \<and>
    unat (200 :: u64) = min (unat (kr_available_liquidity reserve))
      (if unat (kr_collateral_total_supply reserve) = 0 then 0
       else unat deposited * (unat (kr_available_liquidity reserve) + unat (kr_borrowed_amount reserve) div 2 ^ 60)
         div unat (kr_collateral_total_supply reserve) mod 2 ^ 64)"
  using kamino_liquidity_exact [OF sample_kamino_update]
  by (fastforce simp: everything_def kamino_lend_new_def)

text \<open>The states a KaminoLend strategy goes through: new, then updated any number of times, with any outcome.\<close>

inductive kamino_reachable ::
  "'x huma_ext_scheme \<Rightarrow> ('c \<Rightarrow> pubkey list \<Rightarrow> (account_cache_error, account option list) res \<times> 'c)
    \<Rightarrow> pubkey \<Rightarrow> pubkey \<Rightarrow> kamino_lend \<Rightarrow> bool"
  for X fetch reserve pool_authority where
  reachable_new: "kamino_reachable X fetch reserve pool_authority (kamino_lend_new reserve pool_authority)"
| reachable_update: "kamino_reachable X fetch reserve pool_authority (fst (snd (kamino_update X fetch (s, c))))"
    if "kamino_reachable X fetch reserve pool_authority s"

lemma keepsD: "keeps P m \<Longrightarrow> P s \<Longrightarrow> P (snd (m s))"
  by (simp add: keeps_def)

lemma kamino_update_keeps_keys:
  "keeps (\<lambda>s. kl_reserve (fst s) = r \<and> kl_pool_authority (fst s) = a) (kamino_update X fetch)"
  by (rule kamino_update_keeps) (auto simp: kamino_read_reserve_def Let_def)

lemma kamino_reachable_good:
  assumes "kamino_reachable X fetch reserve pool_authority s"
  shows "kamino_good X s" "kl_reserve s = reserve \<and> kl_pool_authority s = pool_authority"
  using assms
proof induction
  case reachable_new
  {
    case 1
    show ?case by (rule kamino_good_new)
  next
    case 2
    show ?case by (simp add: kamino_lend_new_def)
  }
next
  case (reachable_update s c)
  {
    case 1
    show ?case using keepsD [OF kamino.update_keeps, of X "(s, c)" fetch] reachable_update.IH(1) by simp
  next
    case 2
    show ?case
      using keepsD [OF kamino_update_keeps_keys, of "(s, c)" _ _ X fetch] reachable_update.IH(2) by simp
  }
qed

text \<open>
  Whatever updates it went through, failed ones included, a KaminoLend strategy
  still has its reserve and pool authority, its obligation is that of its market, and it
  adds 11 accounts to an instruction, or 13 with a farm: then the two accounts before the
  last are the user state derived for the obligation and the farm; the reserve comes
  first and the lending program last, and no account signs.
\<close>

theorem kamino_accounts_shape:
  assumes "kamino_reachable X fetch reserve pool_authority s"
  shows "let ms = kamino_remaining_accounts X s in
    am_pubkey (hd ms) = reserve \<and> am_pubkey (last ms) = KLEND_PROGRAM_ID \<and>
    (\<forall>m\<in>set ms. \<not> is_signer m) \<and>
    (case kl_farm_state s of
       None \<Rightarrow> length ms = 11
     | Some farm \<Rightarrow> length ms = 13 \<and> farm \<noteq> default_pubkey \<and>
         map am_pubkey (drop 10 ms) =
           [derive_obligation_farm_user_state X farm (kl_obligation s), farm, KLEND_PROGRAM_ID]) \<and>
    (kl_lending_market s \<noteq> default_pubkey \<longrightarrow>
       kl_obligation s = derive_obligation X pool_authority (kl_lending_market s))"
proof -
  note good = kamino_reachable_good [OF assms]
  have "\<forall>m\<in>set (kamino_remaining_accounts X s). \<not> is_signer m"
    using kamino.remaining_unsigned by blast
  moreover have "am_pubkey (hd (kamino_remaining_accounts X s)) = reserve \<and>
      am_pubkey (last (kamino_remaining_accounts X s)) = KLEND_PROGRAM_ID"
    using good(2) by (simp add: kamino_remaining_accounts_def meta_new_def meta_readonly_def)
  moreover have "(case kl_farm_state s of
      None \<Rightarrow> length (kamino_remaining_accounts X s) = 11
    | Some farm \<Rightarrow> length (kamino_remaining_accounts X s) = 13 \<and> farm \<noteq> default_pubkey \<and>
        map am_pubkey (drop 10 (kamino_remaining_accounts X s)) =
          [derive_obligation_farm_user_state X farm (kl_obligation s), farm, KLEND_PROGRAM_ID])"
    using good(1)
    by (auto simp: kamino_remaining_accounts_def kamino_good_def meta_new_def meta_readonly_def split: option.splits)
  moreover have "kl_lending_market s \<noteq> default_pubkey \<longrightarrow>
      kl_obligation s = derive_obligation X pool_authority (kl_lending_market s)"
    using good by (auto simp: kamino_good_def)
  ultimately show ?thesis by (simp add: Let_def)
qed

lemma sample_kamino_reachable:
  "kamino_reachable sample_huma everything 19 6
    ((kamino_read_reserve sample_huma sample_klend_reserve sample_kamino)\<lparr>kl_available_liquidity := 200\<rparr>)"
  using reachable_update [OF reachable_new, of sample_huma everything 19 6 "()"] by (simp add: sample_kamino_update)

theorem kamino_accounts_shape_witness:
  "length (kamino_remaining_accounts sample_huma
    ((kamino_read_reserve sample_huma sample_klend_reserve sample_kamino)\<lparr>kl_available_liquidity := 200\<rparr>)) = 13"
proof -
  have "kl_farm_state ((kamino_read_reserve sample_huma sample_klend_reserve sample_kamino)\<lparr>kl_available_liquidity := 200\<rparr>) = Some 25"
    by (simp add: kamino_read_reserve_def Let_def sample_klend_reserve_def)
  then show ?thesis using kamino_accounts_shape [OF sample_kamino_reachable] by (simp add: Let_def)
qed

text \<open>
  With hashes of at least eight bytes and reserves of sane size, no update of a
  strategy over the RPC cache panics, the cache stays well-formed, and an update that
  fails leaves the amount that can be withdrawn as it was.
\<close>

theorem strategy_update_safe_failed:
  assumes "hashes_ok X" "klend_sane X" "rpc_wf c"
    and "strategy_update X get_accounts (s, c) = (r, (s', c'))"
  shows "r \<noteq> Panic \<and> rpc_wf c' \<and>
    (r \<noteq> Ok () \<longrightarrow> available_liquidity_for_withdrawal s' = available_liquidity_for_withdrawal s)"
proof -
  have "r \<noteq> Panic \<and> rpc_wf c'"
    using rpc_cache.strategy_update_safe [OF assms(1,2)] assms(3,4) unfolding safe_def case_prod_unfold
    by (metis fst_conv snd_conv)
  moreover have "available_liquidity_for_withdrawal s' = available_liquidity_for_withdrawal s" if "r \<noteq> Ok ()"
    using that assms(4) strategy.update_failed by (cases r) auto
  ultimately show ?thesis by blast
qed

theorem strategy_update_safe_failed_witness:
  "fst (strategy_update sample_huma get_accounts (KaminoLend sample_kamino, huma_cache)) \<noteq> Panic"
proof -
  obtain r s' c' where "strategy_update sample_huma get_accounts (KaminoLend sample_kamino, huma_cache) = (r, (s', c'))"
    using prod_cases3 by blast
  with strategy_update_safe_failed [OF sample_huma_ok huma_cache_wf this] show ?thesis by simp
qed

end
