(* ===== verification/Huma_Venue.thy ===== *)
theory Huma_Venue
  imports Huma_Math Huma_Strategy Bounds
begin

text \<open>
  The Huma venue (\<open>src/huma/venue.rs\<close>): its state, construction, update in three rounds
  of account reads, quotes for a deposit and for an instant withdrawal, the account lists
  and data of its instructions, and its lookup-table keys.
\<close>

section \<open>The venue's state\<close>

record initialized_state =
  is_pool_config :: pool_config
  is_pool_state :: pool_state
  is_huma_config :: huma_config
  is_deployment_config_key :: pubkey
  is_deployment_state_key :: pubkey
  is_pool_underlying_token_key :: pubkey
  is_treasury_underlying_token_key :: pubkey
  is_underlying_token_program :: pubkey
  is_mode_token_program :: pubkey
  is_mode_index :: nat
  is_mode_supply :: u64
  is_pool_underlying_balance :: u64
  is_current_ts :: u64
  is_strategy :: strategy
  is_token_info :: "token_info list"

record huma_venue =
  hv_mode_config_key :: pubkey
  hv_pool_config_key :: pubkey
  hv_pool_state_key :: pubkey
  hv_pool_authority_key :: pubkey
  hv_mode_mint_key :: pubkey
  hv_mode_config :: mode_config
  hv_state :: "initialized_state option"

datatype huma_direction = DepositDirection | InstantWithdrawDirection

definition huma_venue_new :: "'x ext_scheme \<Rightarrow> pubkey \<Rightarrow> pubkey \<Rightarrow> mode_config \<Rightarrow> huma_venue" where
  "huma_venue_new X pool_config_key mode_config_key mode_config =
     \<lparr>hv_mode_config_key = mode_config_key,
      hv_pool_config_key = pool_config_key,
      hv_pool_state_key = derive_pool_state X pool_config_key,
      hv_pool_authority_key = default_pubkey,
      hv_mode_mint_key = derive_mode_mint X pool_config_key mode_config_key,
      hv_mode_config = mode_config,
      hv_state = None\<rparr>"

definition huma_from_account ::
  "'x huma_ext_scheme \<Rightarrow> pubkey \<Rightarrow> account \<Rightarrow> (venue_error, huma_venue) res" where
  "huma_from_account X pubkey account =
     bindR (decode_anchor_account X (decode_mode_config X) ''ModeConfig'' (acc_data account)) (\<lambda>mode_config.
     Ok (huma_venue_new X POOL_CONFIG_KEY pubkey mode_config))"

definition venue_state :: "huma_venue \<Rightarrow> (venue_error, initialized_state) res" where
  "venue_state v = ok_or (hv_state v) (NotInitialized (EStaticStr ''venue''))"

definition venue_pool_authority_key :: "huma_venue \<Rightarrow> (venue_error, pubkey) res" where
  "venue_pool_authority_key v = bindR (venue_state v) (\<lambda>_. Ok (hv_pool_authority_key v))"

definition venue_huma_config_key :: "huma_venue \<Rightarrow> (venue_error, pubkey) res" where
  "venue_huma_config_key v = bindR (venue_state v) (\<lambda>s. Ok (pcf_huma_config (is_pool_config s)))"

definition is_active :: "huma_venue \<Rightarrow> bool" where
  "is_active v =
     (case hv_state v of
        None \<Rightarrow> False
      | Some s \<Rightarrow> \<not> hc_paused (is_huma_config s) \<and> is_pool_on (is_pool_state s))"

section \<open>Updating the state\<close>

definition amount_or_zero :: "u64 \<Rightarrow> u64" where
  "amount_or_zero x = (if sint x < 0 then 0 else x)"

text \<open>Round 1: the pool and mode configurations, and the pool authority of the stored bump.\<close>

definition huma_round_1 ::
  "'x huma_ext_scheme \<Rightarrow> ('c \<Rightarrow> pubkey list \<Rightarrow> (account_cache_error, account option list) res \<times> 'c)
    \<Rightarrow> (huma_venue \<times> 'c, venue_error, pool_config \<times> mode_config) stateful" where
  "huma_round_1 X fetch =
     bindS getS (\<lambda>s. let self = fst s in
     bindS (fetchS fetch [hv_pool_config_key self, hv_mode_config_key self]) (\<lambda>accounts.
     bindS (liftS (to_array 2 accounts)) (\<lambda>accounts.
     bindS (liftS (found accounts 0 (hv_pool_config_key self))) (\<lambda>pool_config_account.
     bindS (liftS (found accounts 1 (hv_mode_config_key self))) (\<lambda>mode_config_account.
     bindS (liftS (decode_anchor_account X (decode_pool_config X) ''PoolConfig''
       (acc_data pool_config_account))) (\<lambda>pool_config.
     bindS (liftS (decode_anchor_account X (decode_mode_config X) ''ModeConfig''
       (acc_data mode_config_account))) (\<lambda>mode_config.
     bindS (liftS (ok_or (pool_authority_with_bump X (hv_pool_config_key self) (pcf_pool_authority_bump pool_config))
       (deserialization_failed ''invalid pool_authority_bump''))) (\<lambda>authority.
     bindS (venueS (\<lambda>v. v\<lparr>hv_pool_authority_key := authority\<rparr>)) (\<lambda>_.
     liftS (Ok (pool_config, mode_config)))))))))))"

text \<open>\<open>bincode::deserialize\<close> of the clock.\<close>

definition read_clock :: "'x huma_ext_scheme \<Rightarrow> account \<Rightarrow> (venue_error, clock) res" where
  "read_clock X account =
     (case decode_clock X (acc_data account) of
        Inl e \<Rightarrow> Err (decode_failed (''clock: '' @ e))
      | Inr c \<Rightarrow> Ok c)"

text \<open>
  Round 2: everything whose key follows from the pool configuration. The token accounts
  are those of the SPL token program, whatever the mint's owner read later says.
\<close>

definition huma_decode_round_2 ::
  "'x huma_ext_scheme \<Rightarrow> huma_venue \<Rightarrow> pool_config \<Rightarrow> pubkey \<Rightarrow> pubkey \<Rightarrow> account option list
    \<Rightarrow> (venue_error, initialized_state) res" where
  "huma_decode_round_2 X self pool_config deployment_config_key pool_underlying_token_key accounts =
     bindR (to_array 7 accounts) (\<lambda>accounts.
     bindR (found accounts 0 (pcf_huma_config pool_config)) (\<lambda>huma_config_account.
     bindR (found accounts 1 deployment_config_key) (\<lambda>deployment_config_account.
     bindR (found accounts 2 (hv_pool_state_key self)) (\<lambda>pool_state_account.
     bindR (found accounts 3 (hv_mode_mint_key self)) (\<lambda>mode_mint_account.
     bindR (found accounts 4 pool_underlying_token_key) (\<lambda>pool_underlying_account.
     bindR (found accounts 5 (pcf_underlying_mint pool_config)) (\<lambda>underlying_mint_account.
     bindR (found accounts 6 CLOCK_ID) (\<lambda>clock_account.
     bindR (decode_anchor_account X (decode_huma_config X) ''HumaConfig'' (acc_data huma_config_account)) (\<lambda>huma_config.
     bindR (decode_anchor_account X (decode_deployment_config X) ''DeploymentConfig''
       (acc_data deployment_config_account)) (\<lambda>deployment_config.
     bindR (from_deployment_config X deployment_config (pcf_underlying_mint pool_config)
       (hv_pool_authority_key self)) (\<lambda>strategy.
     bindR (decode_anchor_account X (decode_pool_state X) ''PoolState'' (acc_data pool_state_account)) (\<lambda>pool_state.
     bindR (ok_or (mode_index_for pool_state (hv_mode_config_key self))
       (missing_state ''mode_config_key not found in pool_state'')) (\<lambda>mode_index.
     bindR (read_mint_supply X (acc_data mode_mint_account)) (\<lambda>mode_supply.
     bindR (read_token_account_amount X (acc_data pool_underlying_account)) (\<lambda>pool_underlying_balance.
     bindR (read_clock X clock_account) (\<lambda>clock.
     bindR (token_info_new X (pcf_underlying_mint pool_config) underlying_mint_account (cl_epoch clock)) (\<lambda>t0.
     bindR (token_info_new X (hv_mode_mint_key self) mode_mint_account (cl_epoch clock)) (\<lambda>t1.
     Ok \<lparr>is_pool_config = pool_config,
         is_pool_state = pool_state,
         is_huma_config = huma_config,
         is_deployment_config_key = deployment_config_key,
         is_deployment_state_key = derive_deployment_state X deployment_config_key,
         is_pool_underlying_token_key = pool_underlying_token_key,
         is_treasury_underlying_token_key =
           ata_with_program X (pcf_pool_owner_treasury pool_config) (pcf_underlying_mint pool_config)
             SPL_TOKEN_PROGRAM_ID,
         is_underlying_token_program = acc_owner underlying_mint_account,
         is_mode_token_program = acc_owner mode_mint_account,
         is_mode_index = mode_index,
         is_mode_supply = mode_supply,
         is_pool_underlying_balance = pool_underlying_balance,
         is_current_ts = amount_or_zero (cl_unix_timestamp clock),
         is_strategy = strategy,
         is_token_info = [t0, t1]\<rparr>))))))))))))))))))"

definition huma_round_2 ::
  "'x huma_ext_scheme \<Rightarrow> ('c \<Rightarrow> pubkey list \<Rightarrow> (account_cache_error, account option list) res \<times> 'c)
    \<Rightarrow> pool_config \<Rightarrow> (huma_venue \<times> 'c, venue_error, initialized_state) stateful" where
  "huma_round_2 X fetch pool_config =
     bindS getS (\<lambda>s. let self = fst s in
     bindS (liftS (ok_or (liquidity_source (pcf_instant_withdrawal_config pool_config))
       (missing_state ''PoolConfig.liquidity_source''))) (\<lambda>deployment_config_key.
     let pool_underlying_token_key =
       ata_with_program X (hv_pool_authority_key self) (pcf_underlying_mint pool_config) SPL_TOKEN_PROGRAM_ID in
     bindS (fetchS fetch
       [pcf_huma_config pool_config, deployment_config_key, hv_pool_state_key self, hv_mode_mint_key self,
        pool_underlying_token_key, pcf_underlying_mint pool_config, CLOCK_ID]) (\<lambda>accounts.
     liftS (huma_decode_round_2 X self pool_config deployment_config_key pool_underlying_token_key accounts))))"

text \<open>Round 3: the strategy's own accounts; then the mode configuration and the state are set.\<close>

definition huma_update_state ::
  "'x huma_ext_scheme \<Rightarrow> ('c \<Rightarrow> pubkey list \<Rightarrow> (account_cache_error, account option list) res \<times> 'c)
    \<Rightarrow> (huma_venue \<times> 'c, venue_error, unit) stateful" where
  "huma_update_state X fetch =
     bindS (huma_round_1 X fetch) (\<lambda>(pool_config, mode_config).
     bindS (huma_round_2 X fetch pool_config) (\<lambda>st.
     bindS (localS (is_strategy st) (strategy_update X fetch)) (\<lambda>strategy.
     venueS (\<lambda>v. v\<lparr>hv_mode_config := mode_config, hv_state := Some (st\<lparr>is_strategy := strategy\<rparr>)\<rparr>))))"

definition huma_required_pubkeys :: "huma_venue \<Rightarrow> (venue_error, pubkey list) res" where
  "huma_required_pubkeys v =
     bindR (venue_state v) (\<lambda>s.
     Ok ([hv_pool_config_key v, hv_mode_config_key v, hv_pool_state_key v, hv_mode_mint_key v,
          pcf_underlying_mint (is_pool_config s), is_pool_underlying_token_key s,
          is_deployment_config_key s, pcf_huma_config (is_pool_config s), CLOCK_ID] @
         strategy_required_pubkeys (is_strategy s)))"

section \<open>Quoting\<close>

definition quote_result_of ::
  "quote_request \<Rightarrow> u64 \<Rightarrow> u64 \<Rightarrow> bool \<Rightarrow> f64 \<Rightarrow> quote_result" where
  "quote_result_of request amount expected_output partly price =
     \<lparr>qr_input_mint = req_input_mint request,
      qr_output_mint = req_output_mint request,
      qr_amount = amount,
      qr_expected_output = expected_output,
      qr_not_enough_liquidity = partly,
      qr_price = price\<rparr>"

definition venue_mode_assets ::
  "'x huma_ext_scheme \<Rightarrow> huma_venue \<Rightarrow> initialized_state \<Rightarrow> (venue_error, u64) res" where
  "venue_mode_assets X v s =
     bindR (mode_state (is_pool_state s) (is_mode_index s)) (\<lambda>ms.
     Ok (refreshed_assets X ms (mc_periodic_apy_bps (hv_mode_config v)) (is_current_ts s)))"

definition quote_deposit ::
  "'x huma_ext_scheme \<Rightarrow> huma_venue \<Rightarrow> quote_request \<Rightarrow> (venue_error, quote_result) res" where
  "quote_deposit X v request =
     bindR (venue_state v) (\<lambda>s.
     bindR (venue_mode_assets X v s) (\<lambda>mode_assets.
     let price = deposit_price mode_assets (is_mode_supply s);
         assets = req_amount request;
         lp = pcf_lp_config (is_pool_config s)
     in if assets = 0 then Ok (quote_result_of request 0 0 False price)
        else if assets < min_deposit_amount lp then Err (amm_method_error ''deposit below minimum'')
        else
          bindR (refreshed_total_assets (is_pool_state s) (is_mode_index s) mode_assets) (\<lambda>total_assets.
          let available_cap = ucast (saturating_sub (liquidity_cap lp) (ucast total_assets)) :: u64 in
          if available_cap = 0 then Err (amm_method_error ''liquidity cap reached'')
          else
            let assets_to_serve = min assets available_cap in
            bindR (shares_for_deposit assets_to_serve mode_assets (is_mode_supply s)) (\<lambda>shares.
            bindR (ok_or shares (amm_method_error ''zero shares minted'')) (\<lambda>shares.
            Ok (quote_result_of request assets_to_serve shares (assets_to_serve < assets) price))))))"

definition not_available :: venue_error where
  "not_available = amm_method_error ''instant withdrawal not available''"

definition price_for ::
  "initialized_state \<Rightarrow> u64 \<Rightarrow> u64 \<Rightarrow> u64 \<Rightarrow> u64 \<Rightarrow> (venue_error, f64) res" where
  "price_for s mode_assets total_assets pool_available_balance n =
     bindR (instant_withdraw_price n mode_assets total_assets (is_mode_supply s) pool_available_balance
       (ps_liquid_assets_deployed (is_pool_state s))
       (pcf_instant_withdrawal_config (is_pool_config s))) (\<lambda>price.
     ok_or price not_available)"

definition window_limit_reached :: "initialized_state \<Rightarrow> u64 \<Rightarrow> bool" where
  "window_limit_reached s shares =
     (let lp = pcf_lp_config (is_pool_config s); r = ps_redemption (is_pool_state s) in
      would_exceed (rd_instant_withdrawal_gating r) shares (is_current_ts s)
        (ucast (max_instant_withdrawal_shares_per_window lp)) \<or>
      would_exceed (rd_global_redemption_gating r) shares (is_current_ts s)
        (ucast (max_total_redemption_shares_per_window lp)))"

text \<open>The shares the pool and the strategy can pay out.\<close>

definition max_servable_shares :: "initialized_state \<Rightarrow> u64 \<Rightarrow> u64 \<Rightarrow> (venue_error, u64) res" where
  "max_servable_shares s mode_assets pool_available_balance =
     (let max_servable_underlying =
        min (saturating_add pool_available_balance (available_liquidity_for_withdrawal (is_strategy s))) mode_assets
      in if mode_assets = 0 then Ok 0 else mul_div max_servable_underlying (is_mode_supply s) mode_assets)"

definition quote_instant_withdraw ::
  "'x huma_ext_scheme \<Rightarrow> huma_venue \<Rightarrow> quote_request \<Rightarrow> (venue_error, quote_result) res" where
  "quote_instant_withdraw X v request =
     bindR (venue_state v) (\<lambda>s.
     let config = pcf_instant_withdrawal_config (is_pool_config s) in
     bindR (venue_mode_assets X v s) (\<lambda>mode_assets.
     bindR (refreshed_total_assets (is_pool_state s) (is_mode_index s) mode_assets) (\<lambda>total_assets.
     let pool_available_balance =
           get_available_balance (is_pool_state s) (is_pool_underlying_balance s)
             (instant_withdrawal_reserve_limit config);
         price_at = price_for s mode_assets total_assets pool_available_balance;
         shares = req_amount request
     in if shares = 0 then bindR (price_at 0) (\<lambda>price. Ok (quote_result_of request 0 0 False price))
        else if \<not> all_mode_assets_fresh (is_pool_state s) (is_current_ts s) then
          Err (amm_method_error ''mode assets stale'')
        else if window_limit_reached s shares then
          Err (amm_method_error ''instant withdrawal window limit reached'')
        else
          bindR (max_servable_shares s mode_assets pool_available_balance) (\<lambda>max_shares.
          let shares_to_serve = min shares max_shares in
          if shares_to_serve = 0 then bindR (price_at 0) (\<lambda>price. Ok (quote_result_of request 0 0 True price))
          else
            bindR (underlying_for_instant_withdraw shares_to_serve mode_assets total_assets (is_mode_supply s)
              pool_available_balance (ps_liquid_assets_deployed (is_pool_state s)) config) (\<lambda>result.
            bindR (ok_or result not_available) (\<lambda>out.
            bindR (price_at shares_to_serve) (\<lambda>price.
            Ok (quote_result_of request shares_to_serve out (shares_to_serve < shares) price))))))))"

definition huma_swap_direction :: "huma_venue \<Rightarrow> pubkey \<Rightarrow> pubkey \<Rightarrow> (venue_error, huma_direction) res" where
  "huma_swap_direction v input_mint output_mint =
     bindR (venue_state v) (\<lambda>s.
     let underlying = pcf_underlying_mint (is_pool_config s) in
     if input_mint = underlying \<and> output_mint = hv_mode_mint_key v then Ok DepositDirection
     else if input_mint = hv_mode_mint_key v \<and> output_mint = underlying then Ok InstantWithdrawDirection
     else Err (InvalidMint (EPubkey input_mint)))"

definition huma_quote ::
  "'x huma_ext_scheme \<Rightarrow> huma_venue \<Rightarrow> quote_request \<Rightarrow> (venue_error, quote_result) res" where
  "huma_quote X v request =
     (if req_swap_type request = ExactOut then Err ExactOutNotSupported
      else if \<not> is_active v then Err (InactivePoolError (hv_pool_config_key v) Huma)
      else
        bindR (huma_swap_direction v (req_input_mint request) (req_output_mint request)) (\<lambda>direction.
        case direction of
          DepositDirection \<Rightarrow> quote_deposit X v request
        | InstantWithdrawDirection \<Rightarrow> quote_instant_withdraw X v request))"

section \<open>Instructions and lookup tables\<close>

definition deposit_account_metas ::
  "'x ext_scheme \<Rightarrow> huma_venue \<Rightarrow> pubkey \<Rightarrow> (venue_error, account_meta list) res" where
  "deposit_account_metas X v user =
     bindR (venue_state v) (\<lambda>s.
     let config = is_pool_config s;
         depositor_underlying = ata_with_program X user (pcf_underlying_mint config) (is_underlying_token_program s);
         depositor_mode = ata_with_program X user (hv_mode_mint_key v) (is_mode_token_program s)
     in Ok [meta_readonly user True,
            meta_readonly (pcf_huma_config config) False,
            meta_readonly (hv_pool_config_key v) False,
            meta_new (hv_pool_state_key v) False,
            meta_readonly (hv_mode_config_key v) False,
            meta_new (hv_mode_mint_key v) False,
            meta_readonly (hv_pool_authority_key v) False,
            meta_readonly (pcf_underlying_mint config) False,
            meta_new (is_pool_underlying_token_key s) False,
            meta_new depositor_underlying False,
            meta_new depositor_mode False,
            meta_readonly (is_underlying_token_program s) False,
            meta_readonly (is_mode_token_program s) False])"

definition instant_withdraw_account_metas ::
  "'x ext_scheme \<Rightarrow> huma_venue \<Rightarrow> pubkey \<Rightarrow> (venue_error, account_meta list) res" where
  "instant_withdraw_account_metas X v user =
     bindR (venue_state v) (\<lambda>s.
     let config = is_pool_config s;
         lender_state_key = derive_lender_state X (hv_mode_config_key v) user;
         lender_underlying = ata_with_program X user (pcf_underlying_mint config) (is_underlying_token_program s);
         lender_mode = ata_with_program X user (hv_mode_mint_key v) (is_mode_token_program s)
     in Ok ([meta_readonly user True,
             meta_readonly (pcf_huma_config config) False,
             meta_readonly (hv_pool_config_key v) False,
             meta_new (hv_pool_state_key v) False,
             meta_readonly (hv_mode_config_key v) False,
             meta_new (hv_mode_mint_key v) False,
             meta_readonly (is_deployment_config_key s) False,
             meta_new (is_deployment_state_key s) False,
             meta_new lender_state_key False,
             meta_readonly (pcf_underlying_mint config) False,
             meta_new (hv_pool_authority_key v) False,
             meta_new (is_pool_underlying_token_key s) False,
             meta_new lender_underlying False,
             meta_new (is_treasury_underlying_token_key s) False,
             meta_new lender_mode False,
             meta_readonly (is_underlying_token_program s) False,
             meta_readonly (is_mode_token_program s) False] @
            strategy_remaining_accounts X (is_strategy s) (is_underlying_token_program s)))"

definition create_lender_accounts_ix ::
  "'x ext_scheme \<Rightarrow> huma_venue \<Rightarrow> pubkey \<Rightarrow> pubkey \<Rightarrow> (venue_error, instruction) res" where
  "create_lender_accounts_ix X v payer lender =
     bindR (venue_state v) (\<lambda>s.
     let lender_state = derive_lender_state X (hv_mode_config_key v) lender;
         lender_mode_token = ata_with_program X lender (hv_mode_mint_key v) (is_mode_token_program s)
     in bindR (huma_pack X CreateLenderAccountsV2) (\<lambda>data.
        Ok \<lparr>ix_program_id = PROGRAM_ID,
            ix_accounts =
              [meta_new payer True,
               meta_readonly lender False,
               meta_readonly (pcf_huma_config (is_pool_config s)) False,
               meta_readonly (hv_pool_config_key v) False,
               meta_readonly (hv_pool_state_key v) False,
               meta_readonly (hv_mode_config_key v) False,
               meta_readonly (hv_mode_mint_key v) False,
               meta_new lender_state False,
               meta_new lender_mode_token False,
               meta_readonly (is_mode_token_program s) False,
               meta_readonly ASSOCIATED_TOKEN_PROGRAM_ID False,
               meta_readonly SYSTEM_PROGRAM_ID False],
            ix_data = data\<rparr>))"

definition huma_generate_swap_instruction ::
  "'x ext_scheme \<Rightarrow> huma_venue \<Rightarrow> quote_request \<Rightarrow> pubkey \<Rightarrow> (venue_error, instruction) res" where
  "huma_generate_swap_instruction X v request user =
     (if req_swap_type request = ExactOut then Err ExactOutNotSupported
      else
        bindR (huma_swap_direction v (req_input_mint request) (req_output_mint request)) (\<lambda>direction.
        case direction of
          DepositDirection \<Rightarrow>
            bindR (deposit_account_metas X v user) (\<lambda>accounts.
            bindR (huma_pack X (Deposit (req_amount request))) (\<lambda>data.
            Ok \<lparr>ix_program_id = PROGRAM_ID, ix_accounts = accounts, ix_data = data\<rparr>))
        | InstantWithdrawDirection \<Rightarrow>
            bindR (instant_withdraw_account_metas X v user) (\<lambda>accounts.
            bindR (huma_pack X (InstantWithdraw (req_amount request) u64_MAX)) (\<lambda>data.
            Ok \<lparr>ix_program_id = PROGRAM_ID, ix_accounts = accounts, ix_data = data\<rparr>))))"

definition huma_lookup_table_keys :: "huma_venue \<Rightarrow> (venue_error, pubkey list) res" where
  "huma_lookup_table_keys v =
     bindR (venue_state v) (\<lambda>s.
     Ok ([PROGRAM_ID, HUMA_PROGRAM_ID, hv_pool_config_key v, hv_mode_config_key v, hv_pool_state_key v,
          hv_pool_authority_key v, hv_mode_mint_key v, pcf_underlying_mint (is_pool_config s),
          pcf_huma_config (is_pool_config s), is_pool_underlying_token_key s,
          is_treasury_underlying_token_key s, is_deployment_config_key s, is_deployment_state_key s,
          is_underlying_token_program s, is_mode_token_program s] @
         strategy_lookup_table_keys (is_strategy s)))"

definition huma_trading_venue :: "'x huma_ext_scheme \<Rightarrow> huma_venue \<Rightarrow> trading_venue" where
  "huma_trading_venue X v =
     \<lparr>v_initialized = (hv_state v \<noteq> None),
      v_program_id = PROGRAM_ID,
      v_program_dependencies =
        [PROGRAM_ID, HUMA_PROGRAM_ID, JUP_LENDING_PROGRAM_ID, JUP_LIQUIDITY_PROGRAM_ID,
         JUP_LRRM_PROGRAM_ID, KLEND_PROGRAM_ID],
      v_market_id = hv_mode_config_key v,
      v_get_token_info = (case hv_state v of None \<Rightarrow> [] | Some s \<Rightarrow> is_token_info s),
      v_protocol = Huma,
      v_required_pubkeys = huma_required_pubkeys v,
      v_quote = huma_quote X v,
      v_generate_swap_instruction = huma_generate_swap_instruction X v\<rparr>"

section \<open>A venue that can be quoted\<close>

text \<open>
  The state of an initialized venue is in order when the mode has an entry in the pool
  state, the assets of all modes add up within 128 bits, and the fee brackets ascend.
\<close>

definition state_ready :: "initialized_state \<Rightarrow> bool" where
  "state_ready s \<longleftrightarrow>
     is_mode_index s < length (ps_mode_states (is_pool_state s)) \<and>
     sum_list (map (\<lambda>m. unat (ms_assets m)) (ps_mode_states (is_pool_state s))) < 2 ^ 128 \<and>
     wf_fees (instant_withdrawal_fee_configs (pcf_instant_withdrawal_config (is_pool_config s)))"

definition huma_ready :: "huma_venue \<Rightarrow> bool" where
  "huma_ready v = (case hv_state v of None \<Rightarrow> True | Some s \<Rightarrow> state_ready s)"

lemma sum_p_eq:
  "unat acc + sum_list (map unat xs) < 2 ^ 128 \<Longrightarrow>
    \<exists>t. (sum_p acc xs :: ('e, u128) res) = Ok t \<and> unat t = unat acc + sum_list (map unat xs)"
proof (induction xs arbitrary: acc)
  case (Cons x xs)
  then have "unat acc + unat x < 2 ^ LENGTH(128)" by simp
  then have "add_p acc x = (Ok (acc + x) :: ('e, u128) res)" "unat (acc + x) = unat acc + unat x"
    by (simp_all add: add_p_def checked_add_def unat_add_fits)
  then show ?case using Cons.IH [of "acc + x"] Cons.prems by (simp add: ac_simps)
qed simp

lemma ready_total:
  assumes "state_ready s"
  obtains ms t where "mode_state (is_pool_state s) (is_mode_index s) = (Ok ms :: ('e, mode_state) res)"
    "get_pool_total_assets (is_pool_state s) = (Ok t :: ('e, u64) res)"
proof -
  have "sum_list (map unat (map ms_assets (ps_mode_states (is_pool_state s)))) < 2 ^ 128"
    using assms by (simp add: state_ready_def comp_def)
  then obtain t where "sum_p 0 (map ms_assets (ps_mode_states (is_pool_state s))) = (Ok t :: ('e, u128) res)"
    using sum_p_eq [of 0 "map ms_assets (ps_mode_states (is_pool_state s))"] by auto
  then show thesis
    using assms that by (auto simp: state_ready_def mode_state_def get_def get_pool_total_assets_def)
qed

text \<open>The shares that can be served, where nothing panics.\<close>

definition servable_shares :: "initialized_state \<Rightarrow> u64 \<Rightarrow> u64 \<Rightarrow> u64" where
  "servable_shares s mode_assets pool_available_balance =
     (let max_servable_underlying =
        min (saturating_add pool_available_balance (available_liquidity_for_withdrawal (is_strategy s))) mode_assets
      in if mode_assets = 0 then 0 else scale max_servable_underlying (is_mode_supply s) mode_assets)"

lemma max_servable_shares_eq [simp]: "max_servable_shares s a b = Ok (servable_shares s a b)"
  by (simp add: max_servable_shares_def servable_shares_def mul_div_eq Let_def)

lemma compute_fee_no_panic:
  "wf_fees (instant_withdrawal_fee_configs config) \<Longrightarrow> L \<le> T \<Longrightarrow>
    compute_instant_withdrawal_fee config T L w \<noteq> Panic"
  by (simp add: compute_fee_eq Let_def split: option.splits)

lemma underlying_no_panic:
  "wf_fees (instant_withdrawal_fee_configs config) \<Longrightarrow>
    underlying_for_instant_withdraw shares assets t supply' b d config \<noteq> Panic"
  by (auto simp: underlying_scaled Let_def bindR_eq_Inl compute_fee_no_panic liquid_le_total
      split: option.splits)

lemma price_for_no_panic: "price_for s a t b n \<noteq> Panic"
  by (auto simp: price_for_def instant_withdraw_price_eq bindR_eq_Inl marginal_fee_no_panic)

lemma venue_state_no_panic [simp]: "venue_state v \<noteq> Panic"
  by (simp add: venue_state_def)

lemma venue_state_eq [simp]: "venue_state v = Inr s \<longleftrightarrow> hv_state v = Some s"
  by (simp add: venue_state_def res_inv)

lemma ready_inputs:
  assumes "state_ready s"
  obtains a t where "venue_mode_assets X v s = Ok a"
    "refreshed_total_assets (is_pool_state s) (is_mode_index s) a = (Ok t :: (venue_error, u64) res)"
proof -
  obtain ms t where "mode_state (is_pool_state s) (is_mode_index s) = (Ok ms :: (venue_error, mode_state) res)"
    "get_pool_total_assets (is_pool_state s) = (Ok t :: (venue_error, u64) res)"
    by (rule ready_total [OF assms])
  then show thesis by (intro that) (simp_all add: venue_mode_assets_def refreshed_total_assets_def)
qed

lemma quote_deposit_no_panic:
  assumes "huma_ready v"
  shows "quote_deposit X v request \<noteq> Panic"
proof (cases "hv_state v")
  case None
  then show ?thesis by (simp add: quote_deposit_def venue_state_def)
next
  case (Some s)
  then have ready: "state_ready s" using assms by (simp add: huma_ready_def)
  obtain a t where "venue_mode_assets X v s = Ok a"
    "refreshed_total_assets (is_pool_state s) (is_mode_index s) a = (Ok t :: (venue_error, u64) res)"
    by (rule ready_inputs [OF ready])
  then show ?thesis
    using Some by (simp add: quote_deposit_def venue_state_def Let_def bindR_eq_Inl)
qed

lemma quote_instant_withdraw_no_panic:
  assumes "huma_ready v"
  shows "quote_instant_withdraw X v request \<noteq> Panic"
proof (cases "hv_state v")
  case None
  then show ?thesis by (simp add: quote_instant_withdraw_def venue_state_def)
next
  case (Some s)
  then have ready: "state_ready s" using assms by (simp add: huma_ready_def)
  obtain a t where "venue_mode_assets X v s = Ok a"
    "refreshed_total_assets (is_pool_state s) (is_mode_index s) a = (Ok t :: (venue_error, u64) res)"
    by (rule ready_inputs [OF ready])
  moreover have "wf_fees (instant_withdrawal_fee_configs (pcf_instant_withdrawal_config (is_pool_config s)))"
    using ready by (simp add: state_ready_def)
  ultimately show ?thesis
    using Some
    by (simp add: quote_instant_withdraw_def venue_state_def Let_def bindR_eq_Inl price_for_no_panic underlying_no_panic)
qed

lemma huma_quote_no_panic:
  assumes "huma_ready v"
  shows "huma_quote X v request \<noteq> Panic"
  using quote_deposit_no_panic [OF assms] quote_instant_withdraw_no_panic [OF assms]
  by (auto simp: huma_quote_def huma_swap_direction_def Let_def bindR_eq_Inl split: huma_direction.splits)

section \<open>What a quote says\<close>

lemma qr_simps [simp]:
  "qr_input_mint (quote_result_of r a e p f) = req_input_mint r"
  "qr_output_mint (quote_result_of r a e p f) = req_output_mint r"
  "qr_amount (quote_result_of r a e p f) = a"
  "qr_expected_output (quote_result_of r a e p f) = e"
  "qr_not_enough_liquidity (quote_result_of r a e p f) = p"
  "qr_price (quote_result_of r a e p f) = f"
  by (simp_all add: quote_result_of_def)

lemma scale_le: "unat (scale x y d) * unat d \<le> unat x * unat y"
  using div_scaled_le [of "ucast x" "ucast y" "ucast d"] by (simp add: scale_def unat_ops)

text \<open>The room left under the liquidity cap, as the code casts it.\<close>

definition available_cap :: "initialized_state \<Rightarrow> u64 \<Rightarrow> u64" where
  "available_cap s total_assets =
     ucast (saturating_sub (liquidity_cap (pcf_lp_config (is_pool_config s))) (ucast total_assets))"

lemma available_cap_le:
  "unat (available_cap s t) \<le> unat (liquidity_cap (pcf_lp_config (is_pool_config s))) - unat t"
proof -
  have "unat (available_cap s t) \<le>
      unat (saturating_sub (liquidity_cap (pcf_lp_config (is_pool_config s))) (ucast t))"
    by (simp add: available_cap_def unat_narrow)
  then show ?thesis by (simp add: unat_ops)
qed

lemma quote_deposit_eq:
  assumes "hv_state v = Some s" "venue_mode_assets X v s = Ok a"
    and "refreshed_total_assets (is_pool_state s) (is_mode_index s) a = (Ok t :: (venue_error, u64) res)"
    and "req_amount r \<noteq> 0"
  shows "quote_deposit X v r =
    (if req_amount r < min_deposit_amount (pcf_lp_config (is_pool_config s)) then
       Err (amm_method_error ''deposit below minimum'')
     else if available_cap s t = 0 then Err (amm_method_error ''liquidity cap reached'')
     else
       case deposit_shares (min (req_amount r) (available_cap s t)) a (is_mode_supply s) of
         None \<Rightarrow> Err (amm_method_error ''zero shares minted'')
       | Some shares \<Rightarrow>
           Ok (quote_result_of r (min (req_amount r) (available_cap s t)) shares
             (min (req_amount r) (available_cap s t) < req_amount r) (deposit_price a (is_mode_supply s))))"
  using assms by (simp add: quote_deposit_def Let_def available_cap_def venue_state_def split: option.splits)

lemma quote_deposit_Ok:
  assumes "quote_deposit X v r = Ok q" "req_amount r \<noteq> 0"
  obtains s a t shares where "hv_state v = Some s" "venue_mode_assets X v s = Ok a"
    "refreshed_total_assets (is_pool_state s) (is_mode_index s) a = (Ok t :: (venue_error, u64) res)"
    "min_deposit_amount (pcf_lp_config (is_pool_config s)) \<le> req_amount r" "available_cap s t \<noteq> 0"
    "deposit_shares (min (req_amount r) (available_cap s t)) a (is_mode_supply s) = Some shares"
    "q = quote_result_of r (min (req_amount r) (available_cap s t)) shares
      (min (req_amount r) (available_cap s t) < req_amount r) (deposit_price a (is_mode_supply s))"
  using assms
  by (auto simp: quote_deposit_def Let_def res_inv available_cap_def split: if_splits intro!: that)

lemma quote_deposit_0:
  assumes "quote_deposit X v r = Ok q" "req_amount r = 0"
  shows "qr_amount q = 0" "qr_expected_output q = 0" "\<not> qr_not_enough_liquidity q"
  using assms by (auto simp: quote_deposit_def Let_def res_inv)

definition available_balance :: "initialized_state \<Rightarrow> u64" where
  "available_balance s =
     get_available_balance (is_pool_state s) (is_pool_underlying_balance s)
       (instant_withdrawal_reserve_limit (pcf_instant_withdrawal_config (is_pool_config s)))"

abbreviation payout :: "initialized_state \<Rightarrow> u64 \<Rightarrow> u64 \<Rightarrow> u64 \<Rightarrow> (venue_error, u64 option) res" where
  "payout s a t x \<equiv> underlying_for_instant_withdraw x a t (is_mode_supply s) (available_balance s)
     (ps_liquid_assets_deployed (is_pool_state s)) (pcf_instant_withdrawal_config (is_pool_config s))"

lemma quote_instant_withdraw_Ok:
  assumes "quote_instant_withdraw X v r = Ok q" "req_amount r \<noteq> 0"
  obtains (empty) s a t price where "hv_state v = Some s" "venue_mode_assets X v s = Ok a"
    "refreshed_total_assets (is_pool_state s) (is_mode_index s) a = (Ok t :: (venue_error, u64) res)"
    "all_mode_assets_fresh (is_pool_state s) (is_current_ts s)" "\<not> window_limit_reached s (req_amount r)"
    "servable_shares s a (available_balance s) = 0" "q = quote_result_of r 0 0 True price"
  | (paid) s a t price x out where "hv_state v = Some s" "venue_mode_assets X v s = Ok a"
    "refreshed_total_assets (is_pool_state s) (is_mode_index s) a = (Ok t :: (venue_error, u64) res)"
    "all_mode_assets_fresh (is_pool_state s) (is_current_ts s)" "\<not> window_limit_reached s (req_amount r)"
    "x = min (req_amount r) (servable_shares s a (available_balance s))" "x \<noteq> 0"
    "payout s a t x = Ok (Some out)" "price_for s a t (available_balance s) x = Ok price"
    "q = quote_result_of r x out (x < req_amount r) price"
proof -
  from assms(1) obtain s a t where s: "hv_state v = Some s" and a: "venue_mode_assets X v s = Ok a"
    and t: "refreshed_total_assets (is_pool_state s) (is_mode_index s) a = (Ok t :: (venue_error, u64) res)"
    by (auto simp: quote_instant_withdraw_def Let_def res_inv)
  let ?x = "min (req_amount r) (servable_shares s a (available_balance s))"
  have q: "all_mode_assets_fresh (is_pool_state s) (is_current_ts s)" "\<not> window_limit_reached s (req_amount r)"
    "(if ?x = 0 then bindR (price_for s a t (available_balance s) 0) (\<lambda>price. Ok (quote_result_of r 0 0 True price))
      else bindR (payout s a t ?x) (\<lambda>result. bindR (ok_or result not_available) (\<lambda>out.
        bindR (price_for s a t (available_balance s) ?x) (\<lambda>price.
          Ok (quote_result_of r ?x out (?x < req_amount r) price))))) = Ok q"
    using assms s a t
    by (auto simp: quote_instant_withdraw_def Let_def venue_state_def available_balance_def split: if_splits)
  show thesis
  proof (cases "?x = 0")
    case True
    then have "servable_shares s a (available_balance s) = 0" using assms(2) by (simp add: min_def split: if_splits)
    then show thesis using True q s a t by (auto simp: res_inv intro!: empty)
  next
    case False
    then show thesis using q s a t by (auto simp: res_inv intro!: paid)
  qed
qed

lemma quote_instant_withdraw_0:
  assumes "quote_instant_withdraw X v r = Ok q" "req_amount r = 0"
  shows "qr_amount q = 0" "qr_expected_output q = 0" "\<not> qr_not_enough_liquidity q"
  using assms by (auto simp: quote_instant_withdraw_def Let_def res_inv)

lemma shares_for_deposit_nonzero: "deposit_shares x a p = Some y \<Longrightarrow> x \<noteq> 0 \<Longrightarrow> y \<noteq> 0"
  by (auto simp: deposit_shares_def Let_def split: if_splits)

lemma payout_nonzero: "underlying_for_instant_withdraw x a t p b d c = Ok (Some y) \<Longrightarrow> y \<noteq> 0"
  by (auto simp: underlying_scaled Let_def res_inv split: option.splits if_splits)

lemma huma_quote_Ok:
  assumes "huma_quote X v r = Ok q"
  shows "req_swap_type r = ExactIn" "is_active v" "quote_deposit X v r = Ok q \<or> quote_instant_withdraw X v r = Ok q"
proof -
  show e: "req_swap_type r = ExactIn"
    using assms by (cases "req_swap_type r") (simp_all add: huma_quote_def)
  show a: "is_active v" using assms e by (simp add: huma_quote_def split: if_splits)
  show "quote_deposit X v r = Ok q \<or> quote_instant_withdraw X v r = Ok q"
  proof -
    obtain d where "(case d of DepositDirection \<Rightarrow> quote_deposit X v r
        | InstantWithdrawDirection \<Rightarrow> quote_instant_withdraw X v r) = Ok q"
      using assms by (auto simp: huma_quote_def e a bindR_eq_Inr)
    then show ?thesis by (cases d) simp_all
  qed
qed

lemma quote_mints:
  "quote_deposit X v r = Ok q \<Longrightarrow> qr_input_mint q = req_input_mint r \<and> qr_output_mint q = req_output_mint r"
  "quote_instant_withdraw X v r = Ok q \<Longrightarrow> qr_input_mint q = req_input_mint r \<and> qr_output_mint q = req_output_mint r"
  by (auto simp: quote_deposit_def quote_instant_withdraw_def Let_def res_inv split: if_splits)

lemma partial_fill:
  assumes "quote_deposit X v r = Ok q \<or> quote_instant_withdraw X v r = Ok q"
  shows "qr_amount q \<le> req_amount r" "qr_not_enough_liquidity q \<longleftrightarrow> qr_amount q < req_amount r"
    "qr_amount q = 0 \<longleftrightarrow> qr_expected_output q = 0"
proof -
  have "qr_amount q \<le> req_amount r \<and> (qr_not_enough_liquidity q \<longleftrightarrow> qr_amount q < req_amount r) \<and>
      (qr_amount q = 0 \<longleftrightarrow> qr_expected_output q = 0)"
  proof (cases "req_amount r = 0")
    case True
    show ?thesis
      using assms quote_deposit_0 [OF _ True, of X v q] quote_instant_withdraw_0 [OF _ True, of X v q] True by auto
  next
    case False
    show ?thesis
    using assms
    proof
      assume "quote_deposit X v r = Ok q"
      then show ?thesis
        by (rule quote_deposit_Ok [OF _ False]) (use False shares_for_deposit_nonzero in \<open>auto simp: min_def\<close>)
    next
      assume "quote_instant_withdraw X v r = Ok q"
      from this False show ?thesis
      proof (cases rule: quote_instant_withdraw_Ok [consumes 2, case_names empty paid])
        case (paid s a t price x out)
        then show ?thesis using payout_nonzero [OF paid(8)] by simp
      qed (use False in \<open>simp_all add: word_neq_0_conv\<close>)
    qed
  qed
  then show "qr_amount q \<le> req_amount r" "qr_not_enough_liquidity q \<longleftrightarrow> qr_amount q < req_amount r"
    "qr_amount q = 0 \<longleftrightarrow> qr_expected_output q = 0" by blast+
qed

end
