(* ===== verification/Huma_Quotes.thy ===== *)
theory Huma_Quotes
  imports Huma_Venue
begin

text \<open>
  What the quotes of the Huma venue promise: bounds on what they serve and pay, the
  shape of the quotable range, and the boundary search over it (the venue as an
  instance of \<open>convex_quoter\<close>).
\<close>

section \<open>The fee at smaller withdrawals\<close>

lemma bracket_at_smaller:
  fixes T L w w' :: u64
  assumes cs: "wf_fees (instant_withdrawal_fee_configs config)" and LT: "L \<le> T"
    and fd: "fees_descend (instant_withdrawal_fee_configs config)"
    and f': "compute_instant_withdrawal_fee config T L w' = (Ok (Some f') :: ('e, u64 option) res)"
    and w: "w \<le> w'" "w' \<noteq> 0"
  obtains s e where "starts_in (instant_withdrawal_fee_configs config) (unat T) (unat L) s"
    "ends_in (instant_withdrawal_fee_configs config) (unat T) (unat L) (unat w) e"
    "fee_of (instant_withdrawal_fee_configs config ! e) < 10000" "w < T"
    "marginal_fee_bps config T L w =
      (Ok (Some (fee_bps (instant_withdrawal_fee_configs config ! e))) :: ('e, u16 option) res)"
proof -
  let ?cs = "instant_withdrawal_fee_configs config"
  obtain s where st: "starts_in ?cs (unat T) (unat L) s" and wT: "w' < T"
    by (rule compute_fee_Some [OF cs LT f' w(2)])
  then have lt: "unat w < unat T" "unat w' < unat T" using w by (auto simp: word_less_nat_alt word_le_nat_alt)
  obtain e where e: "ends_in ?cs (unat T) (unat L) (unat w) e" "e \<le> s" by (rule ends_before [OF st lt(1)])
  obtain e' where e': "ends_in ?cs (unat T) (unat L) (unat w') e'" "e' \<le> s" by (rule ends_before [OF st lt(2)])
  have pos: "position (\<lambda>c. in_ratio (ratio_of c) (unat T) (unat L)) ?cs = Some s"
    using st by (simp add: starts_in_def)
  have full: "fee_of (?cs ! e') \<noteq> 10000"
    using f' \<open>w' \<noteq> 0\<close> wT e'(1)
    by (auto simp: compute_fee_eq [OF cs LT] Let_def pos ends_in_def split: if_splits)
  have "e' \<le> e" by (rule ends_in_antimono [OF e(1) e'(1)]) (use w st in \<open>auto simp: word_le_nat_alt starts_in_def\<close>)
  moreover have len: "e < length ?cs" using e(1) by (simp add: ends_in_def position_eq_Some)
  ultimately have "fee_of (?cs ! e) \<le> fee_of (?cs ! e')"
    using fd by (cases "e' = e") (auto simp: fees_descend_def sorted_wrt_iff_nth_less)
  then have less: "fee_of (?cs ! e) < 10000"
    using full starts_inD(6) [OF st e'(2)] by linarith
  then have "marginal_fee_bps config T L w = (Ok (Some (fee_bps (?cs ! e))) :: ('e, u16 option) res)"
    unfolding marginal_fee_Some using e(1) by blast
  with st e(1) less lt(1) show thesis by (intro that) (simp_all add: word_less_nat_alt)
qed

lemma fee_at_smaller:
  fixes T L w w' :: u64
  assumes cs: "wf_fees (instant_withdrawal_fee_configs config)" and LT: "L \<le> T"
    and fd: "fees_descend (instant_withdrawal_fee_configs config)"
    and f': "compute_instant_withdrawal_fee config T L w' = (Ok (Some f') :: ('e, u64 option) res)"
    and w: "w \<le> w'" "w \<noteq> 0"
  obtains f m where "compute_instant_withdrawal_fee config T L w = (Ok (Some f) :: ('e, u64 option) res)"
    "marginal_fee_bps config T L w = (Ok (Some m) :: ('e, u16 option) res)"
proof -
  let ?cs = "instant_withdrawal_fee_configs config"
  have w': "w' \<noteq> 0" using w by auto
  obtain s e where b: "starts_in ?cs (unat T) (unat L) s" "ends_in ?cs (unat T) (unat L) (unat w) e"
    "fee_of (?cs ! e) < 10000" "w < T"
    "marginal_fee_bps config T L w = (Ok (Some (fee_bps (?cs ! e))) :: ('e, u16 option) res)"
    by (rule bracket_at_smaller [OF cs LT fd f' w(1) w'])
  have "position (\<lambda>c. in_ratio (ratio_of c) (unat T) (unat L)) ?cs = Some s"
    using b(1) by (simp add: starts_in_def)
  then have "compute_instant_withdrawal_fee config T L w =
      (Ok (Some (of_nat (progressive_fee ?cs (unat T) (unat L) s (unat w)))) :: ('e, u64 option) res)"
    using w(2) b by (simp add: compute_fee_eq [OF cs LT] Let_def ends_in_def)
  then show thesis using b(5) by (rule that)
qed

section \<open>Payouts\<close>

abbreviation withdrawn :: "initialized_state \<Rightarrow> u64 \<Rightarrow> u64 \<Rightarrow> u64" where
  "withdrawn s a x \<equiv> scale x a (is_mode_supply s)"

abbreviation fee_on :: "initialized_state \<Rightarrow> u64 \<Rightarrow> u64 \<Rightarrow> (venue_error, u64 option) res" where
  "fee_on s t w \<equiv> compute_instant_withdrawal_fee (pcf_instant_withdrawal_config (is_pool_config s)) t
     (liquid_assets (ps_liquid_assets_deployed (is_pool_state s)) (available_balance s) t) w"

lemma payout_Some:
  "payout s a t x = Ok (Some out) \<longleftrightarrow>
    is_mode_supply s \<noteq> 0 \<and> (\<exists>fee. fee_on s t (withdrawn s a x) = Ok (Some fee) \<and>
      fee < withdrawn s a x \<and> out = withdrawn s a x - fee)"
  by (rule underlying_Some)

lemma max_servable_fits:
  assumes "x \<le> servable_shares s a b" "is_mode_supply s \<noteq> 0"
  shows "unat x * unat a div unat (is_mode_supply s) \<le>
      min (unat b + unat (available_liquidity_for_withdrawal (is_strategy s))) (unat a)"
    and "unat (withdrawn s a x) = unat x * unat a div unat (is_mode_supply s)"
proof -
  let ?m = "min (saturating_add b (available_liquidity_for_withdrawal (is_strategy s))) a"
  have "unat x * unat a \<le> unat ?m * unat (is_mode_supply s)"
  proof (cases "a = 0")
    case False
    then have "unat x \<le> unat (scale ?m (is_mode_supply s) a)"
      using assms(1) by (simp add: servable_shares_def Let_def word_le_nat_alt)
    then have "unat x * unat a \<le> unat (scale ?m (is_mode_supply s) a) * unat a" by (rule mult_le_mono1)
    then show ?thesis using scale_le order_trans by blast
  qed simp
  then have "unat x * unat a div unat (is_mode_supply s) \<le> unat ?m * unat (is_mode_supply s) div unat (is_mode_supply s)"
    by (rule div_le_mono)
  also have "\<dots> = unat ?m" using assms(2) by (simp add: unat_gt_0)
  also have "\<dots> \<le> min (unat b + unat (available_liquidity_for_withdrawal (is_strategy s))) (unat a)"
    by (simp add: unat_ops min.coboundedI1)
  finally show le: "unat x * unat a div unat (is_mode_supply s) \<le>
      min (unat b + unat (available_liquidity_for_withdrawal (is_strategy s))) (unat a)" .
  then have "unat x * unat a div unat (is_mode_supply s) < 2 ^ 64"
    using order_le_less_trans [of "unat x * unat a div unat (is_mode_supply s)" "unat a" "2 ^ 64"] by simp
  then show "unat (withdrawn s a x) = unat x * unat a div unat (is_mode_supply s)"
    by (rule unat_scale [OF assms(2)])
qed

lemma withdrawn_mono:
  assumes "x \<le> y" "y \<le> servable_shares s a b" "is_mode_supply s \<noteq> 0"
  shows "withdrawn s a x \<le> withdrawn s a y"
  unfolding word_le_nat_alt
  using assms max_servable_fits(2) [OF assms(2,3)] max_servable_fits(2) [OF order_trans [OF assms(1,2)] assms(3)]
  by (simp add: div_le_mono mult_le_mono1 word_le_nat_alt)

lemma payout_smaller:
  assumes ready: "state_ready s"
    and fd: "fees_descend (instant_withdrawal_fee_configs (pcf_instant_withdrawal_config (is_pool_config s)))"
    and xy: "x \<le> y" "y \<le> servable_shares s a b"
    and y: "payout s a t y = Ok (Some out')" and x: "withdrawn s a x \<noteq> 0"
  obtains fee m where "fee_on s t (withdrawn s a x) = Ok (Some fee)"
    "marginal_fee_bps (pcf_instant_withdrawal_config (is_pool_config s)) t
      (liquid_assets (ps_liquid_assets_deployed (is_pool_state s)) (available_balance s) t) (withdrawn s a x) =
      (Ok (Some m) :: (venue_error, u16 option) res)"
proof -
  obtain fee' where fee': "fee_on s t (withdrawn s a y) = Ok (Some fee')" and p: "is_mode_supply s \<noteq> 0"
    using y unfolding payout_Some by blast
  have cs: "wf_fees (instant_withdrawal_fee_configs (pcf_instant_withdrawal_config (is_pool_config s)))"
    using ready by (simp add: state_ready_def)
  show thesis
    by (rule fee_at_smaller [OF cs liquid_le_total fd fee' withdrawn_mono [OF xy p] x]) (rule that)
qed

lemma payout_mono:
  assumes cs: "wf_fees (instant_withdrawal_fee_configs (pcf_instant_withdrawal_config (is_pool_config s)))"
    and xy: "x \<le> y" "y \<le> servable_shares s a b"
    and x: "payout s a t x = Ok (Some out)" and fee': "fee_on s t (withdrawn s a y) = Ok (Some fee')"
  obtains out' where "payout s a t y = Ok (Some out')" "out \<le> out'"
proof -
  obtain fee where fee: "fee_on s t (withdrawn s a x) = Ok (Some fee)" "fee < withdrawn s a x"
    "out = withdrawn s a x - fee" and p: "is_mode_supply s \<noteq> 0"
    using x unfolding payout_Some by blast
  have le: "withdrawn s a x \<le> withdrawn s a y" by (rule withdrawn_mono [OF xy p])
  have b: "fee \<le> fee' \<and> fee' \<le> withdrawn s a y \<and> withdrawn s a x - fee \<le> withdrawn s a y - fee'"
    by (rule compute_fee_bounds [OF cs liquid_le_total fee(1) fee' le])
  have "0 < withdrawn s a x - fee" using fee(2) by (simp add: word_less_nat_alt unat_sub_le word_le_nat_alt)
  then have "withdrawn s a y - fee' \<noteq> 0" using b by auto
  then have "fee' < withdrawn s a y" using b by (metis eq_iff_diff_eq_0 order_le_less)
  then have "payout s a t y = Ok (Some (withdrawn s a y - fee'))"
    using fee' p unfolding payout_Some by blast
  then show thesis using b fee(3) by (intro that) auto
qed

section \<open>The quotable range is an interval\<close>

lemma valid_deposit_iff:
  assumes "hv_state v = Some s" "venue_mode_assets X v s = Ok a"
    and "refreshed_total_assets (is_pool_state s) (is_mode_index s) a = (Ok t :: (venue_error, u64) res)"
  shows "(\<exists>q. quote_deposit X v r = Ok q \<and> valid_quote q) \<longleftrightarrow>
    req_amount r \<noteq> 0 \<and> min_deposit_amount (pcf_lp_config (is_pool_config s)) \<le> req_amount r \<and>
    req_amount r \<le> available_cap s t \<and> deposit_shares (req_amount r) a (is_mode_supply s) \<noteq> None"
proof (cases "req_amount r = 0")
  case True
  then show ?thesis using quote_deposit_0 by (fastforce simp: valid_quote_def)
next
  case False
  show ?thesis
  proof (cases "req_amount r \<le> available_cap s t")
    case True
    then have "min (req_amount r) (available_cap s t) = req_amount r" by simp
    moreover have "available_cap s t \<noteq> 0" using True False by auto
    ultimately show ?thesis using False True shares_for_deposit_nonzero [of "req_amount r" a "is_mode_supply s"]
      by (auto simp: quote_deposit_eq [OF assms False] valid_quote_def not_less split: option.splits if_splits)
  next
    case False
    then have "available_cap s t < req_amount r" by simp
    then show ?thesis using \<open>req_amount r \<noteq> 0\<close> False
      by (auto simp: quote_deposit_eq [OF assms \<open>req_amount r \<noteq> 0\<close>] valid_quote_def split: option.splits)
  qed
qed

lemma valid_withdraw_iff:
  assumes "hv_state v = Some s" "venue_mode_assets X v s = Ok a"
    and "refreshed_total_assets (is_pool_state s) (is_mode_index s) a = (Ok t :: (venue_error, u64) res)"
  shows "(\<exists>q. quote_instant_withdraw X v r = Ok q \<and> valid_quote q) \<longleftrightarrow>
    req_amount r \<noteq> 0 \<and> all_mode_assets_fresh (is_pool_state s) (is_current_ts s) \<and>
    \<not> window_limit_reached s (req_amount r) \<and> req_amount r \<le> servable_shares s a (available_balance s) \<and>
    (\<exists>out price. payout s a t (req_amount r) = Ok (Some out) \<and>
      price_for s a t (available_balance s) (req_amount r) = Ok price)" (is "?l \<longleftrightarrow> ?r")
proof
  assume ?l
  then obtain q where q: "quote_instant_withdraw X v r = Ok q" "valid_quote q" by blast
  have n: "req_amount r \<noteq> 0" using quote_instant_withdraw_0 [OF q(1)] q(2) by (auto simp: valid_quote_def)
  from q(1) n show ?r
  proof (cases rule: quote_instant_withdraw_Ok [consumes 2, case_names empty paid])
    case (empty s' a' t' price)
    then show ?thesis using q(2) by (simp add: valid_quote_def)
  next
    case (paid s' a' t' price x out)
    then have eq: "s' = s" "a' = a" "t' = t" using assms by auto
    have "\<not> x < req_amount r" using paid(10) q(2) by (simp add: valid_quote_def)
    then have "x = req_amount r" using paid(6) by (metis min.cobounded1 order_le_less)
    then show ?thesis using paid n unfolding eq by (metis min.cobounded2)
  qed
next
  assume ?r
  then obtain out price where r: "req_amount r \<noteq> 0" "all_mode_assets_fresh (is_pool_state s) (is_current_ts s)"
    "\<not> window_limit_reached s (req_amount r)" "req_amount r \<le> servable_shares s a (available_balance s)"
    "payout s a t (req_amount r) = Ok (Some out)" "price_for s a t (available_balance s) (req_amount r) = Ok price"
    by blast
  then have "quote_instant_withdraw X v r = Ok (quote_result_of r (req_amount r) out False price)"
    using assms by (simp add: quote_instant_withdraw_def Let_def venue_state_def flip: available_balance_def)
  then show ?l using payout_nonzero [OF r(5)] by (simp add: valid_quote_def)
qed

lemma would_exceed_antimono: "x \<le> y \<Longrightarrow> would_exceed g x ts m \<Longrightarrow> would_exceed g y ts m"
  by (auto simp: would_exceed_def Let_def word_less_nat_alt word_le_nat_alt unat_ops)

lemma window_antimono: "x \<le> y \<Longrightarrow> \<not> window_limit_reached s y \<Longrightarrow> \<not> window_limit_reached s x"
  using would_exceed_antimono by (fastforce simp: window_limit_reached_def Let_def)

lemma shares_for_deposit_mono:
  assumes "x \<le> y" "unat y * unat p div unat a < 2 ^ 64" "deposit_shares x a p = Some n"
  obtains m where "deposit_shares y a p = Some m" "n \<le> m"
proof (cases "p = 0")
  case True
  then show thesis using assms that by (simp add: deposit_shares_def)
next
  case False
  then have a: "a \<noteq> 0" and n: "n = scale x p a" "scale x p a \<noteq> 0"
    using assms(3) by (auto simp: deposit_shares_def Let_def split: if_splits)
  have le: "unat x * unat p div unat a \<le> unat y * unat p div unat a"
    using assms(1) by (simp add: div_le_mono mult_le_mono1 word_le_nat_alt)
  then have "scale x p a \<le> scale y p a"
    using assms(2) a unfolding word_le_nat_alt by (subst (1 2) unat_scale) auto
  moreover from this have "scale y p a \<noteq> 0" using n(2) by auto
  ultimately show thesis using False a n by (intro that [of "scale y p a"]) (simp_all add: deposit_shares_def)
qed

text \<open>
  A venue whose quotable amounts form an interval: brackets with descending fees, and a
  share count for a deposit of the whole free room that fits 64 bits.
\<close>

definition deposit_fits :: "'x huma_ext_scheme \<Rightarrow> huma_venue \<Rightarrow> initialized_state \<Rightarrow> bool" where
  "deposit_fits X v s \<longleftrightarrow> (\<forall>a t. venue_mode_assets X v s = Ok a \<longrightarrow>
     refreshed_total_assets (is_pool_state s) (is_mode_index s) a = (Ok t :: (venue_error, u64) res) \<longrightarrow>
     unat (available_cap s t) * unat (is_mode_supply s) div unat a < 2 ^ 64)"

definition huma_curve_ok :: "'x huma_ext_scheme \<Rightarrow> huma_venue \<Rightarrow> bool" where
  "huma_curve_ok X v =
     (case hv_state v of
        None \<Rightarrow> True
      | Some s \<Rightarrow> state_ready s \<and> deposit_fits X v s \<and>
          fees_descend (instant_withdrawal_fee_configs (pcf_instant_withdrawal_config (is_pool_config s))))"

lemma huma_curve_ready: "huma_curve_ok X v \<Longrightarrow> huma_ready v"
  by (auto simp: huma_curve_ok_def huma_ready_def split: option.splits)

fun huma_quote_at ::
  "'x huma_ext_scheme \<Rightarrow> huma_venue \<times> pubkey \<times> pubkey \<Rightarrow> u64 \<Rightarrow> (venue_error, quote_result) res" where
  "huma_quote_at X (v, i, out_mint) x = huma_quote X v (exact_in_request i out_mint x)"

lemma req_simps [simp]:
  "req_input_mint (exact_in_request i o' x) = i" "req_output_mint (exact_in_request i o' x) = o'"
  "req_amount (exact_in_request i o' x) = x" "req_swap_type (exact_in_request i o' x) = ExactIn"
  by (simp_all add: exact_in_request_def)

lemma valid_at_huma:
  "valid_at (huma_quote_at X (v, i, out_mint)) x \<longleftrightarrow>
    is_active v \<and> (huma_swap_direction v i out_mint = Ok DepositDirection \<and>
        (\<exists>q. quote_deposit X v (exact_in_request i out_mint x) = Ok q \<and> valid_quote q) \<or>
      huma_swap_direction v i out_mint = Ok InstantWithdrawDirection \<and>
        (\<exists>q. quote_instant_withdraw X v (exact_in_request i out_mint x) = Ok q \<and> valid_quote q))"
proof (cases "huma_swap_direction v i out_mint")
  case (Inr d)
  then show ?thesis by (cases d) (auto simp: valid_at_def huma_quote_def split: sum.splits)
qed (simp add: valid_at_def huma_quote_def)

lemma huma_convex:
  assumes ok: "huma_curve_ok X v"
    and x: "valid_at (huma_quote_at X (v, i, out_mint)) x" and z: "valid_at (huma_quote_at X (v, i, out_mint)) z"
    and xyz: "x \<le> y" "y \<le> z"
  shows "valid_at (huma_quote_at X (v, i, out_mint)) y"
proof -
  have act: "is_active v" using x by (simp add: valid_at_huma)
  then obtain s where s: "hv_state v = Some s" by (auto simp: is_active_def split: option.splits)
  then have ready: "state_ready s" and fits: "deposit_fits X v s"
    and fd: "fees_descend (instant_withdrawal_fee_configs (pcf_instant_withdrawal_config (is_pool_config s)))"
    using ok by (auto simp: huma_curve_ok_def)
  obtain a t where at: "venue_mode_assets X v s = Ok a"
    "refreshed_total_assets (is_pool_state s) (is_mode_index s) a = (Ok t :: (venue_error, u64) res)"
    by (rule ready_inputs [OF ready])
  note dep = valid_deposit_iff [OF s at] and wd = valid_withdraw_iff [OF s at]
  obtain d where d: "huma_swap_direction v i out_mint = Ok d" using x by (auto simp: valid_at_huma)
  show ?thesis
  proof (cases d)
    case DepositDirection
    then have vx: "x \<noteq> 0" "min_deposit_amount (pcf_lp_config (is_pool_config s)) \<le> x"
      "deposit_shares x a (is_mode_supply s) \<noteq> None" and vz: "z \<le> available_cap s t"
      using x z d by (auto simp: valid_at_huma dep)
    then obtain n where n: "deposit_shares x a (is_mode_supply s) = Some n" by blast
    have "unat y * unat (is_mode_supply s) div unat a \<le> unat (available_cap s t) * unat (is_mode_supply s) div unat a"
      using vz xyz(2) by (intro div_le_mono mult_le_mono1) (auto simp: word_le_nat_alt)
    also have "\<dots> < 2 ^ 64" using fits at by (simp add: deposit_fits_def)
    finally obtain m where "deposit_shares y a (is_mode_supply s) = Some m"
      using shares_for_deposit_mono [OF xyz(1) _ n] by metis
    moreover have "y \<noteq> 0" using vx(1) xyz(1) by auto
    ultimately show ?thesis using act d DepositDirection vx vz xyz by (auto simp: valid_at_huma dep)
  next
    case InstantWithdrawDirection
    then have vx: "x \<noteq> 0" "all_mode_assets_fresh (is_pool_state s) (is_current_ts s)"
      and vz: "\<not> window_limit_reached s z" "z \<le> servable_shares s a (available_balance s)"
      and pay: "\<exists>out. payout s a t x = Ok (Some out)" "\<exists>out. payout s a t z = Ok (Some out)"
      using x z d by (auto simp: valid_at_huma wd)
    obtain ox oz where o: "payout s a t x = Ok (Some ox)" "payout s a t z = Ok (Some oz)" using pay by blast
    have p: "is_mode_supply s \<noteq> 0" "withdrawn s a x \<noteq> 0" using o(1) unfolding payout_Some by auto
    have ymax: "y \<le> servable_shares s a (available_balance s)" using vz xyz by simp
    have "withdrawn s a y \<noteq> 0" using withdrawn_mono [OF xyz(1) ymax p(1)] p(2) by auto
    then obtain fee m where f: "fee_on s t (withdrawn s a y) = Ok (Some fee)"
      "marginal_fee_bps (pcf_instant_withdrawal_config (is_pool_config s)) t
        (liquid_assets (ps_liquid_assets_deployed (is_pool_state s)) (available_balance s) t) (withdrawn s a y) =
        (Ok (Some m) :: (venue_error, u16 option) res)"
      by (rule payout_smaller [OF ready fd xyz(2) vz(2) o(2)])
    have cs: "wf_fees (instant_withdrawal_fee_configs (pcf_instant_withdrawal_config (is_pool_config s)))"
      using ready by (simp add: state_ready_def)
    obtain oy where "payout s a t y = Ok (Some oy)"
      by (rule payout_mono [OF cs xyz(1) ymax o(1) f(1)])
    moreover have "\<exists>price. price_for s a t (available_balance s) y = Ok price"
      using f(2) p(1) by (simp add: price_for_def instant_withdraw_price_eq)
    moreover have "y \<noteq> 0" using vx(1) xyz(1) by auto
    ultimately show ?thesis
      using act d InstantWithdrawDirection vx(2) window_antimono [OF xyz(2) vz(1)] ymax
      by (auto simp: valid_at_huma wd)
  qed
qed

interpretation huma: convex_quoter "huma_quote_at X" "\<lambda>(v, _). huma_curve_ok X v" for X
proof
  fix s :: "huma_venue \<times> pubkey \<times> pubkey" and x assume "case s of (v, _) \<Rightarrow> huma_curve_ok X v"
  then show "huma_quote_at X s x \<noteq> Panic"
    by (cases s) (auto dest: huma_curve_ready simp: huma_quote_no_panic)
next
  fix s :: "huma_venue \<times> pubkey \<times> pubkey" and x y z
  assume "case s of (v, _) \<Rightarrow> huma_curve_ok X v" "valid_at (huma_quote_at X s) x"
    "valid_at (huma_quote_at X s) z" "x \<le> y" "y \<le> z"
  then show "valid_at (huma_quote_at X s) y" by (cases s) (auto intro: huma_convex)
qed

section \<open>A sample venue\<close>

definition sample_state :: initialized_state where
  "sample_state =
     \<lparr>is_pool_config = sample_pool_config, is_pool_state = sample_pool_state,
      is_huma_config = \<lparr>hc_id = 0, hc_bump = 0, hc_owner = 0, hc_treasury = 0, hc_sentinel = 0,
        hc_protocol_fee_bps = 0, hc_paused = False\<rparr>,
      is_deployment_config_key = 16, is_deployment_state_key = 5, is_pool_underlying_token_key = 7,
      is_treasury_underlying_token_key = 7, is_underlying_token_program = TOKEN_PROGRAM_ID,
      is_mode_token_program = TOKEN_PROGRAM_ID, is_mode_index = 0, is_mode_supply = 1000000,
      is_pool_underlying_balance = 600000, is_current_ts = 1000,
      is_strategy = KaminoLend ((kamino_read_reserve sample_huma sample_klend_reserve sample_kamino)
        \<lparr>kl_available_liquidity := 200\<rparr>),
      is_token_info =
        [\<lparr>ti_pubkey = 14, ti_decimals = 6, is_token_2022 = False, transfer_fee = None, maximum_fee = None\<rparr>,
         \<lparr>ti_pubkey = 5, ti_decimals = 6, is_token_2022 = False, transfer_fee = None, maximum_fee = None\<rparr>]\<rparr>"

definition sample_huma_venue :: huma_venue where
  "sample_huma_venue =
     (huma_venue_new sample_huma POOL_CONFIG_KEY 18 sample_mode_config)
       \<lparr>hv_pool_authority_key := 6, hv_state := Some sample_state\<rparr>"

lemma sample_venue_simps [simp]:
  "hv_state sample_huma_venue = Some sample_state" "hv_mode_mint_key sample_huma_venue = 5"
  "hv_mode_config sample_huma_venue = sample_mode_config"
  by (simp_all add: sample_huma_venue_def huma_venue_new_def derive_mode_mint_def)

lemma sample_inputs:
  "venue_mode_assets sample_huma sample_huma_venue sample_state = Ok 1000000"
  "refreshed_total_assets (is_pool_state sample_state) (is_mode_index sample_state) 1000000 =
    (Ok 1000000 :: (venue_error, u64) res)"
  "available_cap sample_state 1000000 = 1000000" "available_balance sample_state = 600000"
  "is_mode_supply sample_state = 1000000"
  "liquid_assets (ps_liquid_assets_deployed (is_pool_state sample_state)) 600000 1000000 = 600000"
  by (simp_all add: venue_mode_assets_def sample_state_def mode_state_def get_def sample_pool_state_def
      refreshed_assets_def sample_mode_config_def refreshed_total_assets_def get_pool_total_assets_def
      add_p_def checked_add_def saturating_add_def saturating_sub_def available_cap_def sample_pool_config_def
      available_balance_def get_available_balance_def liquid_assets_def)

lemma sample_state_ready: "state_ready sample_state"
  by (simp add: state_ready_def sample_state_def sample_pool_state_def sample_pool_config_def wf_fees_def)

lemma sample_huma_curve: "huma_curve_ok sample_huma sample_huma_venue"
proof -
  have "deposit_fits sample_huma sample_huma_venue sample_state"
    by (simp add: deposit_fits_def sample_inputs)
  then show ?thesis
    using sample_state_ready
    by (simp add: huma_curve_ok_def fees_descend_def) (simp add: sample_state_def sample_pool_config_def)
qed

lemma sample_active: "is_active sample_huma_venue"
  by (simp add: is_active_def sample_state_def is_pool_on_def sample_pool_state_def)

lemma sample_direction:
  "huma_swap_direction sample_huma_venue 14 5 = Ok DepositDirection"
  "huma_swap_direction sample_huma_venue 5 14 = Ok InstantWithdrawDirection"
  by (simp_all add: huma_swap_direction_def venue_state_def Let_def sample_state_def sample_pool_config_def)

lemma sample_deposit:
  "quote_deposit sample_huma sample_huma_venue (exact_in_request 14 5 3000000) =
    Ok (quote_result_of (exact_in_request 14 5 3000000) 1000000 1000000 True (deposit_price 1000000 1000000))"
  by (subst quote_deposit_eq [OF _ sample_inputs(1,2)])
    (simp_all add: sample_inputs deposit_shares_def scale_def, simp add: sample_state_def sample_pool_config_def)

lemma sample_huma_deposit:
  "huma_quote sample_huma sample_huma_venue (exact_in_request 14 5 3000000) =
    Ok (quote_result_of (exact_in_request 14 5 3000000) 1000000 1000000 True (deposit_price 1000000 1000000))"
  by (simp add: huma_quote_def sample_active sample_direction sample_deposit)

lemma sample_fee_on: "fee_on sample_state 1000000 100000 = Ok (Some 500)"
proof -
  have cs: "wf_fees (instant_withdrawal_fee_configs (pcf_instant_withdrawal_config (is_pool_config sample_state)))"
    using sample_state_ready by (simp add: state_ready_def)
  have "{..1::nat} = {0, 1}" by auto
  then show ?thesis
    unfolding sample_inputs
    by (subst compute_fee_eq [OF cs])
      (simp_all add: Let_def sample_state_def sample_pool_config_def in_ratio_def progressive_fee_def part_fee_def
        bracket_part_def upper_cut_def lower_cut_def boundary_def ceil_div_def)
qed

lemma sample_payout: "payout sample_state 1000000 1000000 100000 = Ok (Some 99500)"
proof -
  have w: "withdrawn sample_state 1000000 100000 = 100000" by (simp add: sample_inputs scale_def)
  show ?thesis unfolding payout_Some w using sample_fee_on by (simp add: sample_inputs(5))
qed

lemma sample_huma_withdraw:
  "\<exists>price. huma_quote sample_huma sample_huma_venue (exact_in_request 5 14 100000) =
    Ok (quote_result_of (exact_in_request 5 14 100000) 100000 99500 False price)"
proof -
  have m: "servable_shares sample_state 1000000 600000 = 600200"
    by (simp add: servable_shares_def sample_inputs(5) scale_def Let_def saturating_add_def)
      (simp add: sample_state_def saturating_add_def)
  have "all_mode_assets_fresh (is_pool_state sample_state) (is_current_ts sample_state)"
    "\<not> window_limit_reached sample_state 100000"
    by (simp_all add: sample_state_def sample_pool_state_def all_mode_assets_fresh_def saturating_sub_def
        window_limit_reached_def would_exceed_def sample_gating_def saturating_add_def sample_pool_config_def
        MAX_ASSETS_STALENESS_SECS_def SECONDS_PER_DAY_def Let_def)
  moreover have "\<exists>price. price_for sample_state 1000000 1000000 600000 100000 = Ok price"
  proof -
    have cs: "wf_fees (instant_withdrawal_fee_configs (pcf_instant_withdrawal_config (is_pool_config sample_state)))"
      using sample_state_ready by (simp add: state_ready_def)
    have fd: "fees_descend (instant_withdrawal_fee_configs (pcf_instant_withdrawal_config (is_pool_config sample_state)))"
      using sample_huma_curve by (simp add: huma_curve_ok_def)
    have x: "withdrawn sample_state 1000000 100000 \<noteq> 0" by (simp add: sample_inputs scale_def)
    obtain m where "marginal_fee_bps (pcf_instant_withdrawal_config (is_pool_config sample_state)) 1000000
        600000 (withdrawn sample_state 1000000 100000) = (Ok (Some m) :: (venue_error, u16 option) res)"
      using payout_smaller [OF sample_state_ready fd order_refl _ sample_payout x, of 600000]
      by (auto simp: m sample_inputs)
    then show ?thesis
      by (simp add: price_for_def instant_withdraw_price_eq sample_inputs)
  qed
  ultimately have "\<exists>price. quote_instant_withdraw sample_huma sample_huma_venue (exact_in_request 5 14 100000) =
      Ok (quote_result_of (exact_in_request 5 14 100000) 100000 99500 False price)"
    using sample_inputs sample_payout
    by (auto simp: quote_instant_withdraw_def Let_def venue_state_def m simp flip: available_balance_def)
  then show ?thesis by (simp add: huma_quote_def sample_active sample_direction)
qed

section \<open>Properties\<close>

text \<open>
  A quote keeps the mints of the request, never serves more than was asked, says
  \<open>not_enough_liquidity\<close> exactly when it serves less, and expects an output exactly when
  it serves something; only exact-in requests on an active pool are quoted.
\<close>

theorem huma_quote_partial_fill:
  assumes "huma_quote X v r = Ok q"
  shows "req_swap_type r = ExactIn \<and> is_active v \<and>
    qr_input_mint q = req_input_mint r \<and> qr_output_mint q = req_output_mint r \<and>
    qr_amount q \<le> req_amount r \<and> (qr_not_enough_liquidity q \<longleftrightarrow> qr_amount q < req_amount r) \<and>
    (qr_amount q = 0 \<longleftrightarrow> qr_expected_output q = 0)"
  using huma_quote_Ok [OF assms] partial_fill [OF huma_quote_Ok(3) [OF assms]] quote_mints by blast

theorem huma_quote_partial_fill_witness: "(1000000 :: u64) \<le> 3000000 \<and> (True \<longleftrightarrow> (1000000 :: u64) < 3000000)"
  using huma_quote_partial_fill [OF sample_huma_deposit] by simp

lemma unat_available_cap:
  "unat (available_cap s t) = (unat (liquidity_cap (pcf_lp_config (is_pool_config s))) - unat t) mod 2 ^ 64"
  by (simp add: available_cap_def unat_narrow unat_ops)

lemma deposit_shares_Some:
  assumes "deposit_shares x a p = Some n"
  shows "if p = 0 then n = x
    else a \<noteq> 0 \<and> n \<noteq> 0 \<and> unat n = unat x * unat p div unat a mod 2 ^ 64 \<and> unat n * unat a \<le> unat x * unat p"
  using assms scale_le [of x p a]
  by (auto simp: deposit_shares_def scale_def unat_narrow unat_div unat_mult_widen unat_widen Let_def split: if_splits)

text \<open>
  C32: the amounts of a quoted deposit. Nothing is served for a request of zero. Any other request
  was at least the minimum deposit, and is served up to the room that the refreshed assets of the
  whole pool leave under the liquidity cap (its low 64 bits, which are not zero), so that the pool
  stays within the cap; the quote says so when it serves less than was asked, and what it then
  serves may be below the minimum. An empty mode mints one share per atom; another mints the floor
  of the amount's worth in shares, never zero. The price is the marginal price of a deposit.
\<close>

theorem huma_deposit_capped:
  assumes "quote_deposit X v r = Ok q"
  shows "\<exists>s a. hv_state v = Some s \<and> venue_mode_assets X v s = Ok a \<and> qr_price q = deposit_price a (is_mode_supply s) \<and>
    (if req_amount r = 0 then qr_amount q = 0 \<and> qr_expected_output q = 0 \<and> \<not> qr_not_enough_liquidity q
     else \<exists>t room. refreshed_total_assets (is_pool_state s) (is_mode_index s) a = (Ok t :: (venue_error, u64) res) \<and>
       room = (unat (liquidity_cap (pcf_lp_config (is_pool_config s))) - unat t) mod 2 ^ 64 \<and> 0 < room \<and>
       min_deposit_amount (pcf_lp_config (is_pool_config s)) \<le> req_amount r \<and>
       unat (qr_amount q) = min (unat (req_amount r)) room \<and>
       unat t + unat (qr_amount q) \<le> unat (liquidity_cap (pcf_lp_config (is_pool_config s))) \<and>
       (qr_not_enough_liquidity q \<longleftrightarrow> room < unat (req_amount r)) \<and>
       (if is_mode_supply s = 0 then qr_expected_output q = qr_amount q
        else a \<noteq> 0 \<and> qr_expected_output q \<noteq> 0 \<and>
          unat (qr_expected_output q) = unat (qr_amount q) * unat (is_mode_supply s) div unat a mod 2 ^ 64 \<and>
          unat (qr_expected_output q) * unat a \<le> unat (qr_amount q) * unat (is_mode_supply s)))"
proof (cases "req_amount r = 0")
  case True
  then show ?thesis using assms by (auto simp: quote_deposit_def Let_def res_inv)
next
  case False
  obtain s a t shares where s: "hv_state v = Some s" "venue_mode_assets X v s = Ok a"
    "refreshed_total_assets (is_pool_state s) (is_mode_index s) a = (Ok t :: (venue_error, u64) res)"
    "min_deposit_amount (pcf_lp_config (is_pool_config s)) \<le> req_amount r" "available_cap s t \<noteq> 0"
    and sh: "deposit_shares (min (req_amount r) (available_cap s t)) a (is_mode_supply s) = Some shares"
    and q: "q = quote_result_of r (min (req_amount r) (available_cap s t)) shares
      (min (req_amount r) (available_cap s t) < req_amount r) (deposit_price a (is_mode_supply s))"
    by (rule quote_deposit_Ok [OF assms False])
  have room: "0 < unat (available_cap s t)" using s(5) by (simp add: unat_gt_0)
  then have "unat t + unat (available_cap s t) \<le> unat (liquidity_cap (pcf_lp_config (is_pool_config s)))"
    using available_cap_le [of s t] by linarith
  moreover have amount: "unat (qr_amount q) = min (unat (req_amount r)) (unat (available_cap s t))"
    by (simp add: q unat_ops)
  ultimately have "unat t + unat (qr_amount q) \<le> unat (liquidity_cap (pcf_lp_config (is_pool_config s)))"
    by linarith
  moreover have "qr_not_enough_liquidity q \<longleftrightarrow> unat (available_cap s t) < unat (req_amount r)"
    by (auto simp: q word_less_nat_alt unat_ops)
  moreover have "if is_mode_supply s = 0 then qr_expected_output q = qr_amount q
        else a \<noteq> 0 \<and> qr_expected_output q \<noteq> 0 \<and>
          unat (qr_expected_output q) = unat (qr_amount q) * unat (is_mode_supply s) div unat a mod 2 ^ 64 \<and>
          unat (qr_expected_output q) * unat a \<le> unat (qr_amount q) * unat (is_mode_supply s)"
    using deposit_shares_Some [OF sh] unfolding q qr_simps .
  moreover have "qr_price q = deposit_price a (is_mode_supply s)" by (simp add: q)
  ultimately show ?thesis
    using s(1-4) room amount unat_available_cap [of s t] unfolding if_not_P [OF False] by blast
qed

lemma sample_zero_deposit:
  "quote_deposit sample_huma sample_huma_venue (exact_in_request 14 5 0) =
    Ok (quote_result_of (exact_in_request 14 5 0) 0 0 False (deposit_price 1000000 1000000))"
  by (simp add: quote_deposit_def sample_inputs venue_state_def Let_def)

theorem huma_deposit_capped_witness:
  "\<exists>s (t :: u64) room. hv_state sample_huma_venue = Some s \<and>
    room = (unat (liquidity_cap (pcf_lp_config (is_pool_config s))) - unat t) mod 2 ^ 64 \<and>
    unat (1000000 :: u64) = min (unat (3000000 :: u64)) room \<and> room < unat (3000000 :: u64) \<and>
    unat t + 1000000 \<le> unat (liquidity_cap (pcf_lp_config (is_pool_config s))) \<and>
    min_deposit_amount (pcf_lp_config (is_pool_config s)) \<le> 3000000 \<and>
    (\<exists>q. quote_deposit sample_huma sample_huma_venue (exact_in_request 14 5 0) = Ok q \<and>
       qr_amount q = 0 \<and> qr_expected_output q = 0 \<and> \<not> qr_not_enough_liquidity q)"
proof -
  obtain s a where "hv_state sample_huma_venue = Some s" "\<exists>(t :: u64) room.
      room = (unat (liquidity_cap (pcf_lp_config (is_pool_config s))) - unat t) mod 2 ^ 64 \<and>
      min_deposit_amount (pcf_lp_config (is_pool_config s)) \<le> 3000000 \<and>
      unat (1000000 :: u64) = min (unat (3000000 :: u64)) room \<and>
      unat t + unat (1000000 :: u64) \<le> unat (liquidity_cap (pcf_lp_config (is_pool_config s))) \<and>
      (True \<longleftrightarrow> room < unat (3000000 :: u64))"
    using huma_deposit_capped [OF sample_deposit] by auto
  moreover have "\<exists>q. quote_deposit sample_huma sample_huma_venue (exact_in_request 14 5 0) = Ok q \<and>
      qr_amount q = 0 \<and> qr_expected_output q = 0 \<and> \<not> qr_not_enough_liquidity q"
    using sample_zero_deposit huma_deposit_capped [OF sample_zero_deposit] by auto
  ultimately show ?thesis by auto
qed

text \<open>
  C4: what a withdrawal quote pays is covered by the pool's available balance and what
  the strategy gives back, and by the assets of the mode, and is at most the worth of the
  shares it burns; no mode was stale, and the shares requested stay within the day's
  windows.
\<close>

theorem huma_withdraw_covered:
  assumes "quote_instant_withdraw X v r = Ok q" "req_amount r \<noteq> 0"
  shows "\<exists>s a. hv_state v = Some s \<and> venue_mode_assets X v s = Ok a \<and>
    unat (qr_expected_output q) \<le>
      unat (available_balance s) + unat (available_liquidity_for_withdrawal (is_strategy s)) \<and>
    qr_expected_output q \<le> a \<and>
    unat (qr_expected_output q) * unat (is_mode_supply s) \<le> unat (qr_amount q) * unat a \<and>
    all_mode_assets_fresh (is_pool_state s) (is_current_ts s) \<and>
    \<not> window_limit_reached s (req_amount r)"
  using assms
proof (cases rule: quote_instant_withdraw_Ok [consumes 2, case_names empty paid])
  case (empty s a t price)
  then show ?thesis by (intro exI [of _ s] exI [of _ a]) simp
next
  case (paid s a t price x out)
  obtain fee where fee: "fee < withdrawn s a x" "out = withdrawn s a x - fee" and p: "is_mode_supply s \<noteq> 0"
    using paid(8) unfolding payout_Some by blast
  have x: "x \<le> servable_shares s a (available_balance s)" using paid(6) by simp
  have "unat out \<le> unat (withdrawn s a x)" using fee by (simp add: unat_sub_le order_less_imp_le)
  then have out: "unat out \<le> unat x * unat a div unat (is_mode_supply s)"
    by (simp add: max_servable_fits(2) [OF x p])
  have "unat out * unat (is_mode_supply s) \<le> unat x * unat a div unat (is_mode_supply s) * unat (is_mode_supply s)"
    using out by (rule mult_le_mono1)
  also have "\<dots> \<le> unat x * unat a" by (rule div_times_less_eq_dividend)
  finally show ?thesis
    using paid out max_servable_fits(1) [OF x p]
    by (intro exI [of _ s] exI [of _ a]) (simp add: word_le_nat_alt)
qed

theorem huma_withdraw_covered_witness:
  "\<exists>q. quote_instant_withdraw sample_huma sample_huma_venue (exact_in_request 5 14 100000) = Ok q \<and>
    unat (qr_expected_output q) \<le>
      unat (available_balance sample_state) + unat (available_liquidity_for_withdrawal (is_strategy sample_state))"
proof -
  obtain q where q: "quote_instant_withdraw sample_huma sample_huma_venue (exact_in_request 5 14 100000) = Ok q"
    using sample_huma_withdraw by (auto simp: huma_quote_def sample_active sample_direction)
  with huma_withdraw_covered [OF q] show ?thesis by auto
qed




abbreviation huma_token_at :: "initialized_state \<Rightarrow> u8 \<Rightarrow> pubkey" where
  "huma_token_at s i \<equiv> ti_pubkey (is_token_info s ! unat i)"

lemma huma_bounds_eq:
  assumes "hv_state v = Some s"
  shows "bounds (huma_trading_venue X v) i j =
    (if unat i < length (is_token_info s) then
       if unat j < length (is_token_info s) then
         find_boundaries (huma_quote_at X (v, huma_token_at s i, huma_token_at s j))
       else Err (TokenInfoIndexError (unat j))
     else Err (TokenInfoIndexError (unat i)))"
proof -
  have "huma_quote_at X (v, a, b) = (\<lambda>x. huma_quote X v
      \<lparr>req_input_mint = a, req_output_mint = b, req_amount = x, req_swap_type = ExactIn\<rparr>)" for a b
    by (rule ext) (simp add: exact_in_request_def)
  then show ?thesis
    using assms by (simp add: bounds_def get_token_def get_def huma_trading_venue_def)
qed

text \<open>
  C36: the bounds of an initialized venue whose fees rise as liquidity falls are its
  quotable range: every amount between them is quoted in full, and no amount more than
  100 atoms outside them is.
\<close>

theorem huma_bounds_cover:
  assumes "huma_curve_ok X v" "hv_state v = Some s" "bounds (huma_trading_venue X v) i j = Ok (l, u)"
  shows "let ok = (\<lambda>x. \<exists>q. huma_quote X v (exact_in_request (huma_token_at s i) (huma_token_at s j) x) = Ok q \<and>
             qr_expected_output q \<noteq> 0 \<and> \<not> qr_not_enough_liquidity q)
         in l \<le> u \<and> (\<forall>x. l \<le> x \<and> x \<le> u \<longrightarrow> ok x) \<and>
            (\<forall>x. ok x \<longrightarrow> unat l \<le> unat x + 100 \<and> unat x \<le> unat u + 100)"
proof -
  let ?s = "(v, huma_token_at s i, huma_token_at s j)"
  have f: "find_boundaries (huma_quote_at X ?s) = Ok (l, u)" and wf: "case ?s of (v, _) \<Rightarrow> huma_curve_ok X v"
    using assms by (auto simp: huma_bounds_eq split: if_splits)
  have "(\<exists>q. huma_quote X v (exact_in_request (huma_token_at s i) (huma_token_at s j) x) = Ok q \<and>
      qr_expected_output q \<noteq> 0 \<and> \<not> qr_not_enough_liquidity q) \<longleftrightarrow> valid_at (huma_quote_at X ?s) x" for x
    by (auto simp: valid_at_eq_Inr valid_quote_def)
  then show ?thesis
    using huma.search_covers [OF wf f] huma.search_ends(1) [OF wf f] by (simp add: Let_def)
qed

lemma sample_huma_bounds:
  "\<exists>l u. bounds (huma_trading_venue sample_huma sample_huma_venue) 0 1 = Ok (l, u)"
proof -
  let ?s = "(sample_huma_venue, 14, 5) :: huma_venue \<times> pubkey \<times> pubkey"
  have "\<exists>q. quote_deposit sample_huma sample_huma_venue (exact_in_request 14 5 16) = Ok q \<and> valid_quote q"
    by (subst valid_deposit_iff [OF _ sample_inputs(1,2)])
      (simp_all add: sample_inputs deposit_shares_def scale_def, simp add: sample_state_def sample_pool_config_def)
  then have "valid_at (huma_quote_at sample_huma ?s) (2 ^ 4)"
    by (simp add: valid_at_huma sample_active sample_direction)
  then have "\<exists>k<64. valid_at (huma_quote_at sample_huma ?s) (2 ^ k)" by (intro exI [of _ 4]) simp
  then obtain r where "find_boundaries (huma_quote_at sample_huma ?s) = Ok r"
    using huma.search_ok_iff [where s = ?s and X = sample_huma] sample_huma_curve by auto
  moreover have "is_token_info sample_state ! unat (0 :: u8) = is_token_info sample_state ! 0"
    "is_token_info sample_state ! unat (1 :: u8) = is_token_info sample_state ! 1"
    "length (is_token_info sample_state) = 2"
    "ti_pubkey (is_token_info sample_state ! 0) = 14" "ti_pubkey (is_token_info sample_state ! 1) = 5"
    by (simp_all add: sample_state_def)
  ultimately show ?thesis
    by (cases r) (simp add: huma_bounds_eq [OF sample_venue_simps(1)])
qed

theorem huma_bounds_cover_witness:
  "\<exists>l u. bounds (huma_trading_venue sample_huma sample_huma_venue) 0 1 = Ok (l, u) \<and> l \<le> u"
proof -
  obtain l u where b: "bounds (huma_trading_venue sample_huma sample_huma_venue) 0 1 = Ok (l, u)"
    using sample_huma_bounds by blast
  with huma_bounds_cover [OF sample_huma_curve sample_venue_simps(1) b] show ?thesis by (auto simp: Let_def)
qed

lemma find_boundaries_no_panic:
  assumes "no_panic f"
  shows "find_boundaries f \<noteq> Panic"
proof (cases "\<exists>k<64. valid_at f (2 ^ k)")
  case True
  then show ?thesis using find_boundaries_spec [OF assms] by fastforce
next
  case False
  then show ?thesis using find_boundaries_none [OF assms] by auto
qed

text \<open>
  C37: a venue whose mode has an entry in the pool state, whose assets add up within 128
  bits and whose fee brackets ascend never panics, on any request and in any boundary
  search; it need not be initialized.
\<close>

theorem huma_quote_never_panics:
  assumes "huma_ready v"
  shows "huma_quote X v r \<noteq> Panic \<and> bounds (huma_trading_venue X v) i j \<noteq> Panic"
proof
  show q: "huma_quote X v r \<noteq> Panic" for r by (rule huma_quote_no_panic [OF assms])
  have "find_boundaries (\<lambda>x. huma_quote X v (f x)) \<noteq> Panic" for f
  proof (rule find_boundaries_no_panic)
    show "no_panic (\<lambda>x. huma_quote X v (f x))" using q by (simp add: no_panic_def)
  qed
  then show "bounds (huma_trading_venue X v) i j \<noteq> Panic"
    by (auto simp: bounds_def bindR_eq_Inl huma_trading_venue_def)
qed

theorem huma_quote_never_panics_witness:
  "bounds (huma_trading_venue sample_huma sample_huma_venue) 1 0 \<noteq> Panic"
  using huma_quote_never_panics [OF huma_curve_ready [OF sample_huma_curve]] by blast

text \<open>
  Without an entry of the mode in \<open>mode_states\<close> (the update only looks for it in
  \<open>mode_config_keys\<close>), every exact-in request on an active pool panics, in both
  directions and also for an amount of zero.
\<close>

theorem huma_missing_mode_state_panics:
  assumes "hv_state v = Some s" "is_active v" "length (ps_mode_states (is_pool_state s)) \<le> is_mode_index s"
    and "req_swap_type r = ExactIn"
    and "huma_swap_direction v (req_input_mint r) (req_output_mint r) = Ok d"
  shows "huma_quote X v r = Panic"
proof -
  have "venue_mode_assets X v s = Panic"
    using assms(3) by (simp add: venue_mode_assets_def mode_state_def get_def)
  then show ?thesis
    using assms by (cases d) (simp_all add: huma_quote_def quote_deposit_def quote_instant_withdraw_def venue_state_def Let_def)
qed

theorem huma_missing_mode_state_panics_witness:
  "huma_quote sample_huma (sample_huma_venue\<lparr>hv_state := Some (sample_state\<lparr>is_mode_index := 1\<rparr>)\<rparr>)
    (exact_in_request 14 5 0) = Panic"
  by (rule huma_missing_mode_state_panics [of _ "sample_state\<lparr>is_mode_index := 1\<rparr>" _ DepositDirection])
    (simp_all add: is_active_def huma_swap_direction_def venue_state_def Let_def,
     simp_all add: sample_state_def sample_pool_state_def is_pool_on_def sample_pool_config_def)

text \<open>
  C38: what is refused: exact-out requests, by the quote and by the instruction builder;
  every request on an inactive or uninitialized venue; other pairs of mints than the
  venue's two; a withdrawal while some mode's assets are stale, and one that would push
  the day's window over its limit.
\<close>

theorem huma_quote_refuses:
  "(req_swap_type r = ExactOut \<longrightarrow> huma_quote X v r = Err ExactOutNotSupported \<and>
      huma_generate_swap_instruction X v r user = Err ExactOutNotSupported) \<and>
   (req_swap_type r = ExactIn \<and> \<not> is_active v \<longrightarrow>
      huma_quote X v r = Err (InactivePoolError (hv_pool_config_key v) Huma)) \<and>
   (hv_state v = None \<longrightarrow> \<not> is_active v) \<and>
   (hv_state v = Some s \<and> is_active v \<and> req_swap_type r = ExactIn \<longrightarrow>
      ({req_input_mint r, req_output_mint r} \<noteq> {pcf_underlying_mint (is_pool_config s), hv_mode_mint_key v} \<longrightarrow>
         huma_quote X v r = Err (InvalidMint (EPubkey (req_input_mint r))))) \<and>
   (hv_state v = Some s \<and> req_amount r \<noteq> 0 \<and> state_ready s \<longrightarrow>
      (\<not> all_mode_assets_fresh (is_pool_state s) (is_current_ts s) \<longrightarrow>
         quote_instant_withdraw X v r = Err (amm_method_error ''mode assets stale'')) \<and>
      (all_mode_assets_fresh (is_pool_state s) (is_current_ts s) \<and> window_limit_reached s (req_amount r) \<longrightarrow>
         quote_instant_withdraw X v r = Err (amm_method_error ''instant withdrawal window limit reached'')))"
proof -
  have wd: "quote_instant_withdraw X v r =
      (if \<not> all_mode_assets_fresh (is_pool_state s) (is_current_ts s) then
         Err (amm_method_error ''mode assets stale'')
       else Err (amm_method_error ''instant withdrawal window limit reached''))"
    if s: "hv_state v = Some s" "req_amount r \<noteq> 0" "state_ready s"
      and no: "\<not> all_mode_assets_fresh (is_pool_state s) (is_current_ts s) \<or> window_limit_reached s (req_amount r)"
  proof -
    obtain a t where "venue_mode_assets X v s = Ok a"
      "refreshed_total_assets (is_pool_state s) (is_mode_index s) a = (Ok t :: (venue_error, u64) res)"
      by (rule ready_inputs [OF s(3)])
    then show ?thesis using s no by (auto simp: quote_instant_withdraw_def venue_state_def Let_def)
  qed
  have dir: "huma_swap_direction v (req_input_mint r) (req_output_mint r) = Err (InvalidMint (EPubkey (req_input_mint r)))"
    if "hv_state v = Some s"
      "{req_input_mint r, req_output_mint r} \<noteq> {pcf_underlying_mint (is_pool_config s), hv_mode_mint_key v}"
    using that by (auto simp: huma_swap_direction_def venue_state_def Let_def)
  show ?thesis
    using wd dir by (auto simp: huma_quote_def huma_generate_swap_instruction_def is_active_def)
qed

theorem huma_quote_refuses_witness:
  "huma_quote sample_huma sample_huma_venue \<lparr>req_input_mint = 14, req_output_mint = 5, req_amount = 7, req_swap_type = ExactOut\<rparr> =
     Err ExactOutNotSupported \<and>
   huma_quote sample_huma sample_huma_venue (exact_in_request 14 14 7) = Err (InvalidMint (EPubkey 14))"
proof -
  note r = huma_quote_refuses [of _ sample_huma sample_huma_venue undefined sample_state]
  have "{14, 14} \<noteq> {pcf_underlying_mint (is_pool_config sample_state), 5 :: pubkey}"
    by (auto simp: doubleton_eq_iff)
  then show ?thesis
    using r [of "\<lparr>req_input_mint = 14, req_output_mint = 5, req_amount = 7, req_swap_type = ExactOut\<rparr>"]
      r [of "exact_in_request 14 14 7"] sample_active by simp
qed

end
