(* ===== verification/Huma_Update.thy ===== *)
theory Huma_Update
  imports Huma_Quotes
begin

text \<open>
  What an update of the Huma venue promises (\<open>HumaVenue::update_state\<close>): what it leaves
  alone, what a successful one establishes, what a failed one leaves behind, that it
  does not panic, and that it succeeds on a chain whose accounts are all there.
\<close>

section \<open>What an update leaves alone\<close>

abbreviation same_keys :: "huma_venue \<Rightarrow> huma_venue \<Rightarrow> bool" where
  "same_keys v v' \<equiv> hv_mode_config_key v' = hv_mode_config_key v \<and> hv_pool_config_key v' = hv_pool_config_key v \<and>
     hv_pool_state_key v' = hv_pool_state_key v \<and> hv_mode_mint_key v' = hv_mode_mint_key v"

abbreviation same_state :: "huma_venue \<Rightarrow> huma_venue \<Rightarrow> bool" where
  "same_state v v' \<equiv> hv_state v' = hv_state v \<and> hv_mode_config v' = hv_mode_config v"

lemma round_1_keeps:
  assumes "\<And>v a. P v \<Longrightarrow> P (v\<lparr>hv_pool_authority_key := a\<rparr>)"
  shows "keeps (\<lambda>s. P (fst s)) (huma_round_1 X fetch)"
  unfolding huma_round_1_def Let_def by (intro keeps_intros assms)

lemma round_2_keeps: "keeps (\<lambda>s. P (fst s)) (huma_round_2 X fetch pool_config)"
  unfolding huma_round_2_def Let_def by (intro keeps_intros)

lemma keeps_split: "(\<And>a b. keeps P (f a b)) \<Longrightarrow> keeps P (case x of (a, b) \<Rightarrow> f a b)"
  by (cases x) simp

lemma update_keeps_keys: "keeps (\<lambda>s. same_keys v (fst s)) (huma_update_state X fetch)"
  unfolding huma_update_state_def
  by (intro keeps_intros keeps_split round_1_keeps round_2_keeps) auto

text \<open>A property of the state that a method keeps when it fails.\<close>

definition keeps_failed :: "('s \<Rightarrow> bool) \<Rightarrow> ('s, 'e, 'a) stateful \<Rightarrow> bool" where
  "keeps_failed P m \<longleftrightarrow> (\<forall>s x s'. P s \<longrightarrow> m s = (Inl x, s') \<longrightarrow> P s')"

lemma keeps_failed_bindS:
  assumes "keeps P m" "\<And>a. keeps_failed P (k a)"
  shows "keeps_failed P (bindS m k)"
  unfolding keeps_failed_def
proof (intro allI impI)
  fix s x s'
  assume s: "P s" "bindS m k s = (Inl x, s')"
  obtain r s1 where m: "m s = (r, s1)" by (cases "m s")
  have "P s1" using assms(1) s(1) m unfolding keeps_def by (metis snd_conv)
  then show "P s'" using s(2) m assms(2) by (cases r) (auto simp: keeps_failed_def)
qed

lemma keeps_failed_venueS: "keeps_failed P (venueS f)"
  by (simp add: keeps_failed_def venueS_def modifyS_def)

lemma keeps_failed_split: "(\<And>a b. keeps_failed P (f a b)) \<Longrightarrow> keeps_failed P (case x of (a, b) \<Rightarrow> f a b)"
  by (cases x) simp

lemma update_failed_keeps: "keeps_failed (\<lambda>s. same_state v (fst s)) (huma_update_state X fetch)"
  unfolding huma_update_state_def
  by (intro keeps_failed_bindS keeps_failed_split keeps_failed_venueS keeps_intros round_1_keeps round_2_keeps) auto

section \<open>What a successful update establishes\<close>

text \<open>The account under a key, decoded.\<close>

lemma round_1_Ok:
  "huma_round_1 X fetch (v, c) = (Ok (pc, mc), s') \<longleftrightarrow>
    (\<exists>a b authority c'. fetch c [hv_pool_config_key v, hv_mode_config_key v] = (Ok [Some a, Some b], c') \<and>
      decode_anchor_account X (decode_pool_config X) ''PoolConfig'' (acc_data a) = Ok pc \<and>
      decode_anchor_account X (decode_mode_config X) ''ModeConfig'' (acc_data b) = Ok mc \<and>
      pool_authority_with_bump X (hv_pool_config_key v) (pcf_pool_authority_bump pc) = Some authority \<and>
      s' = (v\<lparr>hv_pool_authority_key := authority\<rparr>, c'))"
  (is "?l = ?r")
proof
  show "?l \<Longrightarrow> ?r"
    by (fastforce simp: huma_round_1_def Let_def res_inv length_Suc_conv numeral_2_eq_2)
  show "?r \<Longrightarrow> ?l"
    by (auto simp: huma_round_1_def Let_def res_inv numeral_2_eq_2)
qed

lemma round_2_Ok:
  "huma_round_2 X fetch pc (v, c) = (Ok st, s') \<longleftrightarrow>
    (\<exists>d accounts c'. liquidity_source (pcf_instant_withdrawal_config pc) = Some d \<and>
      fetch c [pcf_huma_config pc, d, hv_pool_state_key v, hv_mode_mint_key v,
        ata_with_program X (hv_pool_authority_key v) (pcf_underlying_mint pc) SPL_TOKEN_PROGRAM_ID,
        pcf_underlying_mint pc, CLOCK_ID] = (Ok accounts, c') \<and>
      huma_decode_round_2 X v pc d
        (ata_with_program X (hv_pool_authority_key v) (pcf_underlying_mint pc) SPL_TOKEN_PROGRAM_ID) accounts = Ok st \<and>
      s' = (v, c'))"
  by (fastforce simp: huma_round_2_def Let_def res_inv)

lemma update_Ok:
  "huma_update_state X fetch (v, c) = (Ok (), (v', c')) \<longleftrightarrow>
    (\<exists>pc mc v1 c1 st c2 strategy. huma_round_1 X fetch (v, c) = (Ok (pc, mc), (v1, c1)) \<and>
      huma_round_2 X fetch pc (v1, c1) = (Ok st, (v1, c2)) \<and>
      strategy_update X fetch (is_strategy st, c2) = (Ok (), (strategy, c')) \<and>
      v' = v1\<lparr>hv_mode_config := mc, hv_state := Some (st\<lparr>is_strategy := strategy\<rparr>)\<rparr>)"
  by (fastforce simp: huma_update_state_def res_inv round_2_Ok)

text \<open>What the parts of a state have to do with one another and with the venue's keys.\<close>

definition state_consistent :: "'x ext_scheme \<Rightarrow> huma_venue \<Rightarrow> initialized_state \<Rightarrow> bool" where
  "state_consistent X v s \<longleftrightarrow>
     liquidity_source (pcf_instant_withdrawal_config (is_pool_config s)) = Some (is_deployment_config_key s) \<and>
     is_deployment_state_key s = derive_deployment_state X (is_deployment_config_key s) \<and>
     mode_index_for (is_pool_state s) (hv_mode_config_key v) = Some (is_mode_index s) \<and>
     map ti_pubkey (is_token_info s) = [pcf_underlying_mint (is_pool_config s), hv_mode_mint_key v] \<and>
     is_treasury_underlying_token_key s =
       ata_with_program X (pcf_pool_owner_treasury (is_pool_config s)) (pcf_underlying_mint (is_pool_config s))
         SPL_TOKEN_PROGRAM_ID \<and>
     unat (is_current_ts s) < 2 ^ 63 \<and>
     strategy_good X (is_strategy s)"

lemma amount_or_zero_eq: "unat (amount_or_zero x) = nat (sint x)"
proof (cases "sint x < 0")
  case False
  then have "sint x mod 2 ^ 64 = sint x" using sint_lt [of x] by simp
  then have "uint x = sint x" by (simp add: uint_sint take_bit_eq_mod)
  then have "unat x = nat (sint x)" unfolding unat_eq_nat_uint by (rule arg_cong)
  then show ?thesis using False by (simp only: amount_or_zero_def if_False)
qed (simp add: amount_or_zero_def)

lemma amount_or_zero_less: "unat (amount_or_zero x) < 2 ^ 63"
  using sint_lt [of x] by (simp add: amount_or_zero_eq nat_less_iff)

lemma token_info_new_pubkey: "token_info_new X k a e = Ok t \<Longrightarrow> ti_pubkey t = k"
  by (auto simp: token_info_new_def split: option.splits)

lemma round_2_consistent:
  assumes "huma_round_2 X fetch pc (v, c) = (Ok st, s')"
  shows "state_consistent X v st" "is_pool_config st = pc"
    "is_pool_underlying_token_key st =
      ata_with_program X (hv_pool_authority_key v) (pcf_underlying_mint pc) SPL_TOKEN_PROGRAM_ID"
  using assms
  by (auto simp: round_2_Ok huma_decode_round_2_def res_inv state_consistent_def amount_or_zero_less [simplified]
      dest!: token_info_new_pubkey strategy_new_good)

lemma same_keys_consistent:
  "hv_mode_config_key v' = hv_mode_config_key v \<Longrightarrow> hv_mode_mint_key v' = hv_mode_mint_key v \<Longrightarrow>
    state_consistent X v' s = state_consistent X v s"
  by (simp add: state_consistent_def)

lemma update_Ok_consistent:
  assumes "huma_update_state X fetch (v, c) = (Ok (), (v', c'))"
  obtains s where "hv_state v' = Some s" "state_consistent X v' s" "same_keys v v'"
    "pool_authority_with_bump X (hv_pool_config_key v) (pcf_pool_authority_bump (is_pool_config s)) =
      Some (hv_pool_authority_key v')"
    "is_pool_underlying_token_key s =
      ata_with_program X (hv_pool_authority_key v') (pcf_underlying_mint (is_pool_config s)) SPL_TOKEN_PROGRAM_ID"
proof -
  obtain pc mc v1 c1 st c2 strategy where r1: "huma_round_1 X fetch (v, c) = (Ok (pc, mc), (v1, c1))"
    and r2: "huma_round_2 X fetch pc (v1, c1) = (Ok st, (v1, c2))"
    and r3: "strategy_update X fetch (is_strategy st, c2) = (Ok (), (strategy, c'))"
    and v': "v' = v1\<lparr>hv_mode_config := mc, hv_state := Some (st\<lparr>is_strategy := strategy\<rparr>)\<rparr>"
    using assms unfolding update_Ok by blast
  obtain authority where v1: "v1 = v\<lparr>hv_pool_authority_key := authority\<rparr>"
    "pool_authority_with_bump X (hv_pool_config_key v) (pcf_pool_authority_bump pc) = Some authority"
    using r1 unfolding round_1_Ok by auto
  note st = round_2_consistent [OF r2]
  have "strategy_good X strategy"
    using st(1) by (intro strategy.good_after [OF _ r3]) (simp add: state_consistent_def)
  then have "state_consistent X v' (st\<lparr>is_strategy := strategy\<rparr>)"
    using st(1) by (simp add: state_consistent_def v')
  then show thesis using st v1 by (intro that [of "st\<lparr>is_strategy := strategy\<rparr>"]) (simp_all add: v')
qed

text \<open>The states of a venue: built from an account, then updated any number of times, with any outcome.\<close>

inductive huma_reachable ::
  "'x huma_ext_scheme \<Rightarrow> ('c \<Rightarrow> pubkey list \<Rightarrow> (account_cache_error, account option list) res \<times> 'c)
    \<Rightarrow> huma_venue \<Rightarrow> bool"
  for X fetch where
  venue_new: "huma_reachable X fetch v" if "huma_from_account X pubkey account = Ok v"
| venue_updated: "huma_reachable X fetch v'" if "huma_reachable X fetch v"
    and "huma_update_state X fetch (v, c) = (r, (v', c'))"

lemma keeps_failedD: "keeps_failed P m \<Longrightarrow> P s \<Longrightarrow> m s = (Inl x, s') \<Longrightarrow> P s'"
  by (simp add: keeps_failed_def)

lemma update_keys:
  assumes "huma_update_state X fetch (v, c) = (r, (v', c'))"
  shows "same_keys v v'"
  using keepsD [OF update_keeps_keys [of v X fetch], of "(v, c)"] assms by simp

lemma update_failed:
  assumes "huma_update_state X fetch (v, c) = (Inl x, (v', c'))"
  shows "same_state v v'" "same_keys v v'"
  using keeps_failedD [OF update_failed_keeps [of v X fetch] _ assms] update_keys [OF assms] by simp_all

lemma reachable_invariant:
  assumes "huma_reachable X fetch v"
  shows "hv_pool_config_key v = POOL_CONFIG_KEY \<and> hv_pool_state_key v = derive_pool_state X POOL_CONFIG_KEY \<and>
    hv_mode_mint_key v = derive_mode_mint X POOL_CONFIG_KEY (hv_mode_config_key v) \<and>
    (\<forall>s. hv_state v = Some s \<longrightarrow> state_consistent X v s)"
  using assms
proof induction
  case (venue_new pubkey account v)
  then show ?case by (auto simp: huma_from_account_def res_inv huma_venue_new_def)
next
  case (venue_updated v c r v' c')
  note keys = update_keys [OF venue_updated.hyps(2)]
  show ?case
  proof (cases r)
    case (Inl x)
    then show ?thesis
      using update_failed [OF venue_updated.hyps(2) [unfolded Inl]] venue_updated.IH
      by (auto simp: same_keys_consistent [of v' v])
  next
    case (Inr u)
    then show ?thesis
      using venue_updated keys by (auto elim!: update_Ok_consistent)
  qed
qed

section \<open>Updates do not panic\<close>

lemma token_info_no_panic [simp]: "token_info_new X k a e \<noteq> Panic"
  by (simp add: token_info_new_def split: option.splits)

lemma read_clock_no_panic [simp]: "read_clock X a \<noteq> Panic"
  by (simp add: read_clock_def split: sum.splits)

lemma from_deployment_no_panic [simp]: "from_deployment_config X d u a \<noteq> Panic"
  by (cases "dc_strategy_type d") (simp_all add: from_deployment_config_def)

lemma decode_round_2_no_panic:
  "hashes_ok X \<Longrightarrow> huma_decode_round_2 X v pc d k accounts \<noteq> Panic"
  by (simp add: huma_decode_round_2_def bindR_eq_Inl)

context accounts_cache
begin

lemma strategy_update_local_safe:
  assumes "hashes_ok X" "klend_sane X"
  shows "safe wf P (localS w (strategy_update X fetch)) (\<lambda>_. True)"
  using strategy_update_safe [OF assms]
  unfolding safe_def localS_def case_prod_unfold by (auto simp: bindR_eq_Inl)

lemma round_1_safe:
  assumes "hashes_ok X"
  shows "safe wf (\<lambda>_. True) (huma_round_1 X fetch) (\<lambda>_. True)"
  unfolding huma_round_1_def Let_def
  by (intro safe_intros safe_fetch_step) (simp_all add: assms safe_def liftS_def)

lemma round_2_safe:
  assumes "hashes_ok X"
  shows "safe wf (\<lambda>_. True) (huma_round_2 X fetch pc) (\<lambda>_. True)"
  unfolding huma_round_2_def Let_def
  by (intro safe_intros safe_fetch_step) (simp_all add: decode_round_2_no_panic [OF assms] safe_def liftS_def)

lemma update_safe:
  assumes "hashes_ok X" "klend_sane X"
  shows "safe wf (\<lambda>_. True) (huma_update_state X fetch) (\<lambda>_. True)"
  unfolding huma_update_state_def case_prod_unfold
  by (intro safe_bindS [OF round_1_safe] safe_bindS [OF round_2_safe]
      safe_bindS [OF strategy_update_local_safe] safe_venueS assms TrueI)

end

section \<open>Properties\<close>

lemma sample_decoders:
  "decode_anchor_account sample_huma (decode_pool_config sample_huma) n (acc_data sample_huma_account) = Ok sample_pool_config"
  "decode_anchor_account sample_huma (decode_mode_config sample_huma) n (acc_data sample_huma_account) = Ok sample_mode_config"
  "decode_anchor_account sample_huma (decode_pool_state sample_huma) n (acc_data sample_huma_account) = Ok sample_pool_state"
  "decode_anchor_account sample_huma (decode_huma_config sample_huma) n (acc_data sample_huma_account) =
    Ok (is_huma_config sample_state)"
  "decode_anchor_account sample_huma (decode_deployment_config sample_huma) n (acc_data sample_huma_account) =
    Ok \<lparr>dc_bump = 0, dc_strategy_type = KaminoLendType, dc_target_key = 19\<rparr>"
  by (simp_all add: decode_anchor_account_eq anchor_account_discriminator_def anchor_discriminator_def
      get_range_def DISCRIMINATOR_LEN_def sample_huma_account_def, simp_all add: sample_huma_def sample_state_def)

abbreviation fresh_venue :: huma_venue where
  "fresh_venue \<equiv> huma_venue_new sample_huma POOL_CONFIG_KEY 18 sample_mode_config"

text \<open>
  What the accounts of a snapshot say of the strategy of a deployment: for JupLend the reserve and
  the pool authority's f-token account; for KaminoLend the reserve, whose supply is below 2^64
  atoms, and the obligation of the pool authority in the reserve's market, when there is one.
\<close>

definition strategy_snapshot ::
  "'x huma_ext_scheme \<Rightarrow> (pubkey \<Rightarrow> account option) \<Rightarrow> deployment_config \<Rightarrow> pubkey \<Rightarrow> pubkey \<Rightarrow> strategy \<Rightarrow> bool" where
  "strategy_snapshot X chain dc underlying_mint authority strat \<longleftrightarrow>
     (case dc_strategy_type dc of
        Manual \<Rightarrow> False
      | JupLendType \<Rightarrow>
          (let j = jup_lend_new X (dc_target_key dc) underlying_mint authority in
           \<exists>r t reserve balance. chain (jl_reserve_key j) = Some r \<and> chain (jl_owner_f_token_ata j) = Some t \<and>
             decode_anchor_account X (decode_token_reserve X) ''TokenReserve'' (acc_data r) = Ok reserve \<and>
             read_token_account_amount X (acc_data t) = Ok balance \<and>
             strat = JupLend (j\<lparr>jl_available_liquidity :=
               min (jup_vault_liquid reserve) (jup_redemption_value balance reserve)\<rparr>))
      | KaminoLendType \<Rightarrow>
          (\<exists>r reserve deposited.
             let supplied = unat (kr_available_liquidity reserve) + unat (kr_borrowed_amount reserve) div 2 ^ 60;
                 collateral = unat (kr_collateral_total_supply reserve);
                 worth = (if collateral = 0 then 0 else of_nat (unat deposited * supplied div collateral)) in
             chain (dc_target_key dc) = Some r \<and> decode_klend_reserve X (acc_data r) = Inr reserve \<and> supplied < 2 ^ 64 \<and>
             kamino_collateral X (dc_target_key dc)
               (chain (derive_obligation X authority (kr_lending_market reserve))) = Ok deposited \<and>
             strat = KaminoLend ((kamino_read_reserve X reserve (kamino_lend_new (dc_target_key dc) authority))
               \<lparr>kl_available_liquidity := min (kr_available_liquidity reserve) worth\<rparr>)))"

lemma kamino_redemption_eq:
  assumes "unat t < 2 ^ 64"
  shows "kamino_redemption_value deposited t collateral =
    (Ok (if unat collateral = 0 then 0 else of_nat (unat deposited * unat t div unat collateral)) :: ('e, u64) res)"
proof -
  have "kamino_redemption_value deposited t collateral \<noteq> (Panic :: ('e, u64) res)"
    by (rule kamino_redemption_no_panic [OF assms])
  then have fits: "collateral \<noteq> 0 \<Longrightarrow> unat (ucast deposited :: u128) * unat t < 2 ^ LENGTH(128)"
    by (rule contrapos_np) (simp add: kamino_redemption_value_def mul_p_def checked_mul_def)
  have "(ucast (ucast deposited * t div ucast collateral :: u128) :: u64) = of_nat (unat deposited * unat t div unat collateral)"
    if "collateral \<noteq> 0"
    using fits [OF that] by (simp add: word_unat_eq_iff unat_narrow unat_div unat_mult_fits unat_widen unat_of_nat)
  then show ?thesis
    using fits
    by (auto simp: kamino_redemption_value_def mul_p_def div_p_def checked_mul_def checked_div_def widen_nonzero unat_eq_0)
qed

lemma kamino_update_snapshot:
  assumes fetch: "\<And>ks. fetch c ks = (Ok (map chain ks), c)"
    and "chain (kl_reserve k) = Some r" "decode_klend_reserve X (acc_data r) = Inr reserve"
    and "kamino_collateral X (kl_reserve k) (chain (derive_obligation X (kl_pool_authority k) (kr_lending_market reserve))) = Ok deposited"
    and "kamino_redemption_value deposited
      (ucast (kr_available_liquidity reserve) + drop_bit KLEND_FRACTION_BITS (kr_borrowed_amount reserve))
      (kr_collateral_total_supply reserve) = (Ok worth :: (venue_error, u64) res)"
  shows "kamino_update X fetch (k, c) =
    (Ok (), ((kamino_read_reserve X reserve k)\<lparr>kl_available_liquidity := min (kr_available_liquidity reserve) worth\<rparr>, c))"
proof -
  have ob: "kl_obligation (kamino_read_reserve X reserve k) = derive_obligation X (kl_pool_authority k) (kr_lending_market reserve)"
    by (simp add: kamino_read_reserve_def Let_def)
  have dec: "klend_decode (decode_klend_reserve X) ''reserve'' r = Ok reserve"
    using assms(3) by (simp add: klend_decode_def)
  show ?thesis
    using assms(2,4,5) dec
    by (simp add: kamino_update_def Let_def res_inv fetch ob kamino_total_supply_eq(1) kamino_collateral_def
        cong: option.case_cong)
qed

lemma snapshot_update:
  assumes fetch: "\<And>ks. fetch c ks = (Ok (map chain ks), c)"
    and "strategy_snapshot X chain dc underlying_mint authority strat"
  obtains s where "from_deployment_config X dc underlying_mint authority = Ok s"
    "strategy_update X fetch (s, c) = (Ok (), (strat, c))"
proof (cases "dc_strategy_type dc")
  case Manual
  then show thesis using assms(2) by (simp add: strategy_snapshot_def)
next
  case JupLendType
  let ?j = "jup_lend_new X (dc_target_key dc) underlying_mint authority"
  obtain j where "strat = JupLend j" "jup_update X fetch (?j, c) = (Ok (), (j, c))"
    using assms JupLendType by (auto simp: strategy_snapshot_def Let_def jup_update_Ok)
  then show thesis
    using JupLendType by (intro that [of "JupLend ?j"])
      (simp_all add: from_deployment_config_def strategy_update_def withinS_def)
next
  case KaminoLendType
  let ?k = "kamino_lend_new (dc_target_key dc) authority"
  have keys: "kl_reserve ?k = dc_target_key dc" "kl_pool_authority ?k = authority"
    by (simp_all add: kamino_lend_new_def)
  obtain r reserve deposited where r: "chain (dc_target_key dc) = Some r" "decode_klend_reserve X (acc_data r) = Inr reserve"
    "kamino_collateral X (dc_target_key dc) (chain (derive_obligation X authority (kr_lending_market reserve))) = Ok deposited"
    and lt: "unat (kr_available_liquidity reserve) + unat (kr_borrowed_amount reserve) div 2 ^ 60 < 2 ^ 64"
    and strat: "strat = KaminoLend ((kamino_read_reserve X reserve ?k)\<lparr>kl_available_liquidity :=
      min (kr_available_liquidity reserve) (if unat (kr_collateral_total_supply reserve) = 0 then 0
        else of_nat (unat deposited * (unat (kr_available_liquidity reserve) + unat (kr_borrowed_amount reserve) div 2 ^ 60)
          div unat (kr_collateral_total_supply reserve)))\<rparr>)"
    using assms(2) KaminoLendType by (auto simp: strategy_snapshot_def Let_def)
  note worth = kamino_redemption_eq [of "ucast (kr_available_liquidity reserve) +
    drop_bit KLEND_FRACTION_BITS (kr_borrowed_amount reserve)", unfolded kamino_total_supply_eq(2), OF lt]
  have "kamino_update X fetch (?k, c) = (Ok (), ((kamino_read_reserve X reserve ?k)\<lparr>kl_available_liquidity :=
      min (kr_available_liquidity reserve) (if unat (kr_collateral_total_supply reserve) = 0 then 0
        else of_nat (unat deposited * (unat (kr_available_liquidity reserve) + unat (kr_borrowed_amount reserve) div 2 ^ 60)
          div unat (kr_collateral_total_supply reserve)))\<rparr>, c))"
    by (rule kamino_update_snapshot [where chain = chain and k = "kamino_lend_new (dc_target_key dc) authority" and r = r and c = c and fetch = fetch
        and X = X and reserve = reserve and deposited = deposited,
        OF fetch _ r(2) _ worth, unfolded keys]) (rule r)+
  then show thesis
    using KaminoLendType strat by (intro that [of "KaminoLend ?k"])
      (simp_all add: from_deployment_config_def strategy_update_def withinS_def)
qed

text \<open>
  C39: on a snapshot of the chain that holds every account, decodes, has a valid bump and a
  liquidity source, lists the mode, and holds what the deployment's strategy needs (not a manual
  one), an update succeeds, and the venue is then exactly this: its keys as they were, the
  authority of the stored bump, the mode configuration read, and a state of the decoded accounts,
  with the token programs that own the two mints, the token accounts of the authority and of the
  pool owner's treasury, the deployment's keys, a negative time read as 0, and the strategy with
  what its accounts say can be withdrawn.
\<close>

theorem huma_update_succeeds:
  fixes c :: 'c
  assumes fetch: "\<And>ks. fetch c ks = (Ok (map chain ks), c)"
    and "chain (hv_pool_config_key v) = Some a1" "chain (hv_mode_config_key v) = Some a2"
    and "decode_anchor_account X (decode_pool_config X) ''PoolConfig'' (acc_data a1) = Ok pc"
    and "decode_anchor_account X (decode_mode_config X) ''ModeConfig'' (acc_data a2) = Ok mc"
    and "pool_authority_with_bump X (hv_pool_config_key v) (pcf_pool_authority_bump pc) = Some authority"
    and "liquidity_source (pcf_instant_withdrawal_config pc) = Some d"
    and tk: "tk = ata_with_program X authority (pcf_underlying_mint pc) SPL_TOKEN_PROGRAM_ID"
    and "map chain [pcf_huma_config pc, d, hv_pool_state_key v, hv_mode_mint_key v, tk, pcf_underlying_mint pc, CLOCK_ID] =
      map Some [b0, b1, b2, mode_mint_account, b4, underlying_mint_account, b6]"
    and "decode_anchor_account X (decode_huma_config X) ''HumaConfig'' (acc_data b0) = Ok hc"
    and "decode_anchor_account X (decode_deployment_config X) ''DeploymentConfig'' (acc_data b1) = Ok dc"
    and "decode_anchor_account X (decode_pool_state X) ''PoolState'' (acc_data b2) = Ok ps"
    and "mode_index_for ps (hv_mode_config_key v) = Some idx"
    and "read_mint_supply X (acc_data mode_mint_account) = Ok minted"
    and "read_token_account_amount X (acc_data b4) = Ok balance"
    and "read_clock X b6 = Ok cl"
    and "token_info_new X (pcf_underlying_mint pc) underlying_mint_account (cl_epoch cl) = Ok t0"
    and "token_info_new X (hv_mode_mint_key v) mode_mint_account (cl_epoch cl) = Ok t1"
    and snapshot: "strategy_snapshot X chain dc (pcf_underlying_mint pc) authority strat"
  shows "huma_update_state X fetch (v, c) = (Ok (), (v\<lparr>
    hv_pool_authority_key := authority,
    hv_mode_config := mc,
    hv_state := Some
      \<lparr>is_pool_config = pc,
       is_pool_state = ps,
       is_huma_config = hc,
       is_deployment_config_key = d,
       is_deployment_state_key = derive_deployment_state X d,
       is_pool_underlying_token_key = tk,
       is_treasury_underlying_token_key =
         ata_with_program X (pcf_pool_owner_treasury pc) (pcf_underlying_mint pc) SPL_TOKEN_PROGRAM_ID,
       is_underlying_token_program = acc_owner underlying_mint_account,
       is_mode_token_program = acc_owner mode_mint_account,
       is_mode_index = idx,
       is_mode_supply = minted,
       is_pool_underlying_balance = balance,
       is_current_ts = (if sint (cl_unix_timestamp cl) < 0 then 0 else cl_unix_timestamp cl),
       is_strategy = strat,
       is_token_info = [t0, t1]\<rparr>\<rparr>, c))"
proof -
  obtain start where start: "from_deployment_config X dc (pcf_underlying_mint pc) authority = Ok start"
    "strategy_update X fetch (start, c) = (Ok (), (strat, c))"
    by (rule snapshot_update [where chain = chain and fetch = fetch and c = c, OF fetch snapshot])
  let ?v = "v\<lparr>hv_pool_authority_key := authority\<rparr>"
  have r1: "huma_round_1 X fetch (v, c) = (Ok (pc, mc), (?v, c))"
    unfolding round_1_Ok using assms(2-6) by (simp add: fetch)
  have ch: "chain (pcf_huma_config pc) = Some b0" "chain d = Some b1" "chain (hv_pool_state_key v) = Some b2"
    "chain (hv_mode_mint_key v) = Some mode_mint_account" "chain tk = Some b4"
    "chain (pcf_underlying_mint pc) = Some underlying_mint_account" "chain CLOCK_ID = Some b6"
    using assms(9) by simp_all
  let ?st = "\<lparr>is_pool_config = pc, is_pool_state = ps, is_huma_config = hc, is_deployment_config_key = d,
    is_deployment_state_key = derive_deployment_state X d, is_pool_underlying_token_key = tk,
    is_treasury_underlying_token_key = ata_with_program X (pcf_pool_owner_treasury pc) (pcf_underlying_mint pc) SPL_TOKEN_PROGRAM_ID,
    is_underlying_token_program = acc_owner underlying_mint_account, is_mode_token_program = acc_owner mode_mint_account,
    is_mode_index = idx, is_mode_supply = minted, is_pool_underlying_balance = balance,
    is_current_ts = (if sint (cl_unix_timestamp cl) < 0 then 0 else cl_unix_timestamp cl),
    is_strategy = start, is_token_info = [t0, t1]\<rparr>"
  have "huma_round_2 X fetch pc (?v, c) = (Ok ?st, (?v, c))"
    unfolding round_2_Ok using assms(7,10-18) ch start(1)
    by (simp add: fetch huma_decode_round_2_def to_array_def found_def amount_or_zero_def flip: tk)
  with r1 start(2) show ?thesis
    unfolding update_Ok by (intro exI conjI) (assumption | simp)+
qed

lemma sample_strategy_update:
  "strategy_update sample_huma everything (KaminoLend sample_kamino, ()) =
    (Ok (), (KaminoLend ((kamino_read_reserve sample_huma sample_klend_reserve sample_kamino)
      \<lparr>kl_available_liquidity := 200\<rparr>), ()))"
  by (simp add: strategy_update_def withinS_def sample_kamino_update)

lemma sample_lookups:
  "pool_authority_with_bump sample_huma k b = Some 6" "ata_with_program sample_huma a m p = 7"
  "read_clock sample_huma acct = Ok sample_clock"
  "token_info_new sample_huma k sample_huma_account e =
    Ok \<lparr>ti_pubkey = k, ti_decimals = 6, is_token_2022 = False, transfer_fee = None, maximum_fee = None\<rparr>"
  "from_deployment_config sample_huma \<lparr>dc_bump = 0, dc_strategy_type = KaminoLendType, dc_target_key = 19\<rparr> u 6 =
    Ok (KaminoLend sample_kamino)"
  by (simp_all add: pool_authority_with_bump_def sample_huma_def read_clock_def token_info_new_def
      from_deployment_config_def sample_huma_account_def TOKEN_PROGRAM_ID_def TOKEN_2022_PROGRAM_ID_def)

lemma sample_snapshot:
  "strategy_snapshot sample_huma (\<lambda>_. Some sample_huma_account)
    \<lparr>dc_bump = 0, dc_strategy_type = KaminoLendType, dc_target_key = 19\<rparr> u 6
    (KaminoLend ((kamino_read_reserve sample_huma sample_klend_reserve sample_kamino)\<lparr>kl_available_liquidity := 200\<rparr>))"
proof -
  have "kamino_collateral sample_huma 19 (Some sample_huma_account) = Ok 100"
    by (simp add: kamino_collateral_def klend_decode_def kamino_deposited_def)
  moreover have "unat (kr_borrowed_amount sample_klend_reserve) div 2 ^ 60 = 1500"
    "unat (kr_available_liquidity sample_klend_reserve) = 500" "unat (kr_collateral_total_supply sample_klend_reserve) = 1000"
    "kr_available_liquidity sample_klend_reserve = 500"
    by (simp_all add: sample_klend_reserve_def)
  ultimately show ?thesis
    by (simp add: strategy_snapshot_def Let_def)
qed

theorem huma_update_succeeds_witness:
  "\<exists>v' s. huma_update_state sample_huma everything (fresh_venue, ()) = (Ok (), (v', ())) \<and>
    hv_state v' = Some s \<and> is_mode_supply s = 1000000 \<and> is_current_ts s = 1000 \<and>
    available_liquidity_for_withdrawal (is_strategy s) = 200 \<and> is_mode_token_program s = TOKEN_PROGRAM_ID"
proof -
  have "huma_update_state sample_huma everything (fresh_venue, ()) = (Ok (), (fresh_venue\<lparr>
    hv_pool_authority_key := 6, hv_mode_config := sample_mode_config,
    hv_state := Some
      \<lparr>is_pool_config = sample_pool_config, is_pool_state = sample_pool_state,
       is_huma_config = is_huma_config sample_state, is_deployment_config_key = 16,
       is_deployment_state_key = derive_deployment_state sample_huma 16, is_pool_underlying_token_key = 7,
       is_treasury_underlying_token_key =
         ata_with_program sample_huma (pcf_pool_owner_treasury sample_pool_config)
           (pcf_underlying_mint sample_pool_config) SPL_TOKEN_PROGRAM_ID,
       is_underlying_token_program = acc_owner sample_huma_account,
       is_mode_token_program = acc_owner sample_huma_account,
       is_mode_index = 0, is_mode_supply = 1000000, is_pool_underlying_balance = 600000,
       is_current_ts = (if sint (cl_unix_timestamp sample_clock) < 0 then 0 else cl_unix_timestamp sample_clock),
       is_strategy = KaminoLend ((kamino_read_reserve sample_huma sample_klend_reserve sample_kamino)
         \<lparr>kl_available_liquidity := 200\<rparr>),
       is_token_info = [\<lparr>ti_pubkey = pcf_underlying_mint sample_pool_config, ti_decimals = 6, is_token_2022 = False,
           transfer_fee = None, maximum_fee = None\<rparr>,
         \<lparr>ti_pubkey = hv_mode_mint_key fresh_venue, ti_decimals = 6, is_token_2022 = False, transfer_fee = None,
           maximum_fee = None\<rparr>]\<rparr>\<rparr>, ()))"
    by (rule huma_update_succeeds [where chain = "\<lambda>_. Some sample_huma_account" and d = 16
          and ?a1.0 = sample_huma_account and ?a2.0 = sample_huma_account and ?b0.0 = sample_huma_account
          and ?b1.0 = sample_huma_account and ?b2.0 = sample_huma_account
          and ?b4.0 = sample_huma_account and ?b6.0 = sample_huma_account
          and dc = "\<lparr>dc_bump = 0, dc_strategy_type = KaminoLendType, dc_target_key = 19\<rparr>"])
      (simp_all add: everything_def sample_decoders sample_lookups sample_snapshot,
       simp_all add: sample_pool_config_def sample_pool_state_def mode_index_for_def huma_venue_new_def)
  then show ?thesis by (simp add: sample_clock_def sample_huma_account_def)
qed

lemma sample_update:
  "\<exists>v'. huma_update_state sample_huma everything (fresh_venue, ()) = (Ok (), (v', ()))"
proof -
  have f: "everything c ks = (Ok (map (\<lambda>_. Some sample_huma_account) ks), c)" for c ks
    by (simp add: everything_def)
  have "huma_round_1 sample_huma everything (fresh_venue, ()) =
      (Ok (sample_pool_config, sample_mode_config), (fresh_venue\<lparr>hv_pool_authority_key := 6\<rparr>, ()))"
    unfolding round_1_Ok by (simp add: f sample_decoders sample_lookups)
  moreover have "\<exists>st. huma_round_2 sample_huma everything sample_pool_config (fresh_venue\<lparr>hv_pool_authority_key := 6\<rparr>, ()) =
      (Ok st, (fresh_venue\<lparr>hv_pool_authority_key := 6\<rparr>, ())) \<and> is_strategy st = KaminoLend sample_kamino"
    unfolding round_2_Ok
    by (simp add: f huma_decode_round_2_def to_array_def found_def sample_decoders sample_lookups)
      (simp add: sample_pool_config_def sample_pool_state_def mode_index_for_def huma_venue_new_def)
  ultimately show ?thesis
    unfolding update_Ok using sample_strategy_update by fastforce
qed

text \<open>
  C12: whatever updates it went through, a venue built from an account is that of the
  fixed pool, its derived keys are those of the pool and the mode, and when it is
  initialized its state is coherent: the deployment is the pool's liquidity source, the
  mode's index is where the pool lists the mode, its tokens are the underlying and the
  mode mint in this order, its time is a non-negative clock, its strategy is in order.
\<close>

theorem huma_reachable_consistent:
  assumes "huma_reachable X fetch v"
  shows "hv_pool_config_key v = POOL_CONFIG_KEY \<and> hv_pool_state_key v = derive_pool_state X POOL_CONFIG_KEY \<and>
    hv_mode_mint_key v = derive_mode_mint X POOL_CONFIG_KEY (hv_mode_config_key v) \<and>
    (\<forall>s. hv_state v = Some s \<longrightarrow>
       liquidity_source (pcf_instant_withdrawal_config (is_pool_config s)) = Some (is_deployment_config_key s) \<and>
       is_deployment_state_key s = derive_deployment_state X (is_deployment_config_key s) \<and>
       is_mode_index s < length (ps_mode_config_keys (is_pool_state s)) \<and>
       ps_mode_config_keys (is_pool_state s) ! is_mode_index s = hv_mode_config_key v \<and>
       tradable_mints (huma_trading_venue X v) = [pcf_underlying_mint (is_pool_config s), hv_mode_mint_key v] \<and>
       unat (is_current_ts s) < 2 ^ 63 \<and> strategy_good X (is_strategy s))"
  using reachable_invariant [OF assms]
  by (auto simp: state_consistent_def mode_index_for_def position_eq_Some tradable_mints_def huma_trading_venue_def)

lemma sample_reachable: "huma_reachable sample_huma everything fresh_venue"
  by (rule venue_new [of _ 18 sample_huma_account])
    (simp add: huma_from_account_def sample_decoders)

theorem huma_reachable_consistent_witness:
  "\<exists>v s. huma_reachable sample_huma everything v \<and> hv_state v = Some s \<and>
    ps_mode_config_keys (is_pool_state s) ! is_mode_index s = hv_mode_config_key v"
proof -
  obtain v where u: "huma_update_state sample_huma everything (fresh_venue, ()) = (Ok (), (v, ()))"
    using sample_update by blast
  then obtain s where "hv_state v = Some s" by (rule update_Ok_consistent)
  moreover have "huma_reachable sample_huma everything v" by (rule venue_updated [OF sample_reachable u])
  ultimately show ?thesis using huma_reachable_consistent by blast
qed

text \<open>
  C40: an update that fails keeps the state, the mode configuration and the keys of the
  venue, except the pool authority: when the new pool configuration has no liquidity
  source the update fails, but the authority of its bump is already in place, next to
  the token account derived from the old one.
\<close>

theorem huma_failed_update:
  assumes "huma_update_state X fetch (v, c) = (Inl x, (v', c'))"
  shows "hv_state v' = hv_state v \<and> hv_mode_config v' = hv_mode_config v \<and>
    hv_mode_config_key v' = hv_mode_config_key v \<and> hv_pool_config_key v' = hv_pool_config_key v \<and>
    hv_pool_state_key v' = hv_pool_state_key v \<and> hv_mode_mint_key v' = hv_mode_mint_key v \<and>
    (\<forall>pc mc v1 c1. huma_round_1 X fetch (v, c) = (Ok (pc, mc), (v1, c1)) \<and>
        liquidity_source (pcf_instant_withdrawal_config pc) = None \<longrightarrow>
      x = Error (missing_state ''PoolConfig.liquidity_source'') \<and>
      Some (hv_pool_authority_key v') =
        pool_authority_with_bump X (hv_pool_config_key v) (pcf_pool_authority_bump pc))"
proof -
  have "x = Error (missing_state ''PoolConfig.liquidity_source'') \<and>
      Some (hv_pool_authority_key v') = pool_authority_with_bump X (hv_pool_config_key v) (pcf_pool_authority_bump pc)"
    if r1: "huma_round_1 X fetch (v, c) = (Ok (pc, mc), (v1, c1))"
      and none: "liquidity_source (pcf_instant_withdrawal_config pc) = None" for pc mc v1 c1
  proof -
    have "huma_round_2 X fetch pc (v1, c1) = (Err (missing_state ''PoolConfig.liquidity_source''), (v1, c1))"
      using none by (simp add: huma_round_2_def Let_def)
    then have "x = Error (missing_state ''PoolConfig.liquidity_source'')" "v' = v1"
      using assms r1 by (simp_all add: huma_update_state_def)
    then show ?thesis using r1 by (auto simp: round_1_Ok)
  qed
  then show ?thesis using update_failed [OF assms] by blast
qed

definition unsourced_huma :: huma_ext where
  "unsourced_huma =
     sample_huma\<lparr>decode_pool_config := (\<lambda>_. Inr (sample_pool_config\<lparr>pcf_instant_withdrawal_config :=
       (pcf_instant_withdrawal_config sample_pool_config)\<lparr>liquidity_source := None\<rparr>\<rparr>))\<rparr>"

theorem huma_failed_update_witness:
  "\<exists>x v'. huma_update_state unsourced_huma everything (fresh_venue, ()) = (Inl x, (v', ())) \<and>
    hv_state v' = None \<and> hv_pool_authority_key v' = 6 \<and> hv_pool_authority_key fresh_venue = 0"
proof -
  let ?pc = "sample_pool_config\<lparr>pcf_instant_withdrawal_config :=
    (pcf_instant_withdrawal_config sample_pool_config)\<lparr>liquidity_source := None\<rparr>\<rparr>"
  have r1: "huma_round_1 unsourced_huma everything (fresh_venue, ()) =
      (Ok (?pc, sample_mode_config), (fresh_venue\<lparr>hv_pool_authority_key := 6\<rparr>, ()))"
    unfolding round_1_Ok
    by (simp add: everything_def decode_anchor_account_eq anchor_account_discriminator_def anchor_discriminator_def
        get_range_def DISCRIMINATOR_LEN_def sample_huma_account_def pool_authority_with_bump_def)
      (simp add: unsourced_huma_def sample_huma_def)
  then have u: "huma_update_state unsourced_huma everything (fresh_venue, ()) =
      (Err (missing_state ''PoolConfig.liquidity_source''), (fresh_venue\<lparr>hv_pool_authority_key := 6\<rparr>, ()))"
    by (simp add: huma_update_state_def huma_round_2_def Let_def)
  show ?thesis using huma_failed_update [OF u] u by (simp add: huma_venue_new_def)
qed

text \<open>
  With hashes of at least eight bytes and KLend reserves of sane size, no update over
  the RPC cache panics, and the cache stays well-formed.
\<close>

theorem huma_update_no_panic:
  assumes "hashes_ok X" "klend_sane X" "rpc_wf c"
  shows "fst (huma_update_state X get_accounts (v, c)) \<noteq> Panic \<and>
    rpc_wf (snd (snd (huma_update_state X get_accounts (v, c))))"
  using rpc_cache.update_safe [OF assms(1,2)] assms(3) unfolding safe_def case_prod_unfold by blast

theorem huma_update_no_panic_witness:
  "fst (huma_update_state sample_huma get_accounts (fresh_venue, huma_cache)) \<noteq> Panic"
  using huma_update_no_panic [OF sample_huma_ok huma_cache_wf] by blast

section \<open>Instructions\<close>

lemma anchor_discriminator_length: "anchor_discriminator X p n = Ok d \<Longrightarrow> length d = 8"
  by (auto simp: anchor_discriminator_def res_inv DISCRIMINATOR_LEN_def dest: length_get_range)

lemma huma_pack_Deposit:
  assumes "huma_pack X (Deposit amount) = (Ok data :: ('e, u8 list) res)"
  shows "length data = 34" "u64_at data 8 = amount"
    "anchor_instruction_discriminator X ''deposit'' = (Ok (take 8 data) :: ('e, u8 list) res)"
    "drop 16 data = to_le_bytes (13 :: u32) @ ascii ''NO_COMMITMENT'' @ [0]"
proof -
  obtain d where d: "anchor_discriminator X ''global:'' ''deposit'' = (Ok d :: ('e, u8 list) res)"
    and data: "data = d @ to_le_bytes amount @ borsh_string NO_COMMITMENT @ borsh_bool False"
    using assms by (auto simp: anchor_instruction_discriminator_def res_inv)
  note len = anchor_discriminator_length [OF d]
  show "anchor_instruction_discriminator X ''deposit'' = (Ok (take 8 data) :: ('e, u8 list) res)"
    using d by (simp add: anchor_instruction_discriminator_def data len)
  show "length data = 34" "u64_at data 8 = amount"
    "drop 16 data = to_le_bytes (13 :: u32) @ ascii ''NO_COMMITMENT'' @ [0]"
    by (simp_all add: data len borsh_string_def borsh_bool_def NO_COMMITMENT_def u64_at_def slice_def)
qed

lemma huma_pack_InstantWithdraw:
  assumes "huma_pack X (InstantWithdraw shares max_fee) = (Ok data :: ('e, u8 list) res)"
  shows "length data = 24" "u64_at data 8 = shares" "u64_at data 16 = max_fee"
    "anchor_instruction_discriminator X ''instant_withdraw'' = (Ok (take 8 data) :: ('e, u8 list) res)"
proof -
  obtain d where d: "anchor_discriminator X ''global:'' ''instant_withdraw'' = (Ok d :: ('e, u8 list) res)"
    and data: "data = d @ to_le_bytes shares @ to_le_bytes max_fee"
    using assms by (auto simp: anchor_instruction_discriminator_def res_inv)
  note len = anchor_discriminator_length [OF d]
  show "anchor_instruction_discriminator X ''instant_withdraw'' = (Ok (take 8 data) :: ('e, u8 list) res)"
    using d by (simp add: anchor_instruction_discriminator_def data len)
  show "length data = 24" "u64_at data 8 = shares" "u64_at data 16 = max_fee"
    by (simp_all add: data len u64_at_def slice_def)
qed

lemma huma_instruction_shape:
  fixes X :: "'x huma_ext_scheme"
  assumes "huma_generate_swap_instruction X v r user = Ok ix" "hv_state v = Some s" "strategy_good X (is_strategy s)"
  shows "ix_program_id ix = PROGRAM_ID \<and> filter is_signer (ix_accounts ix) = [meta_readonly user True] \<and>
    am_pubkey (hd (ix_accounts ix)) = user \<and> length (ix_accounts ix) \<le> 31 \<and>
    u64_at (ix_data ix) 8 = req_amount r \<and>
    (if req_input_mint r = pcf_underlying_mint (is_pool_config s)
        \<and> req_output_mint r = hv_mode_mint_key v
     then length (ix_accounts ix) = 13 \<and> length (ix_data ix) = 34
     else length (ix_data ix) = 24 \<and> u64_at (ix_data ix) 16 = u64_MAX)"
proof -
  have "req_swap_type r = ExactIn" using assms(1) by (cases "req_swap_type r") (simp_all add: huma_generate_swap_instruction_def)
  with assms(1,2) consider
    (dep) accounts data where "req_input_mint r = pcf_underlying_mint (is_pool_config s)"
      "req_output_mint r = hv_mode_mint_key v"
      "deposit_account_metas X v user = Ok accounts" "huma_pack X (Deposit (req_amount r)) = (Ok data :: (venue_error, u8 list) res)"
      "ix = \<lparr>ix_program_id = PROGRAM_ID, ix_accounts = accounts, ix_data = data\<rparr>"
  | (wd) accounts data where
      "\<not> (req_input_mint r = pcf_underlying_mint (is_pool_config s) \<and> req_output_mint r = hv_mode_mint_key v)"
      "instant_withdraw_account_metas X v user = Ok accounts"
      "huma_pack X (InstantWithdraw (req_amount r) u64_MAX) = (Ok data :: (venue_error, u8 list) res)"
      "ix = \<lparr>ix_program_id = PROGRAM_ID, ix_accounts = accounts, ix_data = data\<rparr>"
    by (auto simp: huma_generate_swap_instruction_def huma_swap_direction_def venue_state_def Let_def bindR_eq_Inr
        simp del: huma_pack.simps split: if_splits)
  then show ?thesis
  proof cases
    case dep
    have acc: "filter is_signer accounts = [meta_readonly user True]" "am_pubkey (hd accounts) = user" "length accounts = 13"
      using dep(3) assms(2) by (auto simp: deposit_account_metas_def venue_state_def Let_def meta_new_def meta_readonly_def)
    then show ?thesis using dep huma_pack_Deposit(1,2) [OF dep(4)] by simp
  next
    case wd
    have acc: "accounts = take 17 accounts @ strategy_remaining_accounts X (is_strategy s) (is_underlying_token_program s) \<and>
        filter is_signer (take 17 accounts) = [meta_readonly user True] \<and> am_pubkey (hd (take 17 accounts)) = user \<and>
        length (take 17 accounts) = 17"
      using wd(2) assms(2)
      by (auto simp: instant_withdraw_account_metas_def venue_state_def Let_def take_Cons' meta_new_def meta_readonly_def)
    then obtain ms where ms: "accounts = ms @ strategy_remaining_accounts X (is_strategy s) (is_underlying_token_program s)"
      "filter is_signer ms = [meta_readonly user True]" "am_pubkey (hd ms) = user" "length ms = 17" by blast
    have "filter is_signer accounts = [meta_readonly user True]"
      using ms(2) unfolding ms(1) by (simp only: strategy.signers_with_remaining)
    moreover have "length accounts \<le> 31"
      using strategy.remaining_bounded [OF assms(3), of "is_underlying_token_program s"] ms(1,4) by simp
    moreover have "ms \<noteq> []" using ms(4) by auto
    then have "am_pubkey (hd accounts) = user" using ms(1,3) by simp
    ultimately show ?thesis using wd huma_pack_InstantWithdraw(1-3) [OF wd(3)] by auto
  qed
qed

text \<open>
  An instruction built by an initialized venue calls the Huma program, is signed by
  the user alone, who comes first, and has at most 31 accounts; its data carries the
  amount of the request and nothing else of it: 34 bytes for a deposit, 24 with the
  loosest fee limit for a withdrawal.
\<close>

theorem huma_swap_instruction_shape:
  fixes X :: "'x huma_ext_scheme"
  assumes "huma_generate_swap_instruction X v r user = Ok ix" "hv_state v = Some s" "strategy_good X (is_strategy s)"
  shows "ix_program_id ix = PROGRAM_ID \<and> filter is_signer (ix_accounts ix) = [meta_readonly user True] \<and>
    am_pubkey (hd (ix_accounts ix)) = user \<and> length (ix_accounts ix) \<le> 31 \<and>
    u64_at (ix_data ix) 8 = req_amount r \<and>
    (if req_input_mint r = pcf_underlying_mint (is_pool_config s)
        \<and> req_output_mint r = hv_mode_mint_key v
     then length (ix_accounts ix) = 13 \<and> length (ix_data ix) = 34
     else length (ix_data ix) = 24 \<and> u64_at (ix_data ix) 16 = u64_MAX)"
  using assms by (rule huma_instruction_shape)

lemma sample_instruction:
  "\<exists>ix. huma_generate_swap_instruction sample_huma sample_huma_venue (exact_in_request 5 14 77) 99 = Ok ix"
  by (simp add: huma_generate_swap_instruction_def sample_direction instant_withdraw_account_metas_def venue_state_def
      Let_def anchor_instruction_discriminator_def anchor_discriminator_def get_range_def DISCRIMINATOR_LEN_def)
    (simp add: sample_huma_def)

theorem huma_swap_instruction_shape_witness:
  "\<exists>ix. huma_generate_swap_instruction sample_huma sample_huma_venue (exact_in_request 5 14 77) 99 = Ok ix \<and>
    u64_at (ix_data ix) 8 = 77 \<and> length (ix_accounts ix) \<le> 31"
proof -
  obtain ix where ix: "huma_generate_swap_instruction sample_huma sample_huma_venue (exact_in_request 5 14 77) 99 = Ok ix"
    using sample_instruction by blast
  have "strategy_good sample_huma (is_strategy sample_state)"
    using kamino_reachable_good(1) [OF sample_kamino_reachable] by (simp add: sample_state_def)
  from huma_swap_instruction_shape [OF ix sample_venue_simps(1) this] ix show ?thesis by simp
qed

end
