(* ===== verification/Swap_Route.thy ===== *)
theory Swap_Route
  imports Raydium_Venue Huma_Update
begin

text \<open>
  The off-chain route builder (\<open>src/swap_route/mod.rs\<close>): the venue selector and the leg
  specification with their Borsh bytes, the leg built from a venue's swap instruction,
  and the data of the route instruction.
\<close>

section \<open>Legs\<close>

definition SWAP_ROUTE_V3_DISCRIMINATOR :: u8 where "SWAP_ROUTE_V3_DISCRIMINATOR = 42"
definition ROUTE_WEIGHT_ALL :: u32 where "ROUTE_WEIGHT_ALL = 1000000000"

datatype route_venue = RouteRaydiumAmm | RouteHuma bool

fun to_borsh_bytes :: "route_venue \<Rightarrow> u8 list" where
  "to_borsh_bytes RouteRaydiumAmm = [0]"
| "to_borsh_bytes (RouteHuma is_deposit) = 1 # borsh_bool is_deposit"

record swap_spec =
  sp_venue :: route_venue
  sp_from :: u8
  sp_to :: u8
  sp_weight_nanos :: u32
  sp_n_accounts :: u8

definition swap_spec_bytes :: "swap_spec \<Rightarrow> u8 list" where
  "swap_spec_bytes s =
     to_borsh_bytes (sp_venue s) @ [sp_from s, sp_to s] @ to_le_bytes (sp_weight_nanos s) @ [sp_n_accounts s]"

definition protocol_to_venue :: "trading_venue \<Rightarrow> quote_request \<Rightarrow> (venue_error, route_venue) res" where
  "protocol_to_venue v request =
     (case v_protocol v of
        RaydiumAMM \<Rightarrow> Ok RouteRaydiumAmm
      | Huma \<Rightarrow>
          bindR (get_token v 0) (\<lambda>t. Ok (RouteHuma (req_input_mint request = ti_pubkey t))))"

definition assemble_leg_accounts :: "instruction \<Rightarrow> pubkey \<Rightarrow> pubkey \<Rightarrow> account_meta list" where
  "assemble_leg_accounts swap_ix titan_pda venue_program_id =
     map (\<lambda>acc. if am_pubkey acc = titan_pda then acc\<lparr>is_signer := False\<rparr> else acc) (ix_accounts swap_ix) @
     [meta_readonly venue_program_id False]"

text \<open>\<open>accounts.len() as u8\<close> truncates.\<close>

definition build_swap_leg ::
  "trading_venue \<Rightarrow> quote_request \<Rightarrow> pubkey \<Rightarrow> u8 \<Rightarrow> u8 \<Rightarrow> u32
    \<Rightarrow> (venue_error, swap_spec \<times> account_meta list) res" where
  "build_swap_leg v request titan_pda from_index to_index weight_nanos =
     bindR (v_generate_swap_instruction v request titan_pda) (\<lambda>swap_ix.
     let accounts = assemble_leg_accounts swap_ix titan_pda (v_program_id v) in
     bindR (protocol_to_venue v request) (\<lambda>selector.
     Ok (\<lparr>sp_venue = selector, sp_from = from_index, sp_to = to_index,
          sp_weight_nanos = weight_nanos, sp_n_accounts = of_nat (length accounts)\<rparr>,
         accounts)))"

definition encode_swap_route_v3_data :: "u64 \<Rightarrow> u8 \<Rightarrow> swap_spec list \<Rightarrow> u8 list" where
  "encode_swap_route_v3_data amount mints swaps =
     [SWAP_ROUTE_V3_DISCRIMINATOR] @ to_le_bytes amount @ [mints] @
     to_le_bytes (of_nat (length swaps) :: u32) @ concat (map swap_spec_bytes swaps)"

section \<open>Properties\<close>

lemma assemble_length: "length (assemble_leg_accounts ix t p) = Suc (length (ix_accounts ix))"
  by (simp add: assemble_leg_accounts_def)

lemma build_leg_Ok:
  assumes "build_swap_leg v request titan i j w = Ok (spec, accounts)"
  obtains ix where "v_generate_swap_instruction v request titan = Ok ix"
    "accounts = assemble_leg_accounts ix titan (v_program_id v)"
    "protocol_to_venue v request = Ok (sp_venue spec)" "sp_from spec = i" "sp_to spec = j"
    "sp_weight_nanos spec = w" "sp_n_accounts spec = of_nat (length accounts)"
  using assms by (auto simp: build_swap_leg_def Let_def res_inv)

text \<open>
  A leg has the accounts of the venue's swap instruction in its order, with the same
  keys and write flags, no signature of the TitanPDA and the other signatures kept,
  followed by the venue's program, read-only; the specification keeps the indices and the
  weight, and its account count is the number of accounts modulo 256, so it is right
  exactly for at most 255 of them.
\<close>

theorem build_swap_leg_accounts:
  assumes "build_swap_leg v request titan i j w = Ok (spec, accounts)"
  shows "\<exists>ix. v_generate_swap_instruction v request titan = Ok ix \<and>
    length accounts = Suc (length (ix_accounts ix)) \<and>
    map am_pubkey accounts = map am_pubkey (ix_accounts ix) @ [v_program_id v] \<and>
    map is_writable accounts = map is_writable (ix_accounts ix) @ [False] \<and>
    map is_signer accounts =
      map (\<lambda>a. is_signer a \<and> am_pubkey a \<noteq> titan) (ix_accounts ix) @ [False] \<and>
    sp_from spec = i \<and> sp_to spec = j \<and> sp_weight_nanos spec = w \<and>
    (unat (sp_n_accounts spec) = length accounts \<longleftrightarrow> length accounts \<le> 255)"
proof -
  obtain ix where ix: "v_generate_swap_instruction v request titan = Ok ix"
    "accounts = assemble_leg_accounts ix titan (v_program_id v)"
    "sp_from spec = i" "sp_to spec = j" "sp_weight_nanos spec = w" "sp_n_accounts spec = of_nat (length accounts)"
    by (rule build_leg_Ok [OF assms])
  have "unat (sp_n_accounts spec) = length accounts mod 256" by (simp add: ix(6) unat_of_nat)
  then have "unat (sp_n_accounts spec) = length accounts \<longleftrightarrow> length accounts \<le> 255"
    using mod_less_divisor [of 256 "length accounts"] mod_less [of "length accounts" 256] by linarith
  then show ?thesis
    using ix by (auto simp: assemble_leg_accounts_def meta_readonly_def)
qed

lemma sample_leg:
  "\<exists>spec accounts. build_swap_leg (huma_trading_venue sample_huma sample_huma_venue) (exact_in_request 5 14 77) 99 1 0 w =
    Ok (spec, accounts)"
proof -
  obtain ix where "huma_generate_swap_instruction sample_huma sample_huma_venue (exact_in_request 5 14 77) 99 = Ok ix"
    using sample_instruction by blast
  then show ?thesis
    by (simp add: build_swap_leg_def huma_trading_venue_def protocol_to_venue_def get_token_def get_def)
      (simp add: sample_state_def Let_def)
qed

theorem build_swap_leg_accounts_witness:
  "\<exists>spec accounts. build_swap_leg (huma_trading_venue sample_huma sample_huma_venue) (exact_in_request 5 14 77) 99 1 0 5 =
    Ok (spec, accounts) \<and> sp_from spec = 1 \<and> sp_weight_nanos spec = 5"
proof -
  obtain spec accounts where b: "build_swap_leg (huma_trading_venue sample_huma sample_huma_venue)
      (exact_in_request 5 14 77) 99 1 0 5 = Ok (spec, accounts)"
    using sample_leg by blast
  from build_swap_leg_accounts [OF b] b show ?thesis by blast
qed

lemma huma_instruction_signers:
  fixes X :: "'x huma_ext_scheme"
  assumes "huma_generate_swap_instruction X v r user = Ok ix" "hv_state v = Some s" "strategy_good X (is_strategy s)"
  shows "filter is_signer (ix_accounts ix) = [meta_readonly user True]" "length (ix_accounts ix) \<le> 31"
    "ix_program_id ix = PROGRAM_ID"
  using huma_instruction_shape [OF assms] by blast+

text \<open>
  A leg of an initialized Huma venue asks for no signature at all, its account count
  is exact and at most 32, and its selector is the deposit one exactly when the input is
  the venue's underlying token.
\<close>

theorem huma_leg_unsigned:
  fixes X :: "'x huma_ext_scheme"
  assumes "build_swap_leg (huma_trading_venue X v) request titan i j w = Ok (spec, accounts)"
    and "hv_state v = Some s" "strategy_good X (is_strategy s)"
    and "map ti_pubkey (is_token_info s) = [pcf_underlying_mint (is_pool_config s), hv_mode_mint_key v]"
  shows "(\<forall>a\<in>set accounts. \<not> is_signer a) \<and> unat (sp_n_accounts spec) = length accounts \<and> length accounts \<le> 32 \<and>
    sp_venue spec = RouteHuma (req_input_mint request = pcf_underlying_mint (is_pool_config s))"
proof -
  obtain ix where ix: "huma_generate_swap_instruction X v request titan = Ok ix"
    "accounts = assemble_leg_accounts ix titan PROGRAM_ID"
    "protocol_to_venue (huma_trading_venue X v) request = Ok (sp_venue spec)"
    "sp_n_accounts spec = of_nat (length accounts)"
    using build_leg_Ok [OF assms(1)] by (metis (lifting) huma_trading_venue_def trading_venue.select_convs(2,9))
  note shape = huma_instruction_signers [OF ix(1) assms(2,3)]
  have "am_pubkey a = titan" if "a \<in> set (ix_accounts ix)" "is_signer a" for a
  proof -
    have "a \<in> set (filter is_signer (ix_accounts ix))" using that by simp
    then show ?thesis by (simp add: shape meta_readonly_def)
  qed
  then have "\<forall>a\<in>set accounts. \<not> is_signer a"
    by (auto simp: ix(2) assemble_leg_accounts_def meta_readonly_def)
  moreover have len: "length accounts \<le> 32" using shape(2) by (simp add: ix(2) assemble_length)
  moreover have "unat (sp_n_accounts spec) = length accounts"
    using len by (simp add: ix(4) unat_of_nat)
  moreover have "get_token (huma_trading_venue X v) 0 = Ok (hd (is_token_info s))" "is_token_info s \<noteq> []"
    "ti_pubkey (hd (is_token_info s)) = pcf_underlying_mint (is_pool_config s)"
    using assms(2,4) by (cases "is_token_info s"; simp add: get_token_def get_def huma_trading_venue_def)+
  ultimately show ?thesis using ix(3) by (simp add: protocol_to_venue_def huma_trading_venue_def)
qed

theorem huma_leg_unsigned_witness:
  "\<exists>spec accounts. build_swap_leg (huma_trading_venue sample_huma sample_huma_venue) (exact_in_request 5 14 77) 99 1 0 5 =
    Ok (spec, accounts) \<and> sp_venue spec = RouteHuma False \<and> (\<forall>a\<in>set accounts. \<not> is_signer a)"
proof -
  obtain spec accounts where b: "build_swap_leg (huma_trading_venue sample_huma sample_huma_venue)
      (exact_in_request 5 14 77) 99 1 0 5 = Ok (spec, accounts)"
    using sample_leg by blast
  have "strategy_good sample_huma (is_strategy sample_state)"
    using kamino_reachable_good(1) [OF sample_kamino_reachable] by (simp add: sample_state_def)
  moreover have "map ti_pubkey (is_token_info sample_state) =
      [pcf_underlying_mint (is_pool_config sample_state), hv_mode_mint_key sample_huma_venue]"
    "pcf_underlying_mint (is_pool_config sample_state) = 14"
    by (simp_all, simp_all add: sample_state_def sample_pool_config_def)
  ultimately show ?thesis using huma_leg_unsigned [OF b sample_venue_simps(1)] b by auto
qed

end
