(* ===== verification/Route_State.thy ===== *)
theory Route_State
  imports Swap_Route
begin

text \<open>
  The data of the on-chain route program
  (\<open>program-template/programs/titan-v3-venue-template\<close>): its errors, its own venue enum
  and leg specification (\<open>state.rs\<close>) with the Borsh reading their derives give them, the
  arguments of the route instruction (\<open>lib.rs\<close>), and the two venue adapters
  (\<open>instructions/venues\<close>). The properties say that both ends of the wire agree.
\<close>

section \<open>Errors and state (\<open>error.rs\<close>, \<open>state.rs\<close>)\<close>

datatype template_error =
  InvalidSwapInput
| MissingRemainingAccount
| InvalidAccountData
| ReservedBalanceViolation

definition TITAN_PROGRAM_ID :: pubkey where
  "TITAN_PROGRAM_ID =
     3013553885462050806932602039640721436301455117066791990555567644623493450196"

definition MAX_SWAPS :: nat where "MAX_SWAPS = 12"
definition MAX_MINTS :: nat where "MAX_MINTS = 12"

datatype prog_venue = ProgRaydiumAmm | ProgHuma bool

record prog_swap =
  ps_venue :: prog_venue
  ps_from :: u8
  ps_to :: u8
  ps_weight_nanos :: u32
  ps_n_accounts :: u8

record titan_pda =
  tp_bump :: u8

definition TITAN_PDA_SIZE :: nat where "TITAN_PDA_SIZE = 1"
definition TITAN_PDA_SEED :: "u8 list" where "TITAN_PDA_SEED = ascii ''titan_pda''"

definition initialize :: "u8 \<Rightarrow> titan_pda \<Rightarrow> titan_pda" where
  "initialize bump p = p\<lparr>tp_bump := bump\<rparr>"

section \<open>Reading the arguments\<close>

text \<open>\<open>AnchorDeserialize\<close> of the arguments.\<close>

definition read_venue :: "prog_venue reader" where
  "read_venue = bindB read_u8 (\<lambda>tag.
     if tag = 0 then returnB ProgRaydiumAmm
     else if tag = 1 then bindB read_bool (\<lambda>is_deposit. returnB (ProgHuma is_deposit))
     else failB)"

definition read_swap :: "prog_swap reader" where
  "read_swap =
     bindB read_venue (\<lambda>venue.
     bindB read_u8 (\<lambda>from_index.
     bindB read_u8 (\<lambda>to_index.
     bindB read_u32 (\<lambda>weight.
     bindB read_u8 (\<lambda>n.
       returnB \<lparr>ps_venue = venue, ps_from = from_index, ps_to = to_index,
                ps_weight_nanos = weight, ps_n_accounts = n\<rparr>)))))"

definition read_route_args :: "(u64 \<times> u8 \<times> prog_swap list) reader" where
  "read_route_args =
     bindB read_u64 (\<lambda>amount.
     bindB read_u8 (\<lambda>mints.
     bindB (read_vec read_swap) (\<lambda>swaps.
       returnB (amount, mints, swaps))))"

text \<open>The dispatch on the one-byte discriminator of \<open>swap_route_v3\<close>.\<close>

definition read_route_instruction :: "(u64 \<times> u8 \<times> prog_swap list) reader" where
  "read_route_instruction =
     bindB read_u8 (\<lambda>d. if d = 42 then read_route_args else failB)"

section \<open>Venue adapters\<close>

definition RAYDIUM_ADAPTER_PROGRAM_ID :: pubkey where
  "RAYDIUM_ADAPTER_PROGRAM_ID =
     34307378574122751251753648456821433629702160761243254248185250197633836157645"

definition HUMA_ADAPTER_PROGRAM_ID :: pubkey where
  "HUMA_ADAPTER_PROGRAM_ID =
     113642892026253844281636523262536083571066148468328534996576770509190389069745"

definition DEPOSIT_DISCRIMINATOR :: "u8 list" where
  "DEPOSIT_DISCRIMINATOR = [242, 35, 198, 137, 82, 225, 242, 182]"

definition INSTANT_WITHDRAW_DISCRIMINATOR :: "u8 list" where
  "INSTANT_WITHDRAW_DISCRIMINATOR = [171, 49, 145, 176, 48, 101, 112, 162]"

definition ADAPTER_NO_COMMITMENT :: "u8 list" where
  "ADAPTER_NO_COMMITMENT = ascii ''NO_COMMITMENT''"

definition raydium_adapter :: "u64 \<Rightarrow> account_meta list \<Rightarrow> instruction list" where
  "raydium_adapter amount_in account_metas =
     [\<lparr>ix_program_id = RAYDIUM_ADAPTER_PROGRAM_ID, ix_accounts = account_metas,
       ix_data = [16] @ to_le_bytes amount_in @ to_le_bytes (0 :: u64)\<rparr>]"

definition huma_adapter :: "bool \<Rightarrow> u64 \<Rightarrow> account_meta list \<Rightarrow> instruction list" where
  "huma_adapter is_deposit amount_in account_metas =
     (let data =
        (if is_deposit then
           DEPOSIT_DISCRIMINATOR @ to_le_bytes amount_in @
           to_le_bytes (of_nat (length ADAPTER_NO_COMMITMENT) :: u32) @ ADAPTER_NO_COMMITMENT @ [0]
         else INSTANT_WITHDRAW_DISCRIMINATOR @ to_le_bytes amount_in @ to_le_bytes u64_MAX)
      in [\<lparr>ix_program_id = HUMA_ADAPTER_PROGRAM_ID, ix_accounts = account_metas, ix_data = data\<rparr>])"

section \<open>Both ends of the wire agree\<close>

fun on_chain_venue :: "route_venue \<Rightarrow> prog_venue" where
  "on_chain_venue RouteRaydiumAmm = ProgRaydiumAmm"
| "on_chain_venue (RouteHuma d) = ProgHuma d"

definition on_chain_swap :: "swap_spec \<Rightarrow> prog_swap" where
  "on_chain_swap s =
     \<lparr>ps_venue = on_chain_venue (sp_venue s), ps_from = sp_from s, ps_to = sp_to s,
      ps_weight_nanos = sp_weight_nanos s, ps_n_accounts = sp_n_accounts s\<rparr>"

lemma read_venue_bytes [simp]: "read_venue (to_borsh_bytes v @ bs) = Some (on_chain_venue v, bs)"
  by (cases v) (simp_all add: read_venue_def bindB_def)

lemma read_swap_bytes [simp]: "read_swap (swap_spec_bytes s @ bs) = Some (on_chain_swap s, bs)"
  by (simp add: read_swap_def swap_spec_bytes_def on_chain_swap_def bindB_def)

lemma read_swaps_bytes:
  "read_n (length ss) read_swap (concat (map swap_spec_bytes ss) @ bs) = Some (map on_chain_swap ss, bs)"
  by (induction ss) (simp_all add: bindB_def)

lemma stable_route_instruction: "stable read_route_instruction"
  by (simp add: read_route_instruction_def read_route_args_def read_swap_def read_venue_def stable_intros)

text \<open>
  The program reads back what the builder wrote: amount, number of mints and every
  leg, with the venue of the same name, for any number of legs that fits the 32-bit
  length; and nothing of what follows is consumed.
\<close>

theorem route_data_roundtrip:
  assumes "length swaps < 2 ^ 32"
  shows "read_route_instruction (encode_swap_route_v3_data amount mints swaps @ rest) =
    Some ((amount, mints, map on_chain_swap swaps), rest)"
  using assms
  by (simp add: read_route_instruction_def read_route_args_def encode_swap_route_v3_data_def bindB_def
      SWAP_ROUTE_V3_DISCRIMINATOR_def read_vec_def read_swaps_bytes unat_of_length)

theorem route_data_roundtrip_witness:
  "read_route_instruction (encode_swap_route_v3_data 5000 2
      [\<lparr>sp_venue = RouteHuma True, sp_from = 0, sp_to = 1, sp_weight_nanos = ROUTE_WEIGHT_ALL, sp_n_accounts = 3\<rparr>] @ [9]) =
    Some ((5000, 2, [\<lparr>ps_venue = ProgHuma True, ps_from = 0, ps_to = 1, ps_weight_nanos = 1000000000, ps_n_accounts = 3\<rparr>]), [9])"
  by (subst route_data_roundtrip) (simp_all add: on_chain_swap_def ROUTE_WEIGHT_ALL_def)

end
