(* ===== verification/Route_Program.thy ===== *)
theory Route_Program
  imports Route_State
begin

unbundle bit_operations_syntax

text \<open>
  The route instruction of the on-chain program
  (\<open>instructions/swap_route_v3.rs\<close>). Accounts live in one store, indexed by key, so that two
  account infos of the same key see the same account, as their shared cells do. Every
  call into another program is a \<open>cpi_call\<close>; its effect on the store is a parameter of the
  model, and the calls that succeeded are kept in order beside the store.
\<close>

section \<open>The state and the accounts of the instruction\<close>

type_synonym store = "pubkey \<Rightarrow> account"

record account_info =
  ai_key :: pubkey
  ai_is_signer :: bool
  ai_is_writable :: bool

type_synonym seeds = "u8 list list list"

text \<open>
  \<open>invoke\<close> is \<open>invoke_signed\<close> without seeds; the other calls are the token helpers of
  Anchor with the program, the accounts, the amount and the seeds of their context.
\<close>

datatype cpi_call =
  Invoke instruction "account_info list" seeds
| Transfer account_info account_info account_info account_info u64 seeds
| TransferChecked account_info account_info account_info account_info account_info u64 u8 seeds
| CloseAccount account_info account_info account_info account_info seeds

text \<open>
  What the program takes from its libraries: the effect of a call on the store, and the
  instructions the chain libraries build for it.
\<close>

record runtime =
  rt_cpi :: "cpi_call \<Rightarrow> store \<Rightarrow> string + store"
  rt_create_ata :: "pubkey \<Rightarrow> pubkey \<Rightarrow> pubkey \<Rightarrow> pubkey \<Rightarrow> instruction"
  rt_system_transfer :: "pubkey \<Rightarrow> pubkey \<Rightarrow> u64 \<Rightarrow> instruction"
  rt_sync_native :: "pubkey \<Rightarrow> pubkey \<Rightarrow> string + instruction"

record route_state =
  rs_store :: store
  rs_calls :: "cpi_call list"

datatype route_error = Template template_error | Runtime string

type_synonym 'a route_op = "(route_state, route_error, 'a) stateful"

record route_accounts =
  ra_payer :: account_info
  ra_user :: account_info
  ra_titan_pda :: account_info
  ra_titan_pda_data :: titan_pda
  ra_input_token_account :: account_info
  ra_output_token_account :: account_info
  ra_token_program :: account_info
  ra_token_2022_program :: account_info
  ra_system_program :: account_info
  ra_associated_token_program :: account_info
  ra_token_ledger :: "account_info option"
  ra_reserved_optional_account_0 :: "account_info option"
  ra_reserved_optional_account_1 :: "account_info option"
  ra_remaining :: "account_info list"

definition requireS :: "bool \<Rightarrow> template_error \<Rightarrow> unit route_op" where
  "requireS b e = liftS (require b (Template e))"

definition ok_orS :: "'a option \<Rightarrow> template_error \<Rightarrow> 'a route_op" where
  "ok_orS x e = liftS (ok_or x (Template e))"

text \<open>A read of the accounts as they are now.\<close>

definition readS :: "(store \<Rightarrow> (route_error, 'a) res) \<Rightarrow> 'a route_op" where
  "readS f s = (f (rs_store s), s)"

definition cpi :: "runtime \<Rightarrow> cpi_call \<Rightarrow> unit route_op" where
  "cpi R c s =
     (case rt_cpi R c (rs_store s) of
        Inl e \<Rightarrow> (Err (Runtime e), s)
      | Inr st \<Rightarrow> (Ok (), \<lparr>rs_store = st, rs_calls = rs_calls s @ [c]\<rparr>))"

text \<open>A \<open>for\<close> loop whose body may fail and threads a value.\<close>

fun foldS :: "('x \<Rightarrow> 'a \<Rightarrow> ('s, 'e, 'a) stateful) \<Rightarrow> 'x list \<Rightarrow> 'a \<Rightarrow> ('s, 'e, 'a) stateful" where
  "foldS f [] a = liftS (Ok a)"
| "foldS f (x # xs) a = bindS (f x a) (foldS f xs)"

section \<open>Reading accounts\<close>

definition NATIVE_MINT :: pubkey where
  "NATIVE_MINT =
     2988679396378646993494765771507681406623014513651778753134412041978399162369"

definition account_exists :: "store \<Rightarrow> account_info \<Rightarrow> bool" where
  "account_exists st a \<longleftrightarrow> 0 < lamports (st (ai_key a)) \<and> 0 < length (acc_data (st (ai_key a)))"

definition is_native_mint :: "account_info \<Rightarrow> bool" where
  "is_native_mint mint \<longleftrightarrow> ai_key mint = NATIVE_MINT"

definition extract_token_amount :: "store \<Rightarrow> account_info \<Rightarrow> (route_error, u64) res" where
  "extract_token_amount st a =
     bindR (ok_or (get_range (acc_data (st (ai_key a))) 64 72) (Template InvalidAccountData)) (\<lambda>bs.
     Ok (from_le_bytes bs))"

definition extract_token_owner :: "store \<Rightarrow> account_info \<Rightarrow> (route_error, pubkey) res" where
  "extract_token_owner st a =
     bindR (ok_or (get_range (acc_data (st (ai_key a))) 32 64) (Template InvalidAccountData)) (\<lambda>bs.
     Ok (key_of_bytes bs))"

definition extract_mint_decimals :: "store \<Rightarrow> account_info \<Rightarrow> (route_error, u8) res" where
  "extract_mint_decimals st mint =
     ok_or (get (acc_data (st (ai_key mint))) 44) (Template InvalidAccountData)"

definition is_titan_pda_token_account :: "store \<Rightarrow> account_info \<Rightarrow> pubkey \<Rightarrow> bool" where
  "is_titan_pda_token_account st a expected_authority =
     (let acc = st (ai_key a) in
      if acc_owner acc \<noteq> TOKEN_PROGRAM_ID \<and> acc_owner acc \<noteq> TOKEN_2022_PROGRAM_ID then False
      else if length (acc_data acc) < 165 then False
      else
        case extract_token_owner st a of
          Inl _ \<Rightarrow> False
        | Inr owner \<Rightarrow> owner = expected_authority)"

definition get_token_program_for_mint ::
  "store \<Rightarrow> account_info \<Rightarrow> account_info \<Rightarrow> account_info \<Rightarrow> account_info" where
  "get_token_program_for_mint st mint token_program token_2022_program =
     (if acc_owner (st (ai_key mint)) = TOKEN_2022_PROGRAM_ID then token_2022_program
      else token_program)"

definition token_program_of :: "route_accounts \<Rightarrow> account_info \<Rightarrow> account_info route_op" where
  "token_program_of C mint =
     readS (\<lambda>st. Ok (get_token_program_for_mint st mint (ra_token_program C) (ra_token_2022_program C)))"

definition read_token_ledger ::
  "store \<Rightarrow> account_info option \<Rightarrow> account_info \<Rightarrow> (route_error, u64 option) res" where
  "read_token_ledger st token_ledger input_token_account =
     (case token_ledger of
        None \<Rightarrow> Ok None
      | Some ledger \<Rightarrow>
          (let data = acc_data (st (ai_key ledger)) in
           if length data < 48 then Err (Template InvalidAccountData)
           else
             bindR (ok_or (get_range data 8 40) (Template InvalidAccountData)) (\<lambda>key.
             bindR (require (key_of_bytes key = ai_key input_token_account) (Template InvalidAccountData)) (\<lambda>_.
             bindR (ok_or (get_range data 40 48) (Template InvalidAccountData)) (\<lambda>amount.
             Ok (Some (from_le_bytes amount)))))))"

section \<open>The bitmap of the PDA's accounts\<close>

definition bitmap_new :: "u64 list" where
  "bitmap_new = replicate 4 0"

definition bitmap_set :: "u64 list \<Rightarrow> nat \<Rightarrow> (route_error, u64 list) res" where
  "bitmap_set bits i =
     (if i < 256 then
        bindR (unwrap (get bits (i div 64))) (\<lambda>w.
        bindR (shl_p 1 (i mod 64)) (\<lambda>b.
        Ok (bits[i div 64 := w OR b])))
      else Ok bits)"

definition bitmap_is_set :: "u64 list \<Rightarrow> nat \<Rightarrow> (route_error, bool) res" where
  "bitmap_is_set bits i =
     (if i < 256 then
        bindR (unwrap (get bits (i div 64))) (\<lambda>w.
        bindR (shl_p 1 (i mod 64)) (\<lambda>b.
        Ok (w AND b \<noteq> 0)))
      else Ok False)"

section \<open>Calls to the token, system and venue programs\<close>

definition transfer_tokens ::
  "runtime \<Rightarrow> account_info \<Rightarrow> account_info \<Rightarrow> account_info \<Rightarrow> account_info \<Rightarrow> account_info option
    \<Rightarrow> u64 \<Rightarrow> u8 \<Rightarrow> seeds option \<Rightarrow> unit route_op" where
  "transfer_tokens R token_program from to authority mint amount mint_decimals signer_seeds =
     (if amount = 0 then liftS (Ok ())
      else if ai_key token_program = TOKEN_2022_PROGRAM_ID then
        bindS (ok_orS mint MissingRemainingAccount) (\<lambda>mint.
        case signer_seeds of
          Some seeds \<Rightarrow> cpi R (TransferChecked token_program from mint to authority amount mint_decimals seeds)
        | None \<Rightarrow> cpi R (TransferChecked token_program from mint to authority amount mint_decimals []))
      else
        case signer_seeds of
          Some seeds \<Rightarrow> cpi R (Transfer token_program from to authority amount seeds)
        | None \<Rightarrow> cpi R (Transfer token_program from to authority amount []))"

definition create_titan_pda_ata ::
  "runtime \<Rightarrow> account_info \<Rightarrow> account_info \<Rightarrow> account_info \<Rightarrow> account_info \<Rightarrow> account_info
    \<Rightarrow> account_info \<Rightarrow> unit route_op" where
  "create_titan_pda_ata R payer titan_pda mint ata token_program system_program =
     cpi R (Invoke
       (rt_create_ata R (ai_key payer) (ai_key titan_pda) (ai_key mint) (ai_key token_program))
       [payer, ata, titan_pda, mint, system_program, token_program] [])"

definition create_user_ata ::
  "runtime \<Rightarrow> account_info \<Rightarrow> account_info \<Rightarrow> account_info \<Rightarrow> account_info \<Rightarrow> account_info
    \<Rightarrow> account_info \<Rightarrow> unit route_op" where
  "create_user_ata R payer owner mint ata token_program system_program =
     cpi R (Invoke
       (rt_create_ata R (ai_key payer) (ai_key owner) (ai_key mint) (ai_key token_program))
       [payer, ata, owner, mint, system_program, token_program] [])"

definition close_titan_pda_ata ::
  "runtime \<Rightarrow> account_info \<Rightarrow> account_info \<Rightarrow> account_info \<Rightarrow> account_info \<Rightarrow> seeds \<Rightarrow> unit route_op" where
  "close_titan_pda_ata R ata destination titan_pda token_program signer_seeds =
     cpi R (CloseAccount token_program ata destination titan_pda signer_seeds)"

definition close_token_account ::
  "runtime \<Rightarrow> account_info \<Rightarrow> account_info \<Rightarrow> account_info \<Rightarrow> account_info \<Rightarrow> seeds option
    \<Rightarrow> unit route_op" where
  "close_token_account R token_account destination authority token_program signer_seeds =
     (case signer_seeds of
        Some seeds \<Rightarrow> cpi R (CloseAccount token_program token_account destination authority seeds)
      | None \<Rightarrow> cpi R (CloseAccount token_program token_account destination authority []))"

definition transfer_sol_and_sync ::
  "runtime \<Rightarrow> account_info \<Rightarrow> account_info \<Rightarrow> account_info \<Rightarrow> u64 \<Rightarrow> unit route_op" where
  "transfer_sol_and_sync R from wsol_ata token_program amount =
     (if amount = 0 then liftS (Ok ())
      else
        bindS (cpi R (Invoke (rt_system_transfer R (ai_key from) (ai_key wsol_ata) amount)
                 [from, wsol_ata] [])) (\<lambda>_.
        case rt_sync_native R (ai_key token_program) (ai_key wsol_ata) of
          Inl e \<Rightarrow> liftS (Err (Runtime e))
        | Inr sync_ix \<Rightarrow> cpi R (Invoke sync_ix [wsol_ata] [])))"

definition setup_wsol_input_account ::
  "runtime \<Rightarrow> account_info \<Rightarrow> account_info \<Rightarrow> account_info \<Rightarrow> account_info \<Rightarrow> account_info
    \<Rightarrow> account_info \<Rightarrow> u64 \<Rightarrow> bool route_op" where
  "setup_wsol_input_account R payer owner wsol_ata mint token_program system_program amount =
     bindS (readS (\<lambda>st. Ok (account_exists st wsol_ata))) (\<lambda>exists.
     if exists then
       bindS (readS (\<lambda>st. extract_token_amount st wsol_ata)) (\<lambda>current_balance.
       bindS
         (if current_balance < amount then
            bindS (liftS (sub_p amount current_balance)) (\<lambda>deficit.
            transfer_sol_and_sync R owner wsol_ata token_program deficit)
          else liftS (Ok ())) (\<lambda>_.
       liftS (Ok False)))
     else
       bindS (cpi R (Invoke
         (rt_create_ata R (ai_key payer) (ai_key owner) (ai_key mint) (ai_key token_program))
         [payer, wsol_ata, owner, mint, system_program, token_program] [])) (\<lambda>_.
       bindS (transfer_sol_and_sync R owner wsol_ata token_program amount) (\<lambda>_.
       liftS (Ok True))))"

definition perform_cpi_swap ::
  "runtime \<Rightarrow> u64 \<Rightarrow> prog_swap \<Rightarrow> account_meta list \<Rightarrow> account_info list \<Rightarrow> seeds \<Rightarrow> unit route_op" where
  "perform_cpi_swap R amount swap account_metas account_infos signer_seeds =
     (let instructions =
        (case ps_venue swap of
           ProgRaydiumAmm \<Rightarrow> raydium_adapter amount account_metas
         | ProgHuma is_deposit \<Rightarrow> huma_adapter is_deposit amount account_metas)
      in foldS (\<lambda>ix _. cpi R (Invoke ix account_infos signer_seeds)) instructions ())"

section \<open>The route (\<open>SwapRouteV3::execute\<close>)\<close>

text \<open>The checks on the arguments, in the order of the code.\<close>

definition check_route_input :: "route_accounts \<Rightarrow> u8 \<Rightarrow> prog_swap list \<Rightarrow> (route_error, unit) res" where
  "check_route_input C mints swaps =
     bindR (require (1 < mints \<and> swaps \<noteq> []) (Template InvalidSwapInput)) (\<lambda>_.
     bindR (require (length swaps \<le> MAX_SWAPS) (Template InvalidSwapInput)) (\<lambda>_.
     bindR (require (unat mints \<le> MAX_MINTS) (Template InvalidSwapInput)) (\<lambda>_.
     bindR (require (2 * unat mints \<le> length (ra_remaining C)) (Template MissingRemainingAccount)) (\<lambda>_.
     bindR (unwrap (get swaps 0)) (\<lambda>first.
     bindR (require (ps_from first = 0) (Template InvalidSwapInput)) (\<lambda>_.
     require (\<forall>swap\<in>set swaps. ps_from swap < mints \<and> ps_to swap < mints) (Template InvalidSwapInput)))))))"

text \<open>One round of the creation loop; the accounts created so far are bits of a \<open>u16\<close>.\<close>

definition create_missing_ata :: "runtime \<Rightarrow> route_accounts \<Rightarrow> nat \<Rightarrow> nat \<Rightarrow> u16 \<Rightarrow> u16 route_op" where
  "create_missing_ata R C mints_count i created_atas =
     bindS (ok_orS (get (ra_remaining C) i) MissingRemainingAccount) (\<lambda>ata.
     bindS (readS (\<lambda>st. Ok (account_exists st ata))) (\<lambda>exists.
     if exists then liftS (Ok created_atas)
     else
       bindS (ok_orS (get (ra_remaining C) (mints_count + i)) MissingRemainingAccount) (\<lambda>mint_account.
       bindS (token_program_of C mint_account) (\<lambda>token_program.
       bindS (create_titan_pda_ata R (ra_payer C) (ra_titan_pda C) mint_account ata token_program
                (ra_system_program C)) (\<lambda>_.
       bindS (liftS (shl_p 1 i)) (\<lambda>bit.
       liftS (Ok (created_atas OR bit))))))))"

definition create_missing_atas :: "runtime \<Rightarrow> route_accounts \<Rightarrow> nat \<Rightarrow> u16 route_op" where
  "create_missing_atas R C mints_count =
     foldS (create_missing_ata R C mints_count) [0..<mints_count] 0"

text \<open>
  The scan that records the balance of every token account of the PDA: the bitmap of
  their indices, the balances in the order of the accounts, and the balances of the first
  accounts in an array of \<open>MAX_MINTS\<close> entries, where an index past the end panics.
\<close>

definition array_set :: "'a list \<Rightarrow> nat \<Rightarrow> 'a \<Rightarrow> ('e, 'a list) res" where
  "array_set xs i x = (if i < length xs then Ok (xs[i := x]) else Panic)"

type_synonym scan_result = "u64 list \<times> u64 list \<times> u64 list"

fun scan_accounts ::
  "store \<Rightarrow> pubkey \<Rightarrow> nat \<Rightarrow> nat \<Rightarrow> account_info list \<Rightarrow> scan_result \<Rightarrow> (route_error, scan_result) res" where
  "scan_accounts st titan mints_count i [] acc = Ok acc"
| "scan_accounts st titan mints_count i (account # accounts) (bitmap, balances, reserved) =
     (if i < mints_count then
        bindR (require (is_titan_pda_token_account st account titan) (Template InvalidAccountData)) (\<lambda>_.
        bindR (extract_token_amount st account) (\<lambda>balance.
        bindR (array_set reserved i balance) (\<lambda>reserved.
        bindR (bitmap_set bitmap i) (\<lambda>bitmap.
        scan_accounts st titan mints_count (Suc i) accounts (bitmap, balances @ [balance], reserved)))))
      else if is_titan_pda_token_account st account titan then
        bindR (bitmap_set bitmap i) (\<lambda>bitmap.
        bindR (extract_token_amount st account) (\<lambda>balance.
        scan_accounts st titan mints_count (Suc i) accounts (bitmap, balances @ [balance], reserved)))
      else scan_accounts st titan mints_count (Suc i) accounts (bitmap, balances, reserved))"

definition effective_amount ::
  "store \<Rightarrow> route_accounts \<Rightarrow> u64 \<Rightarrow> u64 option \<Rightarrow> (route_error, u64) res" where
  "effective_amount st C amount ledger_amount =
     (case ledger_amount of
        Some stored \<Rightarrow>
          bindR (extract_token_amount st (ra_input_token_account C)) (\<lambda>current.
          bindR (ok_or (checked_sub current stored) (Template InvalidAccountData)) (\<lambda>delta.
          bindR (require (0 < delta) (Template InvalidAccountData)) (\<lambda>_.
          Ok delta)))
      | None \<Rightarrow> Ok amount)"

text \<open>Taking the input: the WSOL account when needed, the transfer, and its closing.\<close>

definition take_input ::
  "runtime \<Rightarrow> route_accounts \<Rightarrow> u64 option \<Rightarrow> account_info \<Rightarrow> u8 \<Rightarrow> u64 \<Rightarrow> unit route_op" where
  "take_input R C ledger_amount input_mint input_mint_decimals amount =
     bindS (ok_orS (get (ra_remaining C) 0) MissingRemainingAccount) (\<lambda>first_titan_pda_ata.
     bindS (token_program_of C input_mint) (\<lambda>input_token_program.
     bindS
       (if ledger_amount = None \<and> is_native_mint input_mint then
          setup_wsol_input_account R (ra_payer C) (ra_user C) (ra_input_token_account C) input_mint
            input_token_program (ra_system_program C) amount
        else liftS (Ok False)) (\<lambda>created_wsol_input.
     bindS (transfer_tokens R input_token_program (ra_input_token_account C) first_titan_pda_ata
              (ra_user C) (Some input_mint) amount input_mint_decimals None) (\<lambda>_.
     if created_wsol_input then
       close_token_account R (ra_input_token_account C) (ra_payer C) (ra_user C) input_token_program None
     else liftS (Ok ())))))"

text \<open>The input of a leg: its share of what the PDA holds beyond the reserved balance.\<close>

definition leg_input :: "u64 \<Rightarrow> u64 \<Rightarrow> u32 \<Rightarrow> u64" where
  "leg_input input_token_balance reserved weight_nanos =
     (let available_balance = saturating_sub input_token_balance reserved;
          weight = (ucast (min weight_nanos 1000000000) :: u128)
      in ucast (saturating_mul (ucast available_balance :: u128) weight div 1000000000))"

text \<open>
  The metas of a leg: the infos but the last, which is the venue's program; the PDA signs
  whatever its info says. A leg of no accounts panics, as does one of more than there are.
\<close>

definition leg_account_metas ::
  "pubkey \<Rightarrow> account_info list \<Rightarrow> nat \<Rightarrow> (route_error, account_meta list) res" where
  "leg_account_metas titan leg_accounts account_increment =
     bindR (usub_p account_increment 1) (\<lambda>venue_accounts.
     bindR (slice_p leg_accounts 0 venue_accounts) (\<lambda>accounts.
     Ok (map (\<lambda>a. \<lparr>am_pubkey = ai_key a, is_signer = ai_key a = titan \<or> ai_is_signer a,
                    is_writable = ai_is_writable a\<rparr>) accounts)))"

text \<open>One leg; the value threaded is the index of its first account.\<close>

definition run_leg ::
  "runtime \<Rightarrow> route_accounts \<Rightarrow> u64 list \<Rightarrow> seeds \<Rightarrow> prog_swap \<Rightarrow> nat \<Rightarrow> nat route_op" where
  "run_leg R C reserved_balances signer_seeds swap remaining_account_index =
     (let account_increment = unat (ps_n_accounts swap) in
      bindS (requireS (0 < account_increment) InvalidSwapInput) (\<lambda>_.
      bindS (requireS (remaining_account_index + account_increment \<le> length (ra_remaining C))
               MissingRemainingAccount) (\<lambda>_.
      bindS (ok_orS (get (ra_remaining C) (unat (ps_from swap))) MissingRemainingAccount) (\<lambda>input_account.
      bindS (readS (\<lambda>st. extract_token_amount st input_account)) (\<lambda>input_token_balance.
      bindS (liftS (unwrap (get reserved_balances (unat (ps_from swap))))) (\<lambda>reserved.
      let input_amount = leg_input input_token_balance reserved (ps_weight_nanos swap) in
      bindS
        (if 0 < input_amount then
           bindS (liftS (slice_p (ra_remaining C) remaining_account_index
                    (remaining_account_index + account_increment))) (\<lambda>leg_accounts.
           bindS (liftS (leg_account_metas (ai_key (ra_titan_pda C)) leg_accounts account_increment))
             (\<lambda>account_metas.
           perform_cpi_swap R input_amount swap account_metas leg_accounts signer_seeds))
         else liftS (Ok ())) (\<lambda>_.
      liftS (Ok (remaining_account_index + account_increment)))))))))"

text \<open>Paying the user what the output account gained.\<close>

definition pay_output ::
  "runtime \<Rightarrow> route_accounts \<Rightarrow> u64 list \<Rightarrow> seeds \<Rightarrow> nat \<Rightarrow> account_info \<Rightarrow> u8 \<Rightarrow> unit route_op" where
  "pay_output R C reserved_balances signer_seeds output_ata_index output_mint output_mint_decimals =
     bindS (ok_orS (get (ra_remaining C) output_ata_index) MissingRemainingAccount) (\<lambda>titan_output.
     bindS (readS (\<lambda>st. extract_token_amount st titan_output)) (\<lambda>raw_output_balance.
     bindS (liftS (unwrap (get reserved_balances output_ata_index))) (\<lambda>reserved.
     let user_output = saturating_sub raw_output_balance reserved in
     bindS (token_program_of C output_mint) (\<lambda>output_token_program.
     bindS (readS (\<lambda>st. Ok (account_exists st (ra_output_token_account C)))) (\<lambda>exists.
     bindS
       (if \<not> exists then
          create_user_ata R (ra_payer C) (ra_user C) output_mint (ra_output_token_account C)
            output_token_program (ra_system_program C)
        else liftS (Ok ())) (\<lambda>_.
     transfer_tokens R output_token_program titan_output (ra_output_token_account C)
       (ra_titan_pda C) (Some output_mint) user_output output_mint_decimals (Some signer_seeds)))))))"

text \<open>\<open>extract_token_amount(...).unwrap_or(0)\<close>\<close>

definition token_amount_or_0 :: "store \<Rightarrow> account_info \<Rightarrow> u64" where
  "token_amount_or_0 st a = (case extract_token_amount st a of Inr b \<Rightarrow> b | Inl _ \<Rightarrow> 0)"

text \<open>One round of the loop that closes the empty accounts this route created.\<close>

definition close_created_ata ::
  "runtime \<Rightarrow> route_accounts \<Rightarrow> nat \<Rightarrow> u16 \<Rightarrow> seeds \<Rightarrow> nat \<Rightarrow> unit route_op" where
  "close_created_ata R C mints_count created_atas signer_seeds ata_index =
     bindS (liftS (shl_p 1 ata_index)) (\<lambda>bit.
      if created_atas AND bit = 0 then liftS (Ok ())
      else
        bindS (ok_orS (get (ra_remaining C) ata_index) MissingRemainingAccount) (\<lambda>ata.
        bindS (readS (\<lambda>st. Ok (token_amount_or_0 st ata))) (\<lambda>amount.
        if 0 < amount then liftS (Ok ())
        else
          bindS (ok_orS (get (ra_remaining C) (mints_count + ata_index)) MissingRemainingAccount) (\<lambda>mint.
          bindS (token_program_of C mint) (\<lambda>token_program.
          close_titan_pda_ata R ata (ra_payer C) (ra_titan_pda C) token_program signer_seeds)))))"

definition close_created_atas ::
  "runtime \<Rightarrow> route_accounts \<Rightarrow> nat \<Rightarrow> u16 \<Rightarrow> seeds \<Rightarrow> unit route_op" where
  "close_created_atas R C mints_count created_atas signer_seeds =
     foldS (\<lambda>i _. close_created_ata R C mints_count created_atas signer_seeds i) [0..<mints_count] ()"

text \<open>The final check of the balances recorded by the scan.\<close>

fun check_balances ::
  "store \<Rightarrow> u64 list \<Rightarrow> u64 list \<Rightarrow> nat \<Rightarrow> nat \<Rightarrow> account_info list \<Rightarrow> (route_error, unit) res" where
  "check_balances st bitmap balances i balance_idx [] = Ok ()"
| "check_balances st bitmap balances i balance_idx (account # accounts) =
     bindR (bitmap_is_set bitmap i) (\<lambda>marked.
      if marked then
        bindR (unwrap (get balances balance_idx)) (\<lambda>recorded.
        bindR (require (recorded \<le> token_amount_or_0 st account) (Template ReservedBalanceViolation)) (\<lambda>_.
        check_balances st bitmap balances (Suc i) (Suc balance_idx) accounts))
      else check_balances st bitmap balances (Suc i) balance_idx accounts)"

definition titan_seeds :: "route_accounts \<Rightarrow> seeds" where
  "titan_seeds C = [[TITAN_PDA_SEED, [tp_bump (ra_titan_pda_data C)]]]"

definition execute :: "runtime \<Rightarrow> route_accounts \<Rightarrow> u64 \<Rightarrow> u8 \<Rightarrow> prog_swap list \<Rightarrow> unit route_op" where
  "execute R C amount mints swaps =
     bindS (liftS (check_route_input C mints swaps)) (\<lambda>_.
     let mints_count = unat mints; signer_seeds = titan_seeds C; titan = ai_key (ra_titan_pda C) in
     bindS (readS (\<lambda>st. read_token_ledger st (ra_token_ledger C) (ra_input_token_account C))) (\<lambda>ledger_amount.
     bindS (ok_orS (get (ra_remaining C) mints_count) MissingRemainingAccount) (\<lambda>input_mint.
     bindS (liftS (usub_p (length swaps) 1)) (\<lambda>last_leg.
     bindS (liftS (unwrap (get swaps last_leg))) (\<lambda>output_leg.
     let output_ata_index = unat (ps_to output_leg) in
     bindS (ok_orS (get (ra_remaining C) (mints_count + output_ata_index)) MissingRemainingAccount) (\<lambda>output_mint.
     bindS (readS (\<lambda>st. extract_mint_decimals st input_mint)) (\<lambda>input_mint_decimals.
     bindS (readS (\<lambda>st. extract_mint_decimals st output_mint)) (\<lambda>output_mint_decimals.
     bindS (create_missing_atas R C mints_count) (\<lambda>created_atas.
     bindS (readS (\<lambda>st. scan_accounts st titan mints_count 0 (ra_remaining C)
              (bitmap_new, [], replicate MAX_MINTS 0))) (\<lambda>(bitmap, balances, reserved_balances).
     bindS (readS (\<lambda>st. effective_amount st C amount ledger_amount)) (\<lambda>input_amount.
     bindS (take_input R C ledger_amount input_mint input_mint_decimals input_amount) (\<lambda>_.
     bindS (foldS (run_leg R C reserved_balances signer_seeds) swaps (2 * mints_count)) (\<lambda>_.
     bindS (pay_output R C reserved_balances signer_seeds output_ata_index output_mint output_mint_decimals) (\<lambda>_.
     bindS (close_created_atas R C mints_count created_atas signer_seeds) (\<lambda>_.
     readS (\<lambda>st. check_balances st bitmap balances 0 0 (ra_remaining C)))))))))))))))))"

end
