(* ===== verification/Route_Safety.thy ===== *)
theory Route_Safety
  imports Route_Program
begin

text \<open>
  Properties of the on-chain route: the bitmap is a set of indices, the input of a leg is
  its share of the unreserved balance, and the balances the PDA held are still there when
  the route succeeds.
\<close>

section \<open>The bitmap as a set of indices\<close>

text \<open>
  What the route needs of the bitmap: insertion and membership of the indices below a
  bound, on values reachable from the empty one.
\<close>

locale index_set =
  fixes good :: "'b \<Rightarrow> bool" and empty :: 'b and insert_index :: "'b \<Rightarrow> nat \<Rightarrow> 'b"
    and member_index :: "'b \<Rightarrow> nat \<Rightarrow> bool" and bound :: nat
  assumes good_empty: "good empty"
    and good_insert: "good b \<Longrightarrow> good (insert_index b i)"
    and member_empty: "\<not> member_index empty i"
    and member_insert: "good b \<Longrightarrow> member_index (insert_index b i) j \<longleftrightarrow> member_index b j \<or> (j = i \<and> i < bound)"
begin

lemma good_fold: "good b \<Longrightarrow> good (fold (\<lambda>i b. insert_index b i) is b)"
  by (induction "is" arbitrary: b) (simp_all add: good_insert)

lemma member_fold:
  "good b \<Longrightarrow> member_index (fold (\<lambda>i b. insert_index b i) is b) j \<longleftrightarrow>
    member_index b j \<or> (j \<in> set is \<and> j < bound)"
  by (induction "is" arbitrary: b) (auto simp: good_insert member_insert)

lemma member_collected:
  "member_index (fold (\<lambda>i b. insert_index b i) is empty) j \<longleftrightarrow> j \<in> set is \<and> j < bound"
  by (simp add: member_fold good_empty member_empty)

end

lemma and_mask_bit: "i < 64 \<Longrightarrow> (w :: u64) AND push_bit i 1 \<noteq> 0 \<longleftrightarrow> bit w i"
  by (simp add: push_bit_eq_mult and_exp_eq_0_iff_not_bit)

text \<open>
  What the two methods compute on the four words of the program's bitmap, where no index
  into the words panics.
\<close>

definition bitmap_add :: "u64 list \<Rightarrow> nat \<Rightarrow> u64 list" where
  "bitmap_add bits i =
     (if i < 256 then bits[i div 64 := bits ! (i div 64) OR push_bit (i mod 64) 1] else bits)"

definition bitmap_has :: "u64 list \<Rightarrow> nat \<Rightarrow> bool" where
  "bitmap_has bits i \<longleftrightarrow> i < 256 \<and> bits ! (i div 64) AND push_bit (i mod 64) 1 \<noteq> 0"

lemma length_bitmap_add [simp]: "length (bitmap_add bits i) = length bits"
  by (simp add: bitmap_add_def)

lemma length_fold_bitmap_add [simp]: "length (fold (\<lambda>i b. bitmap_add b i) is bits) = length bits"
  by (induction "is" arbitrary: bits) simp_all

lemma bitmap_word: "length bits = 4 \<Longrightarrow> i < 256 \<Longrightarrow> get bits (i div 64) = Some (bits ! (i div 64))"
  by (simp add: get_def less_mult_imp_div_less)

lemma bitmap_set_eq: "length bits = 4 \<Longrightarrow> bitmap_set bits i = Ok (bitmap_add bits i)"
  by (simp add: bitmap_set_def bitmap_add_def bitmap_word)

lemma bitmap_is_set_eq: "length bits = 4 \<Longrightarrow> bitmap_is_set bits i = Ok (bitmap_has bits i)"
  by (simp add: bitmap_is_set_def bitmap_has_def bitmap_word)

lemma length_bitmap_new [simp]: "length bitmap_new = 4"
  by (simp add: bitmap_new_def)

lemma bitmap_has_bit: "bitmap_has bits i \<longleftrightarrow> i < 256 \<and> bit (bits ! (i div 64)) (i mod 64)"
  using and_mask_bit [of "i mod 64"] by (auto simp: bitmap_has_def simp del: push_bit_of_1)

lemma bitmap_add_member:
  assumes "length bits = 4"
  shows "bitmap_has (bitmap_add bits i) j \<longleftrightarrow> bitmap_has bits j \<or> (j = i \<and> i < 256)"
proof (cases "i < 256 \<and> j < 256")
  case True
  have same: "i div 64 = j div 64 \<and> i mod 64 = j mod 64 \<longleftrightarrow> i = j"
    by (metis div_mult_mod_eq)
  have "bit (push_bit (i mod 64) 1 :: u64) (j mod 64) \<longleftrightarrow> i mod 64 = j mod 64"
    by (auto simp: bit_exp_iff)
  then show ?thesis
    using True assms same
    by (cases "i div 64 = j div 64") (auto simp: bitmap_has_bit bitmap_add_def bit_or_iff)
next
  case False
  then show ?thesis by (auto simp: bitmap_has_bit bitmap_add_def)
qed

interpretation titan_bitmap: index_set "\<lambda>b. length b = 4" bitmap_new bitmap_add bitmap_has 256
  by unfold_locales
    (simp_all add: bitmap_add_member, simp add: bitmap_new_def bitmap_has_def)

section \<open>The input of a leg\<close>

lemma unat_widen32: "unat (ucast a :: u128) = unat a" for a :: u32
  by (simp add: unsigned_ucast_eq take_bit_nat_eq_self unat_lt_len [THEN order_less_le_trans])

lemma unat_numeral_billion: "unat (1000000000 :: u128) = 1000000000"
  by simp

lemma unat_leg_input:
  "unat (leg_input balance reserved weight) =
     (unat balance - unat reserved) * min (unat weight) 1000000000 div 1000000000"
proof -
  let ?a = "unat balance - unat reserved" and ?w = "min (unat weight) 1000000000"
  have w: "unat (ucast (min weight 1000000000) :: u128) = ?w"
    by (simp only: unat_widen32 unat_min) simp
  have a: "unat (ucast (saturating_sub balance reserved) :: u128) = ?a"
    by (simp add: unat_ops)
  have lt: "?a < 2 ^ 64" using unat_lt_64 [of balance] by (simp add: less_imp_diff_less)
  have "?a * ?w \<le> 2 ^ 64 * 1000000000" using lt by (intro mult_mono) auto
  then have fits: "?a * ?w \<le> 2 ^ 128 - 1" by simp
  have product: "unat (saturating_mul (ucast (saturating_sub balance reserved)) (ucast (min weight 1000000000)) :: u128) =
      ?a * ?w"
    by (simp only: unat_saturating_mul a w) (use fits in simp)
  have "?a * ?w \<le> ?a * 1000000000" by (intro mult_le_mono) simp_all
  from div_le_mono [OF this, of 1000000000] have le: "?a * ?w div 1000000000 \<le> ?a" by simp
  have "unat (leg_input balance reserved weight) = ?a * ?w div 1000000000 mod 2 ^ 64"
    by (simp only: leg_input_def Let_def unat_narrow unat_div product unat_numeral_billion)
  also have "\<dots> = ?a * ?w div 1000000000" by (rule mod_less) (use le lt in linarith)
  finally show ?thesis .
qed

text \<open>
  C20: the input of a leg is the floor of its billionths of what the account holds beyond
  the reserved balance, a weight above one billion counting as all of it: the saturating
  128-bit product and the cast back to 64 bits lose nothing, and the reserved balance is
  never part of an input.
\<close>

theorem leg_input_share:
  "unat (leg_input balance reserved weight) =
     (unat balance - unat reserved) * min (unat weight) 1000000000 div 1000000000 \<and>
   unat (leg_input balance reserved weight) + min (unat balance) (unat reserved) \<le> unat balance"
proof -
  have "(unat balance - unat reserved) * min (unat weight) 1000000000 \<le> (unat balance - unat reserved) * 1000000000"
    by (intro mult_le_mono) simp_all
  from div_le_mono [OF this, of 1000000000] show ?thesis
    unfolding unat_leg_input by simp
qed

section \<open>What the scan records and the final check compares\<close>

text \<open>The accounts the scan records, with their indices.\<close>

definition watched :: "store \<Rightarrow> pubkey \<Rightarrow> nat \<Rightarrow> nat \<times> account_info \<Rightarrow> bool" where
  "watched st titan m p \<longleftrightarrow> fst p < m \<or> is_titan_pda_token_account st (snd p) titan"

abbreviation watched_from :: "store \<Rightarrow> pubkey \<Rightarrow> nat \<Rightarrow> nat \<Rightarrow> account_info list \<Rightarrow> (nat \<times> account_info) list" where
  "watched_from st titan m i accs \<equiv> filter (watched st titan m) (List.enumerate i accs)"

lemma token_amount_Ok: "extract_token_amount st a = Ok b \<Longrightarrow> token_amount_or_0 st a = b"
  by (simp add: token_amount_or_0_def)

lemma scan_watched:
  assumes "scan_accounts st titan m i (a # accs) (bitmap, balances, reserved) = Ok r" "watched st titan m (i, a)"
    and len: "length bitmap = 4"
  obtains b rsv where "extract_token_amount st a = Ok b" "length rsv = length reserved"
    "scan_accounts st titan m (Suc i) accs (bitmap_add bitmap i, balances @ [b], rsv) = Ok r"
proof (cases "i < m")
  case True
  with assms(1) obtain b where "extract_token_amount st a = Ok b"
    "scan_accounts st titan m (Suc i) accs (bitmap_add bitmap i, balances @ [b], reserved[i := b]) = Ok r"
    by (auto simp: res_inv array_set_def bitmap_set_eq [OF len] split: if_splits)
  then show thesis by (intro that [of b "reserved[i := b]"]) simp_all
next
  case False
  with assms obtain b where "extract_token_amount st a = Ok b"
    "scan_accounts st titan m (Suc i) accs (bitmap_add bitmap i, balances @ [b], reserved) = Ok r"
    by (auto simp: res_inv watched_def bitmap_set_eq)
  then show thesis by (intro that [of b reserved]) simp_all
qed

lemma scan_accounts_Ok:
  "scan_accounts st titan m i accs (bitmap, balances, reserved) = Ok (bitmap', balances', reserved') \<Longrightarrow>
    length bitmap = 4 \<Longrightarrow>
    bitmap' = fold (\<lambda>i b. bitmap_add b i) (map fst (watched_from st titan m i accs)) bitmap \<and>
    length bitmap' = 4 \<and>
    balances' = balances @ map (token_amount_or_0 st \<circ> snd) (watched_from st titan m i accs) \<and>
    length reserved' = length reserved"
proof (induction accs arbitrary: i bitmap balances reserved)
  case (Cons a accs)
  show ?case
  proof (cases "watched st titan m (i, a)")
    case True
    obtain b rsv where b: "extract_token_amount st a = Ok b" "length rsv = length reserved"
      "scan_accounts st titan m (Suc i) accs (bitmap_add bitmap i, balances @ [b], rsv) = Ok (bitmap', balances', reserved')"
      by (rule scan_watched [OF Cons.prems(1) True Cons.prems(2)])
    from Cons.IH [OF b(3)] Cons.prems(2) b(2) True token_amount_Ok [OF b(1)] show ?thesis by simp
  next
    case False
    with Cons.prems have "scan_accounts st titan m (Suc i) accs (bitmap, balances, reserved) = Ok (bitmap', balances', reserved')"
      by (auto simp: watched_def)
    from Cons.IH [OF this] Cons.prems(2) False show ?thesis by simp
  qed
qed simp

lemma scan_accounts_minted:
  "scan_accounts st titan m i accs (bitmap, balances, reserved) = Ok (bitmap', balances', reserved') \<Longrightarrow>
    (\<forall>j<length accs. i + j < m \<longrightarrow>
       is_titan_pda_token_account st (accs ! j) titan \<and> extract_token_amount st (accs ! j) = Ok (reserved' ! (i + j))) \<and>
    (\<forall>j<i. reserved' ! j = reserved ! j)"
proof (induction accs arbitrary: i bitmap balances reserved)
  case (Cons a accs)
  show ?case
  proof (cases "i < m")
    case True
    with Cons.prems obtain b where b: "extract_token_amount st a = Ok b" "is_titan_pda_token_account st a titan"
      "i < length reserved"
      "\<exists>bm. scan_accounts st titan m (Suc i) accs (bm, balances @ [b], reserved[i := b]) = Ok (bitmap', balances', reserved')"
      by (auto simp: res_inv array_set_def split: if_splits)
    from b(4) Cons.IH have ih: "\<forall>j<length accs. Suc i + j < m \<longrightarrow>
        is_titan_pda_token_account st (accs ! j) titan \<and> extract_token_amount st (accs ! j) = Ok (reserved' ! (Suc i + j))"
      "\<forall>j<Suc i. reserved' ! j = reserved[i := b] ! j" by blast+
    show ?thesis
    proof (intro conjI allI impI)
      fix j assume "j < length (a # accs)" "i + j < m"
      then show "is_titan_pda_token_account st ((a # accs) ! j) titan"
        "extract_token_amount st ((a # accs) ! j) = Ok (reserved' ! (i + j))"
        using ih b by (cases j; auto)+
    qed (use ih(2) in auto)
  next
    case False
    have "\<forall>j<i. reserved' ! j = reserved ! j"
    proof (cases "is_titan_pda_token_account st a titan")
      case True
      with False Cons.prems obtain b bm where
        "scan_accounts st titan m (Suc i) accs (bm, balances @ [b], reserved) = Ok (bitmap', balances', reserved')"
        by (auto simp: res_inv)
      from Cons.IH [OF this] show ?thesis by auto
    next
      case no: False
      with False Cons.prems have
        "scan_accounts st titan m (Suc i) accs (bitmap, balances, reserved) = Ok (bitmap', balances', reserved')" by simp
      from Cons.IH [OF this] show ?thesis by auto
    qed
    then show ?thesis using False by auto
  qed
qed simp

lemma check_balances_Cons:
  "length bitmap = 4 \<Longrightarrow> check_balances st bitmap balances i k (a # accs) =
    (if bitmap_has bitmap i then
       bindR (unwrap (get balances k)) (\<lambda>recorded.
       bindR (require (recorded \<le> token_amount_or_0 st a) (Template ReservedBalanceViolation)) (\<lambda>_.
       check_balances st bitmap balances (Suc i) (Suc k) accs))
     else check_balances st bitmap balances (Suc i) k accs)"
  by (simp add: bitmap_is_set_eq)

lemma check_balances_Ok:
  assumes len: "length bitmap = 4"
  shows "check_balances st bitmap balances i k accs = Ok () \<longleftrightarrow>
    (let marked = filter (bitmap_has bitmap \<circ> fst) (List.enumerate i accs)
     in list_all2 (\<lambda>b p. b \<le> token_amount_or_0 st (snd p)) (take (length marked) (drop k balances)) marked)"
proof (induction accs arbitrary: i k)
  case (Cons a accs)
  show ?case
  proof (cases "bitmap_has bitmap i")
    case True
    show ?thesis
    proof (cases "k < length balances")
      case k: True
      then have "drop k balances = balances ! k # drop (Suc k) balances" by (rule Cons_nth_drop_Suc [symmetric])
      then show ?thesis using True k Cons.IH [of "Suc i" "Suc k"]
        by (auto simp: check_balances_Cons [OF len] Let_def res_inv get_eq_Some simp del: check_balances.simps)
    next
      case False
      then show ?thesis using True
        by (auto simp: check_balances_Cons [OF len] Let_def res_inv get_eq_Some simp del: check_balances.simps)
    qed
  next
    case False
    then show ?thesis using Cons.IH [of "Suc i" k]
      by (simp add: check_balances_Cons [OF len] del: check_balances.simps)
  qed
qed simp

section \<open>Inversion and invariants of the operations\<close>

lemma readS_eq_Inr [res_inv]: "readS f s = (Inr a, s') \<longleftrightarrow> f (rs_store s) = Inr a \<and> s' = s"
  by (auto simp: readS_def)

lemma ok_orS_eq_Inr [res_inv]: "ok_orS x e s = (Inr a, s') \<longleftrightarrow> x = Some a \<and> s' = s"
  by (auto simp: ok_orS_def res_inv)

lemma requireS_eq_Inr [res_inv]: "requireS b e s = (Inr u, s') \<longleftrightarrow> b \<and> s' = s"
  by (auto simp: requireS_def res_inv)

lemma keeps_readS [keeps_intros]: "keeps P (readS f)"
  by (simp add: keeps_def readS_def)

lemma keeps_ok_orS [keeps_intros]: "keeps P (ok_orS x e)"
  by (simp add: ok_orS_def keeps_liftS)

lemma keeps_requireS [keeps_intros]: "keeps P (requireS b e)"
  by (simp add: requireS_def keeps_liftS)

lemma keeps_cpi [keeps_intros]:
  "(\<And>s st. P s \<Longrightarrow> P \<lparr>rs_store = st, rs_calls = rs_calls s @ [c]\<rparr>) \<Longrightarrow> keeps P (cpi R c)"
  by (auto simp: keeps_def cpi_def split: sum.splits)

lemma keeps_foldS [keeps_intros]:
  "(\<And>x a. x \<in> set xs \<Longrightarrow> keeps P (f x a)) \<Longrightarrow> keeps P (foldS f xs a)"
  by (induction xs arbitrary: a) (auto intro!: keeps_intros)

lemma keeps_stepD: "keeps P m \<Longrightarrow> m s = (r, s') \<Longrightarrow> P s \<Longrightarrow> P s'"
  by (metis keeps_def snd_conv)

lemma check_route_input_Ok:
  "check_route_input C mints swaps = Ok () \<longleftrightarrow>
    1 < mints \<and> swaps \<noteq> [] \<and> length swaps \<le> MAX_SWAPS \<and> unat mints \<le> MAX_MINTS \<and>
    2 * unat mints \<le> length (ra_remaining C) \<and> ps_from (hd swaps) = 0 \<and>
    (\<forall>swap\<in>set swaps. ps_from swap < mints \<and> ps_to swap < mints)"
  by (cases swaps) (auto simp: check_route_input_def res_inv get_eq_Some)

lemma usub_p_last [simp]: "xs \<noteq> [] \<Longrightarrow> usub_p (length xs) (Suc 0) = Ok (length xs - Suc 0)"
  by (cases xs) simp_all

lemma output_leg: "get swaps (length swaps - Suc 0) = Some leg \<Longrightarrow> leg = last swaps"
  by (cases "swaps = []") (simp_all add: get_eq_Some last_conv_nth)

lemma length_slice_fits: "i + n \<le> length xs \<Longrightarrow> length (slice i n xs) = n"
  by (simp add: slice_def)

lemma leg_metas_Ok: "0 < n \<Longrightarrow> length infos = n \<Longrightarrow> \<exists>metas. leg_account_metas titan infos n = Ok metas"
  by (simp add: leg_account_metas_def)

lemma execute_Ok:
  assumes "execute R C amount mints swaps s = (Ok (), s')"
  obtains ledger input_mint output_mint input_decs output_decs created s1 bitmap balances reserved input s2 n s3 s4
  where "check_route_input C mints swaps = Ok ()"
    "read_token_ledger (rs_store s) (ra_token_ledger C) (ra_input_token_account C) = Ok ledger"
    "get (ra_remaining C) (unat mints) = Some input_mint"
    "get (ra_remaining C) (unat mints + unat (ps_to (last swaps))) = Some output_mint"
    "extract_mint_decimals (rs_store s) input_mint = Ok input_decs"
    "extract_mint_decimals (rs_store s) output_mint = Ok output_decs"
    "create_missing_atas R C (unat mints) s = (Ok created, s1)"
    "scan_accounts (rs_store s1) (ai_key (ra_titan_pda C)) (unat mints) 0 (ra_remaining C)
       (bitmap_new, [], replicate MAX_MINTS 0) = Ok (bitmap, balances, reserved)"
    "effective_amount (rs_store s1) C amount ledger = Ok input"
    "take_input R C ledger input_mint input_decs input s1 = (Ok (), s2)"
    "foldS (run_leg R C reserved (titan_seeds C)) swaps (2 * unat mints) s2 = (Ok n, s3)"
    "pay_output R C reserved (titan_seeds C) (unat (ps_to (last swaps))) output_mint output_decs s3 = (Ok (), s4)"
    "close_created_atas R C (unat mints) created (titan_seeds C) s4 = (Ok (), s')"
    "check_balances (rs_store s') bitmap balances 0 0 (ra_remaining C) = Ok ()"
  using assms
  by (auto simp: execute_def Let_def bindS_eq_Inr readS_eq_Inr ok_orS_eq_Inr liftS_eq_Inr usub_p_eq_Inr
      unwrap_eq_Inr dest!: output_leg)

lemma create_none_missing:
  assumes "\<forall>i<m. account_exists (rs_store s) (ra_remaining C ! i)" "m \<le> length (ra_remaining C)"
  shows "create_missing_atas R C m s = (Ok 0, s)"
proof -
  have "foldS (create_missing_ata R C m) is 0 s = (Ok 0, s)" if "\<forall>i\<in>set is. i < m" for "is"
    using that
  proof (induction "is")
    case (Cons i "is")
    then have "create_missing_ata R C m i 0 s = (Ok 0, s)"
      using assms by (simp add: create_missing_ata_def bindS_def ok_orS_def readS_def liftS_def get_def)
    then show ?case using Cons by simp
  qed (simp add: liftS_def)
  then show ?thesis by (simp add: create_missing_atas_def)
qed

lemma execute_steps:
  assumes "check_route_input C mints swaps = Ok ()"
    "read_token_ledger (rs_store s) (ra_token_ledger C) (ra_input_token_account C) = Ok ledger"
    "get (ra_remaining C) (unat mints) = Some input_mint"
    "get (ra_remaining C) (unat mints + unat (ps_to (last swaps))) = Some output_mint"
    "extract_mint_decimals (rs_store s) input_mint = Ok input_decs"
    "extract_mint_decimals (rs_store s) output_mint = Ok output_decs"
    "create_missing_atas R C (unat mints) s = (Ok created, s1)"
    "scan_accounts (rs_store s1) (ai_key (ra_titan_pda C)) (unat mints) 0 (ra_remaining C)
       (bitmap_new, [], replicate MAX_MINTS 0) = Ok (bitmap, balances, reserved)"
    "effective_amount (rs_store s1) C amount ledger = Ok input"
    "take_input R C ledger input_mint input_decs input s1 = (Ok (), s2)"
    "foldS (run_leg R C reserved (titan_seeds C)) swaps (2 * unat mints) s2 = (Ok n, s3)"
    "pay_output R C reserved (titan_seeds C) (unat (ps_to (last swaps))) output_mint output_decs s3 = (Ok (), s4)"
    "close_created_atas R C (unat mints) created (titan_seeds C) s4 = (Ok (), s')"
  shows "execute R C amount mints swaps s = (check_balances (rs_store s') bitmap balances 0 0 (ra_remaining C), s')"
proof -
  have "swaps \<noteq> []" using assms(1) by (simp add: check_route_input_Ok)
  then show ?thesis
    using assms by (simp add: execute_def Let_def readS_def ok_orS_def liftS_def bindS_def)
qed

section \<open>A sample route\<close>

text \<open>
  One leg of a deposit from mint 20 to mint 21 over a ledger in which the token transfers
  move amounts and the venue swaps one to one. The PDA (key 9) holds 7 atoms of the input
  and 3 of the output before the route; the user is key 2.
\<close>

definition sample_token :: "pubkey \<Rightarrow> u64 \<Rightarrow> account" where
  "sample_token owner amount =
     \<lparr>lamports = 1, acc_data = replicate 32 0 @ key_bytes owner @ to_le_bytes amount @ replicate 93 0,
      acc_owner = TOKEN_PROGRAM_ID, executable = False\<rparr>"

definition sample_store :: store where
  "sample_store k =
     (if k = 10 then sample_token 9 7 else if k = 11 then sample_token 9 3
      else if k = 3 then sample_token 2 100 else if k = 4 then sample_token 2 0
      else if k = 12 then sample_token 8 0 else if k = 13 then sample_token 8 1000
      else if k = 15 then
        \<lparr>lamports = 1, acc_data = replicate 8 0 @ key_bytes 3 @ to_le_bytes (50 :: u64), acc_owner = TOKEN_PROGRAM_ID, executable = False\<rparr>
      else if k = 9 then
        \<lparr>lamports = 1, acc_data = replicate 8 0 @ [255], acc_owner = TITAN_PROGRAM_ID, executable = False\<rparr>
      else if k = 0 then \<lparr>lamports = 1, acc_data = [], acc_owner = 0, executable = True\<rparr>
      else \<lparr>lamports = 1, acc_data = replicate 82 6, acc_owner = TOKEN_PROGRAM_ID, executable = False\<rparr>)"

definition sample_move :: "pubkey \<Rightarrow> pubkey \<Rightarrow> u64 \<Rightarrow> store \<Rightarrow> store" where
  "sample_move from to amount st =
     (let upd = (\<lambda>f a. a\<lparr>acc_data := take 64 (acc_data a) @ to_le_bytes (f (u64_at (acc_data a) 64) :: u64) @
                       drop 72 (acc_data a)\<rparr>) in
      (st(from := upd (\<lambda>b. b - amount) (st from)))(to := upd (\<lambda>b. b + amount) (st to)))"

fun sample_cpi :: "cpi_call \<Rightarrow> store \<Rightarrow> string + store" where
  "sample_cpi (Transfer tp from to authority amount seeds) st = Inr (sample_move (ai_key from) (ai_key to) amount st)"
| "sample_cpi (Invoke ix infos seeds) st =
     Inr (sample_move 13 11 (u64_at (ix_data ix) 8) (sample_move 10 12 (u64_at (ix_data ix) 8) st))"
| "sample_cpi _ st = Inl ''unsupported''"

definition sample_runtime :: runtime where
  "sample_runtime = \<lparr>rt_cpi = sample_cpi,
     rt_create_ata = (\<lambda>_ _ _ _. \<lparr>ix_program_id = 0, ix_accounts = [], ix_data = []\<rparr>),
     rt_system_transfer = (\<lambda>_ _ _. \<lparr>ix_program_id = 0, ix_accounts = [], ix_data = []\<rparr>),
     rt_sync_native = (\<lambda>_ _. Inl ''unsupported'')\<rparr>"

abbreviation sample_info :: "pubkey \<Rightarrow> account_info" where
  "sample_info k \<equiv> \<lparr>ai_key = k, ai_is_signer = False, ai_is_writable = True\<rparr>"

definition sample_accounts :: "account_info option \<Rightarrow> route_accounts" where
  "sample_accounts ledger =
     \<lparr>ra_payer = \<lparr>ai_key = 1, ai_is_signer = True, ai_is_writable = True\<rparr>,
      ra_user = \<lparr>ai_key = 2, ai_is_signer = True, ai_is_writable = True\<rparr>,
      ra_titan_pda = sample_info 9, ra_titan_pda_data = \<lparr>tp_bump = 255\<rparr>,
      ra_input_token_account = sample_info 3, ra_output_token_account = sample_info 4,
      ra_token_program = sample_info TOKEN_PROGRAM_ID,
      ra_token_2022_program = sample_info TOKEN_2022_PROGRAM_ID, ra_system_program = sample_info 0,
      ra_associated_token_program = sample_info 5, ra_token_ledger = ledger,
      ra_reserved_optional_account_0 = None, ra_reserved_optional_account_1 = None,
      ra_remaining = map sample_info [10, 11, 20, 21, 9, 12, 13, HUMA_ADAPTER_PROGRAM_ID]\<rparr>"

definition sample_swap :: prog_swap where
  "sample_swap = \<lparr>ps_venue = ProgHuma True, ps_from = 0, ps_to = 1, ps_weight_nanos = 1000000000, ps_n_accounts = 4\<rparr>"

lemma sample_token_range:
  "get_range (acc_data (sample_token owner amount)) 64 72 = Some (to_le_bytes amount)"
  "get_range (acc_data (sample_token owner amount)) 32 64 = Some (key_bytes owner)"
  "u64_at (acc_data (sample_token owner amount)) 64 = amount"
  by (simp_all add: sample_token_def get_range_def u64_at_def slice_def)

lemma sample_token_update:
  "(sample_token owner amount)\<lparr>acc_data := take 64 (acc_data (sample_token owner amount)) @ to_le_bytes amount' @
     drop 72 (acc_data (sample_token owner amount))\<rparr> = sample_token owner amount'"
  by (simp add: sample_token_def)

lemma sample_move_tokens:
  assumes "st from = sample_token o1 b1" "st to = sample_token o2 b2" "from \<noteq> to"
  shows "sample_move from to amount st =
    st(from := sample_token o1 (b1 - amount), to := sample_token o2 (b2 + amount))"
  using assms by (simp add: sample_move_def Let_def sample_token_range sample_token_update)

lemma sample_token_reads:
  assumes "st (ai_key a) = sample_token owner amount"
  shows "extract_token_amount st a = Ok amount" "token_amount_or_0 st a = amount" "account_exists st a"
    "is_titan_pda_token_account st a titan \<longleftrightarrow> owner = titan"
    "acc_owner (st (ai_key a)) = TOKEN_PROGRAM_ID"
  using assms
  by (simp_all add: extract_token_amount_def token_amount_or_0_def account_exists_def sample_token_range
      is_titan_pda_token_account_def extract_token_owner_def)
    (auto simp: sample_token_def)

lemma sample_store_simps:
  "sample_store 10 = sample_token 9 7" "sample_store 11 = sample_token 9 3" "sample_store 3 = sample_token 2 100"
  "sample_store 4 = sample_token 2 0" "sample_store 12 = sample_token 8 0" "sample_store 13 = sample_token 8 1000"
  by (simp_all add: sample_store_def)

abbreviation sample_start :: route_state where
  "sample_start \<equiv> \<lparr>rs_store = sample_store, rs_calls = []\<rparr>"

lemma sample_bitmap: "bitmap_add (bitmap_add bitmap_new 0) (Suc 0) = [3, 0, 0, 0]"
  by code_simp

lemma sample_scan:
  "scan_accounts sample_store 9 2 0 (ra_remaining (sample_accounts l)) (bitmap_new, [], replicate MAX_MINTS 0) =
    Ok ([3, 0, 0, 0], [7, 3], [7, 3, 0, 0, 0, 0, 0, 0, 0, 0, 0, 0])"
proof -
  have "\<not> is_titan_pda_token_account sample_store (sample_info k) 9" if "k \<in> {20, 21, 9, 12, 13, HUMA_ADAPTER_PROGRAM_ID}" for k
    using that by (auto simp: sample_store_def is_titan_pda_token_account_def extract_token_owner_def HUMA_ADAPTER_PROGRAM_ID_def
       sample_token_def get_range_def)
  then show ?thesis
    by (simp add: sample_accounts_def sample_store_simps sample_token_reads [of sample_store "sample_info 10" 9 7]
       sample_token_reads [of sample_store "sample_info 11" 9 3] array_set_def MAX_MINTS_def numeral_eq_Suc
       bitmap_set_eq)
      (simp add: sample_bitmap)
qed

definition sample_paid :: store where
  "sample_paid = sample_store(3 := sample_token 2 50, 10 := sample_token 9 57)"

definition sample_swapped :: store where
  "sample_swapped = sample_paid(10 := sample_token 9 7, 12 := sample_token 8 50, 13 := sample_token 8 950,
     11 := sample_token 9 53)"

definition sample_done :: store where
  "sample_done = sample_swapped(11 := sample_token 9 3, 4 := sample_token 2 50)"

lemma sample_token_program:
  "k \<in> {20, 21} \<Longrightarrow> st k = sample_store k \<Longrightarrow>
    token_program_of (sample_accounts l) (sample_info k) \<lparr>rs_store = st, rs_calls = cs\<rparr> =
      (Ok (sample_info TOKEN_PROGRAM_ID), \<lparr>rs_store = st, rs_calls = cs\<rparr>)"
  by (auto simp: token_program_of_def readS_def get_token_program_for_mint_def sample_store_def sample_accounts_def
      TOKEN_PROGRAM_ID_def TOKEN_2022_PROGRAM_ID_def)

lemma sample_take_input:
  "take_input sample_runtime (sample_accounts l) ledger (sample_info 20) d 50 sample_start =
    (Ok (), \<lparr>rs_store = sample_paid, rs_calls =
       [Transfer (sample_info TOKEN_PROGRAM_ID) (sample_info 3) (sample_info 10) (ra_user (sample_accounts l)) 50 []]\<rparr>)"
proof -
  have "sample_move 3 10 50 sample_store = sample_paid"
    by (simp add: sample_move_tokens sample_store_simps sample_paid_def)
  moreover have "get (ra_remaining (sample_accounts l)) 0 = Some (sample_info 10)"
    "ra_input_token_account (sample_accounts l) = sample_info 3"
    by (simp_all add: sample_accounts_def get_def)
  ultimately show ?thesis
    by (simp add: take_input_def bindS_def ok_orS_def sample_token_program is_native_mint_def NATIVE_MINT_def liftS_def
        transfer_tokens_def TOKEN_PROGRAM_ID_def TOKEN_2022_PROGRAM_ID_def cpi_def sample_runtime_def)
qed

lemma sample_leg_input: "leg_input 57 7 1000000000 = 50"
proof -
  have "unat (leg_input 57 7 1000000000) = 50" by (simp add: unat_leg_input)
  then show ?thesis by (simp add: word_unat_eq_iff)
qed

lemma run_leg_eq:
  assumes "0 < unat (ps_n_accounts swap)" "i + unat (ps_n_accounts swap) \<le> length (ra_remaining C)"
    "get (ra_remaining C) (unat (ps_from swap)) = Some a" "extract_token_amount (rs_store s) a = Ok b"
    "get reserved (unat (ps_from swap)) = Some r" "0 < leg_input b r (ps_weight_nanos swap)"
  obtains metas where
    "leg_account_metas (ai_key (ra_titan_pda C)) (slice i (unat (ps_n_accounts swap)) (ra_remaining C))
       (unat (ps_n_accounts swap)) = Ok metas"
    "run_leg R C reserved seeds swap i s =
      bindS (perform_cpi_swap R (leg_input b r (ps_weight_nanos swap)) swap metas
        (slice i (unat (ps_n_accounts swap)) (ra_remaining C)) seeds)
       (\<lambda>_. liftS (Ok (i + unat (ps_n_accounts swap)))) s"
proof -
  obtain metas where metas: "leg_account_metas (ai_key (ra_titan_pda C))
      (slice i (unat (ps_n_accounts swap)) (ra_remaining C)) (unat (ps_n_accounts swap)) = Ok metas"
    using leg_metas_Ok [OF assms(1)] length_slice_fits [OF assms(2)] by blast
  then show thesis
    using assms by (intro that [of metas])
      (simp_all add: run_leg_def Let_def bindS_def requireS_def ok_orS_def liftS_def readS_def slice_def)
qed

lemma sample_swap_call:
  assumes "st 10 = sample_token 9 57" "st 12 = sample_token 8 0" "st 13 = sample_token 8 1000" "st 11 = sample_token 9 3"
  shows "sample_cpi (Invoke \<lparr>ix_program_id = p, ix_accounts = ms,
      ix_data = DEPOSIT_DISCRIMINATOR @ to_le_bytes (50 :: u64) @ bs\<rparr> infos seeds) st =
    Inr (st(10 := sample_token 9 7, 12 := sample_token 8 50, 13 := sample_token 8 950, 11 := sample_token 9 53))"
proof -
  have "u64_at (DEPOSIT_DISCRIMINATOR @ to_le_bytes (50 :: u64) @ bs) 8 = 50"
    by (subst u64_at_def, subst slice_append_skip, simp_all add: DEPOSIT_DISCRIMINATOR_def)
      (simp add: slice_def)
  then show ?thesis using assms by (simp add: sample_move_tokens)
qed

lemma sample_legs:
  "\<exists>c. foldS (run_leg sample_runtime (sample_accounts l) [7, 3, 0, 0, 0, 0, 0, 0, 0, 0, 0, 0] (titan_seeds (sample_accounts l)))
      [sample_swap] 4 \<lparr>rs_store = sample_paid, rs_calls = cs\<rparr> =
    (Ok 8, \<lparr>rs_store = sample_swapped, rs_calls = cs @ [c]\<rparr>)"
proof -
  have amount: "extract_token_amount sample_paid (sample_info 10) = Ok 57"
    by (rule sample_token_reads) (simp add: sample_paid_def)
  have swap: "ps_n_accounts sample_swap = 4" "ps_from sample_swap = 0" "ps_weight_nanos sample_swap = 1000000000"
    "ps_venue sample_swap = ProgHuma True"
    by (simp_all add: sample_swap_def)
  have rem: "length (ra_remaining (sample_accounts l)) = 8" "get (ra_remaining (sample_accounts l)) 0 = Some (sample_info 10)"
    "get [7, 3, 0, 0, 0, 0, 0, 0, 0, 0, 0, 0 :: u64] 0 = Some 7"
    by (simp_all add: sample_accounts_def get_def)
  have "sample_paid 10 = sample_token 9 57" "sample_paid 12 = sample_token 8 0" "sample_paid 13 = sample_token 8 1000"
    "sample_paid 11 = sample_token 9 3"
    by (simp_all add: sample_paid_def sample_store_simps)
  note venue = sample_swap_call [OF this, folded sample_swapped_def]
  have "\<exists>c. run_leg sample_runtime (sample_accounts l) [7, 3, 0, 0, 0, 0, 0, 0, 0, 0, 0, 0] (titan_seeds (sample_accounts l))
      sample_swap 4 \<lparr>rs_store = sample_paid, rs_calls = cs\<rparr> = (Ok 8, \<lparr>rs_store = sample_swapped, rs_calls = cs @ [c]\<rparr>)"
    by (rule run_leg_eq [where a = "sample_info 10" and b = 57 and r = 7 and swap = sample_swap and i = 4
          and C = "sample_accounts l" and reserved = "[7, 3, 0, 0, 0, 0, 0, 0, 0, 0, 0, 0]"
          and s = "\<lparr>rs_store = sample_paid, rs_calls = cs\<rparr>" and R = sample_runtime
          and seeds = "titan_seeds (sample_accounts l)"])
      (simp_all add: swap rem amount sample_leg_input perform_cpi_swap_def huma_adapter_def bindS_def liftS_def cpi_def
        sample_runtime_def venue del: sample_cpi.simps)
  then show ?thesis by (auto simp: bindS_def liftS_def)
qed

lemma sample_pay_output:
  "\<exists>c. pay_output sample_runtime (sample_accounts l) [7, 3, 0, 0, 0, 0, 0, 0, 0, 0, 0, 0] (titan_seeds (sample_accounts l)) 1
      (sample_info 21) d \<lparr>rs_store = sample_swapped, rs_calls = cs\<rparr> =
    (Ok (), \<lparr>rs_store = sample_done, rs_calls = cs @ [c]\<rparr>)"
proof -
  have "sample_move 11 4 50 sample_swapped = sample_done"
    by (simp add: sample_move_tokens sample_store_simps sample_paid_def sample_swapped_def sample_done_def)
  moreover have "extract_token_amount sample_swapped (sample_info 11) = Ok 53"
    by (rule sample_token_reads) (simp add: sample_swapped_def)
  moreover have "account_exists sample_swapped (sample_info 4)"
    by (rule sample_token_reads [where owner = 2 and amount = 0])
      (simp add: sample_swapped_def sample_paid_def sample_store_simps)
  moreover have "get (ra_remaining (sample_accounts l)) 1 = Some (sample_info 11)"
    "ra_output_token_account (sample_accounts l) = sample_info 4"
    by (simp_all add: sample_accounts_def get_def)
  moreover have "sample_swapped 21 = sample_store 21" by (simp add: sample_swapped_def sample_paid_def)
  moreover have "get [7, 3, 0, 0, 0, 0, 0, 0, 0, 0, 0, 0 :: u64] 1 = Some 3" by (simp add: get_def)
  moreover have "saturating_sub 53 (3 :: u64) = 50" by code_simp
  ultimately show ?thesis
    by (simp add: pay_output_def Let_def bindS_def requireS_def ok_orS_def liftS_def readS_def sample_token_program
        transfer_tokens_def TOKEN_PROGRAM_ID_def TOKEN_2022_PROGRAM_ID_def cpi_def sample_runtime_def)
qed

lemma sample_close: "close_created_atas R C 2 0 seeds s = (Ok (), s)"
  by (simp add: close_created_atas_def close_created_ata_def liftS_def numeral_2_eq_2 bindS_def)

lemma sample_check:
  "check_balances sample_done [3, 0, 0, 0] [7, 3] 0 0 (ra_remaining (sample_accounts l)) = Ok ()"
proof -
  have amounts: "token_amount_or_0 sample_done (sample_info 10) = 7" "token_amount_or_0 sample_done (sample_info 11) = 3"
    by (rule sample_token_reads, simp add: sample_done_def sample_swapped_def)+
  have "bitmap_has [3, 0, 0, 0] 0" "bitmap_has [3, 0, 0, 0] (Suc 0)"
    "\<not> bitmap_has [3, 0, 0, 0] 2" "\<not> bitmap_has [3, 0, 0, 0] 3" "\<not> bitmap_has [3, 0, 0, 0] 4"
    "\<not> bitmap_has [3, 0, 0, 0] 5" "\<not> bitmap_has [3, 0, 0, 0] 6" "\<not> bitmap_has [3, 0, 0, 0] 7"
    by (code_simp, code_simp, code_simp, code_simp, code_simp, code_simp, code_simp, code_simp)
  then show ?thesis
    by (simp add: sample_accounts_def get_def eval_nat_numeral amounts bitmap_is_set_eq)
qed

lemma sample_exists: "create_missing_atas sample_runtime (sample_accounts l) 2 sample_start = (Ok 0, sample_start)"
  by (rule create_none_missing)
    (auto simp: sample_accounts_def less_Suc_eq numeral_2_eq_2 sample_store_simps intro!: sample_token_reads(3))

lemma sample_execute_check:
  assumes ledger: "read_token_ledger sample_store l (sample_info 3) = Ok ledger"
    and input: "effective_amount sample_store (sample_accounts l) amount ledger = Ok 50"
  shows "\<exists>calls. execute sample_runtime (sample_accounts l) amount 2 [sample_swap] sample_start =
    (check_balances sample_done [3, 0, 0, 0] [7, 3] 0 0 (ra_remaining (sample_accounts l)),
     \<lparr>rs_store = sample_done, rs_calls = calls\<rparr>)"
proof -
  have check: "check_route_input (sample_accounts l) 2 [sample_swap] = Ok ()"
    by (simp add: check_route_input_Ok MAX_SWAPS_def MAX_MINTS_def sample_swap_def sample_accounts_def)
  have rem: "get (ra_remaining (sample_accounts l)) 2 = Some (sample_info 20)"
    "get (ra_remaining (sample_accounts l)) 3 = Some (sample_info 21)"
    by (simp_all add: sample_accounts_def get_def)
  have decs: "extract_mint_decimals sample_store (sample_info k) = Ok 6" if "k \<in> {20, 21}" for k
    using that by (auto simp: extract_mint_decimals_def sample_store_def get_def)
    obtain c1 where c1: "foldS (run_leg sample_runtime (sample_accounts l) [7, 3, 0, 0, 0, 0, 0, 0, 0, 0, 0, 0]
        (titan_seeds (sample_accounts l))) [sample_swap] 4 \<lparr>rs_store = sample_paid, rs_calls =
         [Transfer (sample_info TOKEN_PROGRAM_ID) (sample_info 3) (sample_info 10) (ra_user (sample_accounts l)) 50 []]\<rparr> =
      (Ok 8, \<lparr>rs_store = sample_swapped, rs_calls = c1\<rparr>)"
      using sample_legs by blast
    obtain c2 where c2: "pay_output sample_runtime (sample_accounts l) [7, 3, 0, 0, 0, 0, 0, 0, 0, 0, 0, 0]
        (titan_seeds (sample_accounts l)) 1 (sample_info 21) 6 \<lparr>rs_store = sample_swapped, rs_calls = c1\<rparr> =
      (Ok (), \<lparr>rs_store = sample_done, rs_calls = c2\<rparr>)"
      using sample_pay_output by blast
  have "execute sample_runtime (sample_accounts l) amount 2 [sample_swap] sample_start =
      (check_balances (rs_store \<lparr>rs_store = sample_done, rs_calls = c2\<rparr>) [3, 0, 0, 0] [7, 3] 0 0
         (ra_remaining (sample_accounts l)), \<lparr>rs_store = sample_done, rs_calls = c2\<rparr>)"
  proof (rule execute_steps)
    show "check_route_input (sample_accounts l) 2 [sample_swap] = Ok ()" by (rule check)
    show "read_token_ledger (rs_store sample_start) (ra_token_ledger (sample_accounts l))
        (ra_input_token_account (sample_accounts l)) = Ok ledger"
      using ledger by (simp add: sample_accounts_def)
    show "get (ra_remaining (sample_accounts l)) (unat (2 :: u8)) = Some (sample_info 20)" using rem by simp
    show "get (ra_remaining (sample_accounts l)) (unat (2 :: u8) + unat (ps_to (last [sample_swap]))) = Some (sample_info 21)"
      using rem by (simp add: sample_swap_def)
    show "extract_mint_decimals (rs_store sample_start) (sample_info 20) = Ok 6"
      "extract_mint_decimals (rs_store sample_start) (sample_info 21) = Ok 6" using decs by simp_all
    show "create_missing_atas sample_runtime (sample_accounts l) (unat (2 :: u8)) sample_start = (Ok 0, sample_start)"
      using sample_exists by simp
    show "scan_accounts (rs_store sample_start) (ai_key (ra_titan_pda (sample_accounts l))) (unat (2 :: u8)) 0
        (ra_remaining (sample_accounts l)) (bitmap_new, [], replicate MAX_MINTS 0) =
      Ok ([3, 0, 0, 0], [7, 3], [7, 3, 0, 0, 0, 0, 0, 0, 0, 0, 0, 0])"
      using sample_scan by (simp add: sample_accounts_def)
    show "effective_amount (rs_store sample_start) (sample_accounts l) amount ledger = Ok 50"
      using input by simp
    show "take_input sample_runtime (sample_accounts l) ledger (sample_info 20) 6 50 sample_start =
      (Ok (), \<lparr>rs_store = sample_paid, rs_calls =
       [Transfer (sample_info TOKEN_PROGRAM_ID) (sample_info 3) (sample_info 10) (ra_user (sample_accounts l)) 50 []]\<rparr>)"
      by (rule sample_take_input)
    show "foldS (run_leg sample_runtime (sample_accounts l) [7, 3, 0, 0, 0, 0, 0, 0, 0, 0, 0, 0]
        (titan_seeds (sample_accounts l))) [sample_swap] (2 * unat (2 :: u8)) \<lparr>rs_store = sample_paid, rs_calls =
         [Transfer (sample_info TOKEN_PROGRAM_ID) (sample_info 3) (sample_info 10) (ra_user (sample_accounts l)) 50 []]\<rparr> =
      (Ok 8, \<lparr>rs_store = sample_swapped, rs_calls = c1\<rparr>)"
      using c1 by (simp del: foldS.simps)
    show "pay_output sample_runtime (sample_accounts l) [7, 3, 0, 0, 0, 0, 0, 0, 0, 0, 0, 0]
        (titan_seeds (sample_accounts l)) (unat (ps_to (last [sample_swap]))) (sample_info 21) 6
        \<lparr>rs_store = sample_swapped, rs_calls = c1\<rparr> = (Ok (), \<lparr>rs_store = sample_done, rs_calls = c2\<rparr>)"
      using c2 by (simp add: sample_swap_def)
    show "close_created_atas sample_runtime (sample_accounts l) (unat (2 :: u8)) 0 (titan_seeds (sample_accounts l))
        \<lparr>rs_store = sample_done, rs_calls = c2\<rparr> = (Ok (), \<lparr>rs_store = sample_done, rs_calls = c2\<rparr>)"
      by (simp add: sample_close)
  qed
    then show ?thesis by auto
qed

lemma sample_execute:
  "\<exists>calls. execute sample_runtime (sample_accounts None) 50 2 [sample_swap] sample_start =
    (Ok (), \<lparr>rs_store = sample_done, rs_calls = calls\<rparr>)"
  using sample_execute_check [of None None 50] by (simp add: sample_check read_token_ledger_def effective_amount_def)

text \<open>With a token ledger at key 15, which recorded 50 of the user's 100 atoms.\<close>

lemma sample_execute_ledger:
  "\<exists>calls. execute sample_runtime (sample_accounts (Some (sample_info 15))) amount 2 [sample_swap] sample_start =
    (Ok (), \<lparr>rs_store = sample_done, rs_calls = calls\<rparr>)"
proof -
  have "read_token_ledger sample_store (Some (sample_info 15)) (sample_info 3) = Ok (Some 50)"
    by (simp add: read_token_ledger_def sample_store_def get_range_def)
  moreover have "extract_token_amount sample_store (sample_info 3) = Ok 100"
    by (rule sample_token_reads) (simp add: sample_store_simps)
  then have "effective_amount sample_store (sample_accounts (Some (sample_info 15))) amount (Some 50) = Ok 50"
    by (simp add: effective_amount_def sample_accounts_def checked_sub_def)
  ultimately show ?thesis using sample_execute_check by (simp add: sample_check)
qed

section \<open>The reserved balances\<close>

lemma list_all2_prefix_map:
  "list_all2 (\<lambda>b p. b \<le> g p) (take (length ps) (map f (ps @ qs))) ps \<longleftrightarrow> (\<forall>p\<in>set ps. f p \<le> g p)"
  by (induction ps) auto

lemma enumerate_split: "List.enumerate 0 xs = List.enumerate 0 (take n xs) @ List.enumerate (min n (length xs)) (drop n xs)"
  by (metis append_take_drop_id enumerate_append_eq length_take min.commute add_0)

lemma checked_balances_kept:
  assumes scan: "scan_accounts st titan m 0 accs (bitmap_new, [], reserved) = Ok (bitmap, balances, reserved')"
    and check: "check_balances st' bitmap balances 0 0 accs = Ok ()"
    and i: "i < length accs" "i < 256" "watched st titan m (i, accs ! i)"
  shows "token_amount_or_0 st (accs ! i) \<le> token_amount_or_0 st' (accs ! i)"
proof -
  let ?w = "watched st titan m"
  let ?low = "List.enumerate 0 (take 256 accs)" and ?high = "List.enumerate (min 256 (length accs)) (drop 256 accs)"
  have split: "List.enumerate 0 accs = ?low @ ?high" by (rule enumerate_split)
  have high: "256 \<le> fst p" if "p \<in> set ?high" for p
    using that by (cases "length accs \<le> 256") (auto simp: in_set_enumerate_eq)
  have low: "fst p < 256" if "p \<in> set ?low" for p
    using that by (auto simp: in_set_enumerate_eq)
  note scanned = scan_accounts_Ok [OF scan length_bitmap_new]
  have len: "length bitmap = 4" using scanned by blast
  have bit: "bitmap_has bitmap j \<longleftrightarrow> j \<in> fst ` set (filter ?w (List.enumerate 0 accs)) \<and> j < 256" for j
    using titan_bitmap.member_collected scanned by (simp only: set_map)
  have "bitmap_has bitmap (fst p) \<longleftrightarrow> ?w p \<and> fst p < 256" if "p \<in> set (List.enumerate 0 accs)" for p
  proof -
    have "fst p \<in> fst ` set (filter ?w (List.enumerate 0 accs)) \<longleftrightarrow> ?w p"
      unfolding set_filter image_iff using that by (simp add: in_set_enumerate_eq Bex_def)
    then show ?thesis by (simp only: bit)
  qed
  then have "filter (bitmap_has bitmap \<circ> fst) (List.enumerate 0 accs) =
      filter (\<lambda>p. ?w p \<and> fst p < 256) (List.enumerate 0 accs)"
    by (intro filter_cong) auto
  also have "\<dots> = filter ?w ?low"
    unfolding split filter_append using high low
    by (auto simp: filter_empty_conv not_less intro!: filter_cong)
  finally have marked: "filter (bitmap_has bitmap \<circ> fst) (List.enumerate 0 accs) = filter ?w ?low" .
  have "balances = map (token_amount_or_0 st \<circ> snd) (filter ?w ?low @ filter ?w ?high)"
    using scanned by (simp only: append_Nil split filter_append)
  with check have "\<forall>p\<in>set (filter ?w ?low). (token_amount_or_0 st \<circ> snd) p \<le> token_amount_or_0 st' (snd p)"
    by (simp only: check_balances_Ok [OF len] Let_def marked drop_0 list_all2_prefix_map)
  moreover have "(i, accs ! i) \<in> set ?low" using i by (auto simp: in_set_enumerate_eq)
  ultimately show ?thesis using i(3) by auto
qed

text \<open>
  C3: a route that succeeds leaves, on every token account of the PDA among the first 256
  remaining accounts, at least the balance recorded once the missing accounts of the
  mints exist, whatever the venues did; the accounts of the mints were the PDA's own, and
  when they all existed the balances are those the route started with.
\<close>

theorem route_keeps_balances:
  assumes "execute R C amount mints swaps s = (Ok (), s')"
  shows "\<exists>created s1. create_missing_atas R C (unat mints) s = (Ok created, s1) \<and>
    (\<forall>i<length (ra_remaining C). i < 256 \<longrightarrow>
       i < unat mints \<or> is_titan_pda_token_account (rs_store s1) (ra_remaining C ! i) (ai_key (ra_titan_pda C)) \<longrightarrow>
       token_amount_or_0 (rs_store s1) (ra_remaining C ! i) \<le> token_amount_or_0 (rs_store s') (ra_remaining C ! i)) \<and>
    (\<forall>i<unat mints. is_titan_pda_token_account (rs_store s1) (ra_remaining C ! i) (ai_key (ra_titan_pda C))) \<and>
    ((\<forall>i<unat mints. account_exists (rs_store s) (ra_remaining C ! i)) \<longrightarrow> s1 = s)"
proof -
  obtain created s1 bitmap balances reserved where *: "check_route_input C mints swaps = Ok ()"
    "create_missing_atas R C (unat mints) s = (Ok created, s1)"
    "scan_accounts (rs_store s1) (ai_key (ra_titan_pda C)) (unat mints) 0 (ra_remaining C)
       (bitmap_new, [], replicate MAX_MINTS 0) = Ok (bitmap, balances, reserved)"
    "check_balances (rs_store s') bitmap balances 0 0 (ra_remaining C) = Ok ()"
    by (rule execute_Ok [OF assms])
  have len: "unat mints \<le> length (ra_remaining C)" using *(1) by (simp add: check_route_input_Ok)
  have "\<forall>i<unat mints. is_titan_pda_token_account (rs_store s1) (ra_remaining C ! i) (ai_key (ra_titan_pda C))"
    using scan_accounts_minted [OF *(3)] len by auto
  moreover have "(\<forall>i<unat mints. account_exists (rs_store s) (ra_remaining C ! i)) \<longrightarrow> s1 = s"
    using create_none_missing [of "unat mints" s C R] len *(2) by auto
  ultimately show ?thesis
    using *(2) checked_balances_kept [OF *(3,4)] by (simp add: watched_def)
qed

theorem route_keeps_balances_witness:
  "\<exists>s'. execute sample_runtime (sample_accounts None) 50 2 [sample_swap] sample_start = (Ok (), s') \<and>
    7 \<le> token_amount_or_0 (rs_store s') (sample_info 10) \<and> 3 \<le> token_amount_or_0 (rs_store s') (sample_info 11)"
proof -
  obtain s' where run: "execute sample_runtime (sample_accounts None) 50 2 [sample_swap] sample_start = (Ok (), s')"
    using sample_execute by blast
  have rem: "ra_remaining (sample_accounts None) ! 0 = sample_info 10" "ra_remaining (sample_accounts None) ! 1 = sample_info 11"
    "length (ra_remaining (sample_accounts None)) = 8"
    by (simp_all add: sample_accounts_def)
  have "account_exists sample_store (ra_remaining (sample_accounts None) ! i)" if "i < 2" for i
  proof -
    have "account_exists sample_store (sample_info 10)" "account_exists sample_store (sample_info 11)"
      by (rule sample_token_reads(3), simp add: sample_store_simps)+
    then show ?thesis using that rem by (auto simp: less_2_cases_iff)
  qed
  with route_keeps_balances [OF run] have "\<forall>i<2. token_amount_or_0 sample_store (ra_remaining (sample_accounts None) ! i) \<le>
      token_amount_or_0 (rs_store s') (ra_remaining (sample_accounts None) ! i)"
    by (auto simp: rem(3))
  then have "token_amount_or_0 sample_store (sample_info 10) \<le> token_amount_or_0 (rs_store s') (sample_info 10)"
    "token_amount_or_0 sample_store (sample_info 11) \<le> token_amount_or_0 (rs_store s') (sample_info 11)"
    using rem by (metis zero_less_numeral, metis one_less_numeral_iff semiring_norm(76))
  moreover have "token_amount_or_0 sample_store (sample_info 10) = 7" "token_amount_or_0 sample_store (sample_info 11) = 3"
    by (rule sample_token_reads, simp add: sample_store_simps)+
  ultimately show ?thesis using run by auto
qed

end
