(* ===== verification/Route_Effects.thy ===== *)
theory Route_Effects
  imports Route_Safety
begin

text \<open>
  Properties of the route's effects: arguments are rejected without one, nothing makes the
  program panic, the token ledger decides the amount, the PDA signs for nothing but the
  route, and a leg reaches its venue as the venue itself would have written it.
\<close>

section \<open>Rejected arguments\<close>

text \<open>
  A route is refused before any account is read or any program called, with the error
  of the first check that fails: two mints at least and 12 at most, 1 to 12 legs, two
  accounts per mint, the first leg starting from the first mint and every leg between
  mints of the route.
\<close>

theorem route_rejects_input:
  assumes "e = InvalidSwapInput \<and> (mints \<le> 1 \<or> swaps = [] \<or> 12 < length swaps \<or> 12 < unat mints)
    \<or> e = MissingRemainingAccount \<and> 1 < mints \<and> unat mints \<le> 12 \<and> swaps \<noteq> [] \<and> length swaps \<le> 12 \<and>
      length (ra_remaining C) < 2 * unat mints
    \<or> e = InvalidSwapInput \<and> 2 * unat mints \<le> length (ra_remaining C) \<and>
      (swaps \<noteq> [] \<and> ps_from (hd swaps) \<noteq> 0 \<or> (\<exists>swap\<in>set swaps. mints \<le> ps_from swap \<or> mints \<le> ps_to swap))"
  shows "execute R C amount mints swaps s = (Err (Template e), s)"
proof -
  have "check_route_input C mints swaps = Err (Template e)"
    using assms
    by (cases swaps) (auto simp: check_route_input_def require_def bindR_def MAX_SWAPS_def MAX_MINTS_def get_def
        not_le not_less split: if_splits)
  then show ?thesis by (simp add: execute_def)
qed

theorem route_rejects_input_witness:
  "execute sample_runtime (sample_accounts None) 50 2 [sample_swap\<lparr>ps_to := 2\<rparr>] sample_start =
    (Err (Template InvalidSwapInput), sample_start)"
  by (rule route_rejects_input) (simp add: sample_swap_def, simp add: sample_accounts_def)

section \<open>No panic\<close>

text \<open>A method that never panics, whatever the state.\<close>

definition panic_free :: "('s, 'e, 'a) stateful \<Rightarrow> bool" where
  "panic_free m \<longleftrightarrow> (\<forall>s. fst (m s) \<noteq> Panic)"

named_theorems panic_free_intros \<open>how the method combinators stay free of panics\<close>

lemma panic_free_bindS:
  "panic_free m \<Longrightarrow> (\<And>a s s'. m s = (Ok a, s') \<Longrightarrow> panic_free (k a)) \<Longrightarrow> panic_free (bindS m k)"
  unfolding panic_free_def bindS_def by (auto split: prod.splits sum.splits) (metis fst_conv)

lemma panic_free_bindS_any [panic_free_intros]:
  "panic_free m \<Longrightarrow> (\<And>a. panic_free (k a)) \<Longrightarrow> panic_free (bindS m k)"
  by (blast intro: panic_free_bindS)

lemma panic_free_liftS [panic_free_intros]: "r \<noteq> Panic \<Longrightarrow> panic_free (liftS r)"
  by (simp add: panic_free_def liftS_def)

lemma panic_free_readS [panic_free_intros]: "(\<And>st. f st \<noteq> Panic) \<Longrightarrow> panic_free (readS f)"
  by (simp add: panic_free_def readS_def)

lemma panic_free_ok_orS [panic_free_intros]: "panic_free (ok_orS x e)"
  by (simp add: panic_free_def ok_orS_def liftS_def)

lemma panic_free_requireS [panic_free_intros]: "panic_free (requireS b e)"
  by (simp add: panic_free_def requireS_def liftS_def)

lemma panic_free_cpi [panic_free_intros]: "panic_free (cpi R c)"
  by (auto simp: panic_free_def cpi_def split: sum.splits)

lemma panic_free_foldS [panic_free_intros]:
  "(\<And>x a. x \<in> set xs \<Longrightarrow> panic_free (f x a)) \<Longrightarrow> panic_free (foldS f xs a)"
  by (induction xs arbitrary: a) (auto intro!: panic_free_intros)

lemma reads_no_panic [panic_free_intros]:
  "extract_token_amount st a \<noteq> Panic" "extract_mint_decimals st a \<noteq> Panic"
  "read_token_ledger st l a \<noteq> Panic" "effective_amount st C amount ledger \<noteq> Panic" "Inr x \<noteq> Inl y" "Err e \<noteq> Panic"
  by (auto simp: extract_token_amount_def extract_mint_decimals_def read_token_ledger_def effective_amount_def Let_def
      bindR_eq_Inl split: option.splits)

lemma check_route_input_no_panic: "check_route_input C mints swaps \<noteq> Panic"
  by (cases swaps) (auto simp: check_route_input_def require_def bindR_def get_def split: if_splits)

lemma bindS_return: "bindS (liftS (Ok a)) k = k a"
  by (simp add: fun_eq_iff)

lemma panic_free_bind_Ok [panic_free_intros]: "panic_free (k a) \<Longrightarrow> panic_free (bindS (liftS (Ok a)) k)"
  by (simp add: panic_free_def)

text \<open>The slice of a leg, the venue's accounts in it, and the bits of the created accounts are in range.\<close>

lemma slice_leg: "i + n \<le> length xs \<Longrightarrow> slice_p xs i (i + n) = Ok (slice i n xs)"
  by (simp add: slice_def)

lemma leg_metas_no_panic: "0 < n \<Longrightarrow> n \<le> length infos \<Longrightarrow> leg_account_metas titan infos n \<noteq> Panic"
  by (simp add: leg_account_metas_def)

lemma sub_p_no_panic: "b \<le> a \<Longrightarrow> sub_p a b \<noteq> Panic"
  by (simp add: sub_p_def checked_sub_def)

lemma transfers_panic_free [panic_free_intros]:
  "panic_free (transfer_tokens R tp from to authority mint amount decs seeds)"
  "panic_free (transfer_sol_and_sync R from to tp amount)"
  by (auto simp: transfer_tokens_def transfer_sol_and_sync_def intro!: panic_free_intros split: option.splits sum.splits)

lemma operations_panic_free [panic_free_intros]:
  "panic_free (token_program_of C mint)"
  "panic_free (setup_wsol_input_account R payer owner wsol mint tp sp amount)"
  "m \<le> 16 \<Longrightarrow> panic_free (create_missing_atas R C m)"
  "panic_free (take_input R C ledger mint decs amount)"
  "panic_free (perform_cpi_swap R amount swap metas infos seeds)"
  "m \<le> 16 \<Longrightarrow> panic_free (close_created_atas R C m created seeds)"
  by (auto simp: token_program_of_def setup_wsol_input_account_def create_missing_atas_def create_missing_ata_def
      create_titan_pda_ata_def take_input_def close_token_account_def perform_cpi_swap_def Let_def
      close_created_atas_def close_created_ata_def close_titan_pda_ata_def sub_p_no_panic
      intro!: panic_free_intros split: prog_venue.splits option.splits)

lemma run_leg_panic_free:
  assumes "unat (ps_from swap) < length reserved"
  shows "panic_free (run_leg R C reserved seeds swap i)"
proof (cases "0 < unat (ps_n_accounts swap) \<and> i + unat (ps_n_accounts swap) \<le> length (ra_remaining C)")
  case True
  then show ?thesis
    using assms
    by (auto simp: run_leg_def Let_def get_def requireS_def slice_leg length_slice_fits leg_metas_no_panic
        simp del: slice_p_Ok intro!: panic_free_intros)
next
  case False
  then show ?thesis
    by (cases "0 < unat (ps_n_accounts swap)") (auto simp: run_leg_def Let_def requireS_def panic_free_def)
qed

lemma pay_output_panic_free:
  "i < length reserved \<Longrightarrow> panic_free (pay_output R C reserved seeds i mint decs)"
  by (auto simp: pay_output_def Let_def get_def create_user_ata_def intro!: panic_free_intros)

lemma scan_no_panic:
  "m \<le> length (snd (snd acc)) \<Longrightarrow> length (fst acc) = 4 \<Longrightarrow> scan_accounts st titan m i accs acc \<noteq> Panic"
proof (induction accs arbitrary: i acc)
  case (Cons a accs)
  obtain bitmap balances reserved where acc: "acc = (bitmap, balances, reserved)" by (cases acc)
  show ?case
    using Cons.prems Cons.IH unfolding acc
    by (auto simp: array_set_def bindR_eq_Inl reads_no_panic bitmap_set_eq split: if_splits)
qed simp

lemma check_balances_no_panic:
  "k + length (filter (bitmap_has bitmap \<circ> fst) (List.enumerate i accs)) \<le> length balances \<Longrightarrow>
    length bitmap = 4 \<Longrightarrow> check_balances st bitmap balances i k accs \<noteq> Panic"
  by (induction accs arbitrary: i k) (auto simp: bindR_eq_Inl get_def bitmap_is_set_eq split: if_splits)

lemma length_filter_mono: "\<forall>x\<in>set xs. P x \<longrightarrow> Q x \<Longrightarrow> length (filter P xs) \<le> length (filter Q xs)"
  by (induction xs) auto

lemma recorded_enough:
  assumes "scan_accounts st titan m 0 accs (bitmap_new, [], reserved) = Ok (bitmap, balances, reserved')"
  shows "length (filter (bitmap_has bitmap \<circ> fst) (List.enumerate 0 accs)) \<le> length balances" "length bitmap = 4"
proof -
  let ?w = "watched st titan m"
  note scanned = scan_accounts_Ok [OF assms length_bitmap_new]
  then show "length bitmap = 4" by blast
  have "bitmap_has bitmap j \<longleftrightarrow> j \<in> fst ` set (filter ?w (List.enumerate 0 accs)) \<and> j < 256" for j
    using titan_bitmap.member_collected scanned by (simp only: set_map)
  then have "?w p" if "bitmap_has bitmap (fst p)" "p \<in> set (List.enumerate 0 accs)" for p
    using that by (cases p) (auto simp: in_set_enumerate_eq)
  then have "length (filter (bitmap_has bitmap \<circ> fst) (List.enumerate 0 accs)) \<le>
      length (filter ?w (List.enumerate 0 accs))"
    by (intro length_filter_mono) auto
  then show "length (filter (bitmap_has bitmap \<circ> fst) (List.enumerate 0 accs)) \<le> length balances"
    using scanned by simp
qed

lemma route_tail_panic_free:
  assumes "\<forall>swap\<in>set swaps. unat (ps_from swap) < length reserved" "j < length reserved"
    and "length (filter (bitmap_has bitmap \<circ> fst) (List.enumerate 0 (ra_remaining C))) \<le> length balances"
    and "length bitmap = 4" "m \<le> 16"
  shows "panic_free
    (bindS (readS (\<lambda>st. effective_amount st C amount ledger)) (\<lambda>input.
     bindS (take_input R C ledger input_mint input_decs input) (\<lambda>_.
     bindS (foldS (run_leg R C reserved seeds) swaps n) (\<lambda>_.
     bindS (pay_output R C reserved seeds j output_mint output_decs) (\<lambda>_.
     bindS (close_created_atas R C m created seeds) (\<lambda>_.
     readS (\<lambda>st. check_balances st bitmap balances 0 0 (ra_remaining C))))))))"
  using assms by (auto simp: check_balances_no_panic intro!: panic_free_intros run_leg_panic_free pay_output_panic_free)

lemma scan_panic_free:
  assumes "m \<le> length reserved"
    and "\<And>st bitmap balances reserved'. scan_accounts st titan m 0 accs (bitmap_new, [], reserved) =
      Ok (bitmap, balances, reserved') \<Longrightarrow> panic_free (k bitmap balances reserved')"
  shows "panic_free (bindS (readS (\<lambda>st. scan_accounts st titan m 0 accs (bitmap_new, [], reserved)))
    (\<lambda>(bitmap, balances, reserved'). k bitmap balances reserved'))"
proof (rule panic_free_bindS)
  show "panic_free (readS (\<lambda>st. scan_accounts st titan m 0 accs (bitmap_new, [], reserved)))"
    using assms(1) by (intro panic_free_readS scan_no_panic) simp_all
next
  fix acc s s'
  assume "readS (\<lambda>st. scan_accounts st titan m 0 accs (bitmap_new, [], reserved)) s = (Ok acc, s')"
  then show "panic_free ((\<lambda>(bitmap, balances, reserved'). k bitmap balances reserved') acc)"
    using assms(2) by (cases acc) (auto simp: readS_eq_Inr)
qed

text \<open>
  C27: no input makes the program panic, whatever the accounts hold and whatever the called
  programs answer: every index into the legs, the reserved balances, the recorded balances and
  the bitmap's words is in range, the slice of a leg's accounts and that of its venue accounts
  are within theirs, and no subtraction or shift overflows.
\<close>

theorem route_no_panic: "fst (execute R C amount mints swaps s) \<noteq> Panic"
proof (cases "check_route_input C mints swaps")
  case (Inl x)
  then show ?thesis using check_route_input_no_panic [of C mints swaps] by (simp add: execute_def)
next
  case (Inr u)
  then have ok: "unat mints \<le> 12" "swaps \<noteq> []" "\<forall>swap\<in>set swaps. unat (ps_from swap) < 12 \<and> unat (ps_to swap) < 12"
    using check_route_input_Ok [of C mints swaps] by (fastforce simp: MAX_MINTS_def word_less_nat_alt)+
  have "panic_free (execute R C amount mints swaps)"
    unfolding execute_def Let_def Inr One_nat_def usub_p_last [OF ok(2)] bindS_return get_last [OF ok(2)] unwrap_simps
  proof (intro scan_panic_free route_tail_panic_free panic_free_bind_Ok panic_free_bindS_any panic_free_liftS
      panic_free_readS panic_free_ok_orS reads_no_panic operations_panic_free(3))
    show "unat mints \<le> length (replicate MAX_MINTS (0 :: u64))" using ok(1) by (simp add: MAX_MINTS_def)
  next
    fix st bitmap balances reserved
    assume scan: "scan_accounts st (ai_key (ra_titan_pda C)) (unat mints) 0 (ra_remaining C)
      (bitmap_new, [], replicate MAX_MINTS 0) = Ok (bitmap, balances, reserved)"
    then have "length reserved = 12" using scan_accounts_Ok [OF scan length_bitmap_new] by (simp add: MAX_MINTS_def)
    then show "\<forall>swap\<in>set swaps. unat (ps_from swap) < length reserved" "unat (ps_to (last swaps)) < length reserved"
      using ok(2,3) by auto
    show "length (filter (bitmap_has bitmap \<circ> fst) (List.enumerate 0 (ra_remaining C))) \<le> length balances"
      "length bitmap = 4"
      by (rule recorded_enough [OF scan])+
  qed (use ok(1) in simp_all)
  then show ?thesis by (simp add: panic_free_def)
qed

section \<open>What the PDA signs\<close>

fun call_seeds :: "cpi_call \<Rightarrow> seeds" where
  "call_seeds (Invoke ix infos seeds) = seeds"
| "call_seeds (Transfer tp from to authority amount seeds) = seeds"
| "call_seeds (TransferChecked tp from mint to authority amount decs seeds) = seeds"
| "call_seeds (CloseAccount tp account destination authority seeds) = seeds"

text \<open>
  The calls the PDA may sign in a route of \<open>m\<close> mints whose output is the account of index
  \<open>out\<close>: a venue's, the payment of the output, the closing of an account among \<open>K\<close>.
\<close>

fun pda_call :: "route_accounts \<Rightarrow> nat \<Rightarrow> nat set \<Rightarrow> cpi_call \<Rightarrow> bool" where
  "pda_call C out K (Invoke ix infos seeds) \<longleftrightarrow>
     ix_program_id ix \<in> {RAYDIUM_ADAPTER_PROGRAM_ID, HUMA_ADAPTER_PROGRAM_ID} \<and> set infos \<subseteq> set (ra_remaining C)"
| "pda_call C out K (Transfer tp from to authority amount seeds) \<longleftrightarrow>
     from = ra_remaining C ! out \<and> to = ra_output_token_account C \<and> authority = ra_titan_pda C"
| "pda_call C out K (TransferChecked tp from mint to authority amount decs seeds) \<longleftrightarrow>
     from = ra_remaining C ! out \<and> to = ra_output_token_account C \<and> authority = ra_titan_pda C"
| "pda_call C out K (CloseAccount tp account destination authority seeds) \<longleftrightarrow>
     destination = ra_payer C \<and> authority = ra_titan_pda C \<and> (\<exists>i\<in>K. account = ra_remaining C ! i)"

definition calls_allowed :: "route_accounts \<Rightarrow> nat \<Rightarrow> nat set \<Rightarrow> route_state \<Rightarrow> bool" where
  "calls_allowed C out K s \<longleftrightarrow>
     (\<forall>c\<in>set (rs_calls s). call_seeds c = [] \<or> call_seeds c = titan_seeds C \<and> pda_call C out K c)"

definition called :: "cpi_call \<Rightarrow> route_state \<Rightarrow> bool" where
  "called c s \<longleftrightarrow> c \<in> set (rs_calls s)"

lemma keeps_allowed_cpi [keeps_intros]:
  "call_seeds c = [] \<or> call_seeds c = titan_seeds C \<and> pda_call C out K c \<Longrightarrow> keeps (calls_allowed C out K) (cpi R c)"
  by (rule keeps_cpi) (auto simp: calls_allowed_def)

lemma keeps_called_cpi [keeps_intros]: "keeps (called c) (cpi R c')"
  by (rule keeps_cpi) (simp add: called_def)

text \<open>Invariants that every call keeps are kept by every operation but the three that sign.\<close>

lemma keeps_unsigned:
  assumes "\<And>c. call_seeds c = [] \<Longrightarrow> keeps P (cpi R c)"
  shows "keeps P (token_program_of C mint)"
    "keeps P (transfer_tokens R tp from to authority mint' amount decs None)"
    "keeps P (transfer_sol_and_sync R from wsol tp amount)"
    "keeps P (setup_wsol_input_account R payer owner wsol mint tp sp amount)"
    "keeps P (close_token_account R account destination authority tp None)"
    "keeps P (create_titan_pda_ata R payer titan mint ata tp sp)"
    "keeps P (create_user_ata R payer owner mint ata tp sp)"
    "keeps P (create_missing_ata R C m i created)"
    "keeps P (create_missing_atas R C m)"
    "keeps P (take_input R C ledger mint decs amount)"
proof -
  note defs = token_program_of_def transfer_tokens_def transfer_sol_and_sync_def setup_wsol_input_account_def
    close_token_account_def create_titan_pda_ata_def create_user_ata_def create_missing_ata_def
    create_missing_atas_def take_input_def
  show "keeps P (token_program_of C mint)"
    "keeps P (transfer_tokens R tp from to authority mint' amount decs None)"
    "keeps P (transfer_sol_and_sync R from wsol tp amount)"
    "keeps P (setup_wsol_input_account R payer owner wsol mint tp sp amount)"
    "keeps P (close_token_account R account destination authority tp None)"
    "keeps P (create_titan_pda_ata R payer titan mint ata tp sp)"
    "keeps P (create_user_ata R payer owner mint ata tp sp)"
    "keeps P (create_missing_ata R C m i created)"
    "keeps P (create_missing_atas R C m)"
    "keeps P (take_input R C ledger mint decs amount)"
    by (auto simp: defs Let_def intro!: assms keeps_bindS keeps_readS keeps_ok_orS keeps_liftS keeps_foldS
        split: option.splits sum.splits)
qed

lemma keeps_called [keeps_intros]:
  "keeps (called c) (create_missing_atas R C m)"
  "keeps (called c) (take_input R C ledger mint decs amount)"
  "keeps (called c) (run_leg R C reserved seeds swap i)"
  "keeps (called c) (pay_output R C reserved seeds j mint decs)"
  "keeps (called c) (close_created_atas R C m created seeds)"
proof -
  note unsigned = keeps_unsigned [where P = "called c" and R = R, OF keeps_called_cpi]
  show "keeps (called c) (create_missing_atas R C m)" "keeps (called c) (take_input R C ledger mint decs amount)"
    by (rule unsigned)+
  show "keeps (called c) (run_leg R C reserved seeds swap i)"
    "keeps (called c) (pay_output R C reserved seeds j mint decs)"
    "keeps (called c) (close_created_atas R C m created seeds)"
    by (auto simp: run_leg_def pay_output_def close_created_atas_def close_created_ata_def Let_def perform_cpi_swap_def
        transfer_tokens_def close_titan_pda_ata_def
        intro!: unsigned keeps_called_cpi keeps_bindS keeps_readS keeps_ok_orS keeps_requireS keeps_liftS keeps_foldS
        split: option.splits prog_venue.splits)
qed

lemma bit_push_one: "i < 16 \<Longrightarrow> bit (push_bit j 1 :: u16) i \<longleftrightarrow> i = j"
  by (auto simp: bit_exp_iff)

lemma keeps_bind_some:
  "(\<And>a. x = Some a \<Longrightarrow> keeps P (k a)) \<Longrightarrow> keeps P (bindS (ok_orS x e) k)"
  by (cases x) (auto simp: keeps_def ok_orS_def)

lemma keeps_bind_Ok: "(\<And>a. r = Ok a \<Longrightarrow> keeps P (k a)) \<Longrightarrow> keeps P (bindS (liftS r) k)"
  by (cases r) (auto simp: keeps_def liftS_def)

lemma keeps_allowed_venue:
  "set infos \<subseteq> set (ra_remaining C) \<Longrightarrow>
    keeps (calls_allowed C out K) (perform_cpi_swap R amount swap metas infos (titan_seeds C))"
  by (cases "ps_venue swap")
    (auto simp: perform_cpi_swap_def raydium_adapter_def huma_adapter_def Let_def
      intro!: keeps_bindS keeps_liftS keeps_allowed_cpi)

lemma keeps_allowed:
  "keeps (calls_allowed C out K) (run_leg R C reserved (titan_seeds C) swap i)"
  "keeps (calls_allowed C out K) (pay_output R C reserved (titan_seeds C) out mint decs)"
  "m \<le> 16 \<Longrightarrow> (\<And>i. i < m \<Longrightarrow> bit created i \<Longrightarrow> i \<in> K) \<Longrightarrow>
    keeps (calls_allowed C out K) (close_created_atas R C m created (titan_seeds C))"
proof -
  note unsigned = keeps_unsigned [where P = "calls_allowed C out K" and R = R, OF keeps_allowed_cpi [OF disjI1]]
  note intros = unsigned keeps_allowed_cpi keeps_bindS keeps_readS keeps_ok_orS keeps_requireS keeps_liftS keeps_foldS
  show "keeps (calls_allowed C out K) (run_leg R C reserved (titan_seeds C) swap i)"
    by (auto simp: run_leg_def Let_def slice_p_eq_Inr
        intro!: keeps_bind_Ok keeps_allowed_venue intros dest!: in_set_takeD in_set_dropD)
  show "keeps (calls_allowed C out K) (pay_output R C reserved (titan_seeds C) out mint decs)"
    by (auto simp: pay_output_def Let_def transfer_tokens_def get_eq_Some
        intro!: keeps_bind_some unsigned keeps_allowed_cpi keeps_readS keeps_ok_orS keeps_requireS keeps_liftS keeps_bindS
        split: option.splits)
  assume m: "m \<le> 16" "\<And>i. i < m \<Longrightarrow> bit created i \<Longrightarrow> i \<in> K"
  then have "i \<in> K" if "i < m" "created AND push_bit i 1 \<noteq> 0" for i
    using that by (simp add: push_bit_eq_mult and_exp_eq_0_iff_not_bit)
  then show "keeps (calls_allowed C out K) (close_created_atas R C m created (titan_seeds C))"
    by (auto simp: close_created_atas_def close_created_ata_def close_titan_pda_ata_def get_eq_Some shl_p_eq_Inr
        simp del: push_bit_of_1
        intro!: keeps_bind_some keeps_bind_Ok unsigned keeps_allowed_cpi keeps_readS keeps_liftS keeps_bindS
          keeps_foldS) blast
qed

lemma cpi_called: "cpi R c s = (Ok u, s') \<Longrightarrow> called c s'"
  by (auto simp: cpi_def called_def split: sum.splits)

lemma create_missing_ata_Ok:
  assumes "create_missing_ata R C m j created s = (Ok c1, s1)" "c1 \<noteq> created"
  obtains tp where "c1 = created OR push_bit j 1" "called (Invoke
      (rt_create_ata R (ai_key (ra_payer C)) (ai_key (ra_titan_pda C)) (ai_key (ra_remaining C ! (m + j))) (ai_key tp))
      [ra_payer C, ra_remaining C ! j, ra_titan_pda C, ra_remaining C ! (m + j), ra_system_program C, tp] []) s1"
proof -
  from assms obtain tp s2 where "c1 = created OR push_bit j 1" "s1 = s2"
    "cpi R (Invoke
      (rt_create_ata R (ai_key (ra_payer C)) (ai_key (ra_titan_pda C)) (ai_key (ra_remaining C ! (m + j))) (ai_key tp))
      [ra_payer C, ra_remaining C ! j, ra_titan_pda C, ra_remaining C ! (m + j), ra_system_program C, tp] []) s = (Ok (), s2)"
    by (auto simp: create_missing_ata_def bindS_eq_Inr ok_orS_eq_Inr readS_eq_Inr liftS_eq_Inr get_eq_Some shl_p_eq_Inr
        create_titan_pda_ata_def token_program_of_def split: if_splits)
  then show thesis using that cpi_called by blast
qed

lemma created_calls:
  assumes "foldS (create_missing_ata R C m) is created s = (Ok created', s')" "m \<le> length (ra_remaining C)"
    and "\<forall>i\<in>set is. m + i < length (ra_remaining C)" "bit created' i" "i < 16"
  shows "bit created i \<or> i \<in> set is \<and> (\<exists>tp. called (Invoke
      (rt_create_ata R (ai_key (ra_payer C)) (ai_key (ra_titan_pda C)) (ai_key (ra_remaining C ! (m + i))) (ai_key tp))
      [ra_payer C, ra_remaining C ! i, ra_titan_pda C, ra_remaining C ! (m + i), ra_system_program C, tp] []) s')"
  using assms
proof (induction "is" arbitrary: created s)
  case (Cons j "is")
  then obtain c1 s1 where step: "create_missing_ata R C m j created s = (Ok c1, s1)"
    and rest: "foldS (create_missing_ata R C m) is c1 s1 = (Ok created', s')"
    by (auto simp: bindS_eq_Inr)
  from Cons.IH [OF rest] Cons.prems have ih: "bit c1 i \<or> i \<in> set is \<and> (\<exists>tp. called (Invoke
      (rt_create_ata R (ai_key (ra_payer C)) (ai_key (ra_titan_pda C)) (ai_key (ra_remaining C ! (m + i))) (ai_key tp))
      [ra_payer C, ra_remaining C ! i, ra_titan_pda C, ra_remaining C ! (m + i), ra_system_program C, tp] []) s')" by auto
  show ?case
  proof (cases "c1 = created")
    case True
    then show ?thesis using ih by auto
  next
    case False
    with step obtain tp where c1: "c1 = created OR push_bit j 1" and now: "called (Invoke
      (rt_create_ata R (ai_key (ra_payer C)) (ai_key (ra_titan_pda C)) (ai_key (ra_remaining C ! (m + j))) (ai_key tp))
      [ra_payer C, ra_remaining C ! j, ra_titan_pda C, ra_remaining C ! (m + j), ra_system_program C, tp] []) s1"
      by (rule create_missing_ata_Ok)
    have "keeps (called c) (foldS (create_missing_ata R C m) is c1)" for c
      by (intro keeps_foldS keeps_unsigned keeps_called_cpi)
    from keeps_stepD [OF this rest now] show ?thesis
      using ih Cons.prems(5) by (auto simp: c1 bit_or_iff bit_push_one simp del: push_bit_of_1)
  qed
qed (simp add: liftS_def)

text \<open>An invariant of every operation after the input, or after the creation loop, holds at the end.\<close>

lemma keeps_after_input:
  assumes "foldS (run_leg R C reserved seeds) swaps i s2 = (Ok n, s3)"
    and "pay_output R C reserved seeds j output_mint d2 s3 = (Ok (), s4)"
    and "close_created_atas R C m created seeds s4 = (Ok (), s')"
    and "\<And>swap i. keeps P (run_leg R C reserved seeds swap i)"
    and "keeps P (pay_output R C reserved seeds j output_mint d2)" "keeps P (close_created_atas R C m created seeds)"
    and "P s2"
  shows "P s'"
proof -
  have "P s3" using keeps_foldS [OF assms(4)] assms(1,7) by (rule keeps_stepD)
  with assms(5,2) have "P s4" by (rule keeps_stepD)
  with assms(6,3) show ?thesis by (rule keeps_stepD)
qed

lemma keeps_route_tail:
  assumes "take_input R C ledger input_mint d1 input s1 = (Ok (), s2)"
    and "foldS (run_leg R C reserved seeds) swaps i s2 = (Ok n, s3)"
    and "pay_output R C reserved seeds j output_mint d2 s3 = (Ok (), s4)"
    and "close_created_atas R C m created seeds s4 = (Ok (), s')"
    and "keeps P (take_input R C ledger input_mint d1 input)" "\<And>swap i. keeps P (run_leg R C reserved seeds swap i)"
    and "keeps P (pay_output R C reserved seeds j output_mint d2)" "keeps P (close_created_atas R C m created seeds)"
    and "P s1"
  shows "P s'"
proof (rule keeps_after_input [OF assms(2-4,6-8)])
  show "P s2" by (rule keeps_stepD [OF assms(5,1,9)])
qed

text \<open>
  C7: in a route that succeeds, the PDA's signature goes to three kinds of calls only: an
  instruction of one of the two venues over accounts of the route; the payment from its
  output account to the user's; and the closing, rent to the payer, of a mint's account
  that this same route created.
\<close>

theorem route_pda_signatures:
  assumes "execute R C amount mints swaps s = (Ok (), s')" "rs_calls s = []" "c \<in> set (rs_calls s')"
  shows "call_seeds c = [] \<or> call_seeds c = titan_seeds C \<and>
    (case c of
       Invoke ix infos _ \<Rightarrow>
         ix_program_id ix \<in> {RAYDIUM_ADAPTER_PROGRAM_ID, HUMA_ADAPTER_PROGRAM_ID} \<and> set infos \<subseteq> set (ra_remaining C)
     | Transfer _ from to authority _ _ \<Rightarrow>
         from = ra_remaining C ! unat (ps_to (last swaps)) \<and> to = ra_output_token_account C \<and> authority = ra_titan_pda C
     | TransferChecked _ from _ to authority _ _ _ \<Rightarrow>
         from = ra_remaining C ! unat (ps_to (last swaps)) \<and> to = ra_output_token_account C \<and> authority = ra_titan_pda C
     | CloseAccount _ account destination authority _ \<Rightarrow>
         destination = ra_payer C \<and> authority = ra_titan_pda C \<and>
         (\<exists>i<unat mints. account = ra_remaining C ! i \<and> (\<exists>tp. Invoke
            (rt_create_ata R (ai_key (ra_payer C)) (ai_key (ra_titan_pda C))
              (ai_key (ra_remaining C ! (unat mints + i))) (ai_key tp))
            [ra_payer C, account, ra_titan_pda C, ra_remaining C ! (unat mints + i), ra_system_program C, tp] []
            \<in> set (rs_calls s'))))"
proof -
  let ?m = "unat mints" and ?out = "unat (ps_to (last swaps))"
  obtain ledger input_mint output_mint d1 d2 created s1 bitmap balances reserved input s2 n s3 s4 where *:
    "check_route_input C mints swaps = Ok ()"
    "create_missing_atas R C ?m s = (Ok created, s1)"
    "take_input R C ledger input_mint d1 input s1 = (Ok (), s2)"
    "foldS (run_leg R C reserved (titan_seeds C)) swaps (2 * ?m) s2 = (Ok n, s3)"
    "pay_output R C reserved (titan_seeds C) ?out output_mint d2 s3 = (Ok (), s4)"
    "close_created_atas R C ?m created (titan_seeds C) s4 = (Ok (), s')"
    by (rule execute_Ok [OF assms(1)])
  have len: "?m \<le> 16" "2 * ?m \<le> length (ra_remaining C)"
    using *(1) by (simp_all add: check_route_input_Ok MAX_MINTS_def)
  define K where "K = {i. i < ?m \<and> bit created i}"
  note unsigned = keeps_unsigned [where P = "calls_allowed C ?out K" and R = R, OF keeps_allowed_cpi [OF disjI1]]
  have "calls_allowed C ?out K s" using assms(2) by (simp add: calls_allowed_def)
  with unsigned(9) *(2) have s1: "calls_allowed C ?out K s1" by (rule keeps_stepD)
  have close: "keeps (calls_allowed C ?out K) (close_created_atas R C ?m created (titan_seeds C))"
    using len(1) by (intro keeps_allowed(3)) (auto simp: K_def)
  have allowed: "calls_allowed C ?out K s'"
    by (rule keeps_route_tail [where P = "calls_allowed C ?out K", OF *(3-6) unsigned(10) keeps_allowed(1,2) close s1]) simp
  have later: "called c' s'" if "called c' s1" for c'
    by (rule keeps_route_tail [OF *(3-6) keeps_called(2-5) that])
  have "\<exists>tp. called (Invoke
      (rt_create_ata R (ai_key (ra_payer C)) (ai_key (ra_titan_pda C)) (ai_key (ra_remaining C ! (?m + i))) (ai_key tp))
      [ra_payer C, ra_remaining C ! i, ra_titan_pda C, ra_remaining C ! (?m + i), ra_system_program C, tp] []) s'"
    if "i \<in> K" for i
    using created_calls [OF *(2) [unfolded create_missing_atas_def], of i] that len later by (fastforce simp: K_def)
  then show ?thesis using allowed assms(3)
    by (cases c) (fastforce simp: calls_allowed_def called_def K_def)+
qed

theorem route_pda_signatures_witness:
  "\<exists>s'. execute sample_runtime (sample_accounts None) 50 2 [sample_swap] sample_start = (Ok (), s') \<and>
    (\<forall>tp account destination authority.
      CloseAccount tp account destination authority (titan_seeds (sample_accounts None)) \<in> set (rs_calls s') \<longrightarrow>
      destination = ra_payer (sample_accounts None))"
proof -
  obtain s' where run: "execute sample_runtime (sample_accounts None) 50 2 [sample_swap] sample_start = (Ok (), s')"
    using sample_execute by blast
  have "titan_seeds (sample_accounts None) \<noteq> []" by (simp add: titan_seeds_def)
  then show ?thesis using run route_pda_signatures [OF run] by fastforce
qed

section \<open>The token ledger\<close>

lemma transfer_called:
  assumes "transfer_tokens R tp from to authority (Some mint) amount d None s = (Ok (), s')" "amount \<noteq> 0"
  shows "called (Transfer tp from to authority amount []) s' \<or>
    called (TransferChecked tp from mint to authority amount d []) s'"
  using assms cpi_called by (fastforce simp: transfer_tokens_def ok_orS_def split: if_splits)

lemma take_input_called:
  assumes "take_input R C ledger input_mint d amount s = (Ok (), s')" "amount \<noteq> 0"
  shows "\<exists>tp. called (Transfer tp (ra_input_token_account C) (ra_remaining C ! 0) (ra_user C) amount []) s' \<or>
    called (TransferChecked tp (ra_input_token_account C) input_mint (ra_remaining C ! 0) (ra_user C) amount d []) s'"
proof -
  obtain tp b s1 s2 where moved: "transfer_tokens R tp (ra_input_token_account C) (ra_remaining C ! 0) (ra_user C)
      (Some input_mint) amount d None s1 = (Ok (), s2)"
    and close: "(if b then close_token_account R (ra_input_token_account C) (ra_payer C) (ra_user C) tp None
      else liftS (Ok ())) s2 = (Ok (), s')"
    using assms(1) by (auto simp: take_input_def bindS_eq_Inr ok_orS_eq_Inr get_eq_Some)
  have "keeps (called c) (if b then close_token_account R (ra_input_token_account C) (ra_payer C) (ra_user C) tp None
      else liftS (Ok ()))" for c
    by (simp add: keeps_unsigned keeps_called_cpi keeps_liftS)
  note keep = keeps_stepD [OF this close]
  from transfer_called [OF moved assms(2)] keep show ?thesis by blast
qed

lemma read_token_ledger_Ok:
  "read_token_ledger st (Some l) a = Ok r \<longleftrightarrow>
    48 \<le> length (acc_data (st (ai_key l))) \<and> key_at (acc_data (st (ai_key l))) 8 = ai_key a \<and>
    r = Some (u64_at (acc_data (st (ai_key l))) 40)"
  by (auto simp: read_token_ledger_def Let_def res_inv get_range_def key_at_def u64_at_def slice_def)

text \<open>
  C17: with a token ledger the amount argument is ignored: the ledger must name the input
  account, and the user pays exactly what that account gained over the recorded balance,
  a positive amount, with the user's own authority.
\<close>

theorem token_ledger_amount:
  assumes "execute R C amount mints swaps s = (Ok (), s')" "ra_token_ledger C = Some l"
  shows "\<exists>delta created s1 tp d. create_missing_atas R C (unat mints) s = (Ok created, s1) \<and>
    key_at (acc_data (rs_store s (ai_key l))) 8 = ai_key (ra_input_token_account C) \<and>
    unat (token_amount_or_0 (rs_store s1) (ra_input_token_account C)) =
      unat (u64_at (acc_data (rs_store s (ai_key l))) 40) + unat delta \<and> 0 < delta \<and>
    (Transfer tp (ra_input_token_account C) (ra_remaining C ! 0) (ra_user C) delta [] \<in> set (rs_calls s') \<or>
     TransferChecked tp (ra_input_token_account C) (ra_remaining C ! unat mints) (ra_remaining C ! 0) (ra_user C) delta d []
       \<in> set (rs_calls s'))"
proof -
  obtain ledger input_mint output_mint d1 d2 created s1 bitmap balances reserved input s2 n s3 s4 where *:
    "read_token_ledger (rs_store s) (ra_token_ledger C) (ra_input_token_account C) = Ok ledger"
    "get (ra_remaining C) (unat mints) = Some input_mint"
    "create_missing_atas R C (unat mints) s = (Ok created, s1)"
    "effective_amount (rs_store s1) C amount ledger = Ok input"
    "take_input R C ledger input_mint d1 input s1 = (Ok (), s2)"
    "foldS (run_leg R C reserved (titan_seeds C)) swaps (2 * unat mints) s2 = (Ok n, s3)"
    "pay_output R C reserved (titan_seeds C) (unat (ps_to (last swaps))) output_mint d2 s3 = (Ok (), s4)"
    "close_created_atas R C (unat mints) created (titan_seeds C) s4 = (Ok (), s')"
    by (rule execute_Ok [OF assms(1)])
  let ?stored = "u64_at (acc_data (rs_store s (ai_key l))) 40"
  have read: "key_at (acc_data (rs_store s (ai_key l))) 8 = ai_key (ra_input_token_account C)" "ledger = Some ?stored"
    using *(1) by (simp_all add: assms(2) read_token_ledger_Ok)
  obtain current where current: "extract_token_amount (rs_store s1) (ra_input_token_account C) = Ok current"
    "?stored \<le> current" "input = current - ?stored" "0 < input"
    using *(4) by (auto simp: effective_amount_def read(2) res_inv checked_sub_eq_Some)
  have sum: "unat current = unat ?stored + unat input"
    using current(2) by (simp add: current(3) unat_sub_le word_le_nat_alt)
  obtain tp where moved: "called (Transfer tp (ra_input_token_account C) (ra_remaining C ! 0) (ra_user C) input []) s2 \<or>
    called (TransferChecked tp (ra_input_token_account C) input_mint (ra_remaining C ! 0) (ra_user C) input d1 []) s2"
    using take_input_called [OF *(5)] current(4) by auto
  have later: "called c s'" if "called c s2" for c
    by (rule keeps_after_input [OF *(6-8) keeps_called(3-5) that])
  have "input_mint = ra_remaining C ! unat mints" using *(2) by (simp add: get_eq_Some)
  with later moved have "Transfer tp (ra_input_token_account C) (ra_remaining C ! 0) (ra_user C) input [] \<in> set (rs_calls s') \<or>
     TransferChecked tp (ra_input_token_account C) (ra_remaining C ! unat mints) (ra_remaining C ! 0) (ra_user C) input d1 []
       \<in> set (rs_calls s')" by (auto simp: called_def)
  with *(3) read(1) sum current(4) token_amount_Ok [OF current(1)] show ?thesis by blast
qed

theorem token_ledger_amount_witness:
  "\<exists>s'. execute sample_runtime (sample_accounts (Some (sample_info 15))) 7 2 [sample_swap] sample_start = (Ok (), s') \<and>
    (\<exists>c\<in>set (rs_calls s'). call_seeds c = [])"
proof -
  obtain s' where run: "execute sample_runtime (sample_accounts (Some (sample_info 15))) 7 2 [sample_swap] sample_start = (Ok (), s')"
    using sample_execute_ledger by blast
  from token_ledger_amount [OF run] have "\<exists>c\<in>set (rs_calls s'). call_seeds c = []"
    by (simp add: sample_accounts_def) (metis call_seeds.simps(2,3))
  with run show ?thesis by blast
qed

end
