(* ===== verification/Route_Legs.thy ===== *)
theory Route_Legs
  imports Route_Effects
begin

text \<open>
  A leg from end to end: built off-chain from a venue's swap instruction, rebuilt on-chain
  by the program from the accounts it receives.
\<close>

section \<open>The accounts of a leg\<close>

text \<open>The info the program receives for an account of the transaction.\<close>

definition info_of :: "account_meta \<Rightarrow> account_info" where
  "info_of a = \<lparr>ai_key = am_pubkey a, ai_is_signer = is_signer a, ai_is_writable = is_writable a\<rparr>"

lemma rebuilt_metas:
  assumes "\<forall>a\<in>set (ix_accounts ix). am_pubkey a = titan \<longrightarrow> is_signer a"
    and "accounts = assemble_leg_accounts ix titan p"
  shows "leg_account_metas titan (map info_of accounts) (length accounts) = Ok (ix_accounts ix)"
proof -
  have "leg_account_metas titan (map info_of accounts) (length accounts) = Ok
      (map (\<lambda>a. \<lparr>am_pubkey = am_pubkey a, is_signer = am_pubkey a = titan \<or> is_signer a, is_writable = is_writable a\<rparr>)
        (ix_accounts ix))"
    by (auto simp: assms(2) leg_account_metas_def assemble_leg_accounts_def info_of_def take_map)
  also have "map (\<lambda>a. \<lparr>am_pubkey = am_pubkey a, is_signer = am_pubkey a = titan \<or> is_signer a,
      is_writable = is_writable a\<rparr>) (ix_accounts ix) = map id (ix_accounts ix)"
    using assms(1) by (intro map_cong) auto
  finally show ?thesis by simp
qed

lemma perform_single:
  "perform_cpi_swap R amount swap metas infos seeds = cpi R (Invoke ix infos seeds)"
  if "(case ps_venue swap of ProgRaydiumAmm \<Rightarrow> raydium_adapter amount metas
       | ProgHuma d \<Rightarrow> huma_adapter d amount metas) = [ix]"
  using that by (auto simp: perform_cpi_swap_def Let_def bindS_def liftS_def fun_eq_iff split: prod.splits sum.splits)

section \<open>Raydium\<close>

lemma raydium_adapter_parity:
  assumes "raydium_generate_swap_instruction X v r user = Ok ix"
  shows "\<exists>ix'. raydium_generate_swap_instruction X v (r\<lparr>req_amount := amount\<rparr>) user = Ok ix' \<and>
    raydium_adapter amount (ix_accounts ix) = [ix']"
  using assms
  by (auto simp: raydium_generate_swap_instruction_def Let_def swap_v2_def swap_base_in_v2_def raydium_adapter_def
      RAYDIUM_ADAPTER_PROGRAM_ID_def RAYDIUM_AMM_PROGRAM_ID_def)

section \<open>Huma\<close>

lemma huma_adapter_parity:
  fixes X :: "'x huma_ext_scheme"
  assumes "huma_generate_swap_instruction X v r user = Ok ix" "hv_state v = Some s"
    and hash: "get_range (hashv X [ascii ''global:'', ascii ''deposit'']) 0 8 = Some DEPOSIT_DISCRIMINATOR"
      "get_range (hashv X [ascii ''global:'', ascii ''instant_withdraw'']) 0 8 = Some INSTANT_WITHDRAW_DISCRIMINATOR"
  shows "\<exists>ix'. huma_generate_swap_instruction X v (r\<lparr>req_amount := amount\<rparr>) user = Ok ix' \<and>
    huma_adapter (req_input_mint r = pcf_underlying_mint (is_pool_config s)) amount (ix_accounts ix) = [ix']"
proof -
  have pack: "huma_pack X (Deposit a) = (Ok (DEPOSIT_DISCRIMINATOR @ to_le_bytes a @ to_le_bytes (13 :: u32) @
      ADAPTER_NO_COMMITMENT @ [0]) :: (venue_error, u8 list) res)"
    "huma_pack X (InstantWithdraw a b) = (Ok (INSTANT_WITHDRAW_DISCRIMINATOR @ to_le_bytes a @ to_le_bytes b) ::
      (venue_error, u8 list) res)" for a b
    using hash by (simp_all add: anchor_instruction_discriminator_def anchor_discriminator_def DISCRIMINATOR_LEN_def
        borsh_string_def borsh_bool_def NO_COMMITMENT_def ADAPTER_NO_COMMITMENT_def)
  have program: "HUMA_ADAPTER_PROGRAM_ID = PROGRAM_ID" by (simp add: HUMA_ADAPTER_PROGRAM_ID_def PROGRAM_ID_def)
  have len: "length ADAPTER_NO_COMMITMENT = 13" by (simp add: ADAPTER_NO_COMMITMENT_def)
  have exact: "req_swap_type r = ExactIn"
    using assms(1) by (cases "req_swap_type r") (simp_all add: huma_generate_swap_instruction_def)
  obtain d where d: "huma_swap_direction v (req_input_mint r) (req_output_mint r) = Ok d"
    using assms(1) exact by (auto simp: huma_generate_swap_instruction_def bindR_eq_Inr)
  have dep: "d = DepositDirection \<longleftrightarrow> req_input_mint r = pcf_underlying_mint (is_pool_config s)"
    using d assms(2) by (auto simp: huma_swap_direction_def venue_state_def Let_def split: if_splits)
  show ?thesis
  proof (cases d)
    case DepositDirection
    then show ?thesis
      using assms(1) d dep exact
      by (auto simp: huma_generate_swap_instruction_def bindR_eq_Inr pack huma_adapter_def Let_def program len
          simp del: huma_pack.simps)
  next
    case InstantWithdrawDirection
    then show ?thesis
      using assms(1) d dep exact
      by (auto simp: huma_generate_swap_instruction_def bindR_eq_Inr pack huma_adapter_def Let_def program
          simp del: huma_pack.simps)
  qed
qed

section \<open>A leg from end to end\<close>

text \<open>
  C26: for the accounts that the builder assembles from the Raydium venue's instruction,
  and whatever amount the route allots to the leg, the program calls the pool with exactly
  the instruction the venue would have built for that amount: the same program, accounts
  in the same order with the PDA's signature restored, and the same data. The slice that drops
  the venue's program from the leg does not panic.
\<close>

theorem raydium_leg_rebuilt:
  assumes "build_swap_leg (raydium_trading_venue X iter v) r titan i j w = Ok (spec, accounts)"
    and "raydium_generate_swap_instruction X v r titan = Ok ix"
    and "\<forall>a\<in>set (ix_accounts ix). am_pubkey a = titan \<longrightarrow> is_signer a"
  shows "\<exists>ix' metas. raydium_generate_swap_instruction X v (r\<lparr>req_amount := amount\<rparr>) titan = Ok ix' \<and>
    leg_account_metas titan (map info_of accounts) (length accounts) = Ok metas \<and>
    perform_cpi_swap R amount (on_chain_swap spec) metas (map info_of accounts) seeds =
      cpi R (Invoke ix' (map info_of accounts) seeds)"
proof -
  have acc: "accounts = assemble_leg_accounts ix titan RAYDIUM_AMM_PROGRAM_ID" and "sp_venue spec = RouteRaydiumAmm"
    using build_leg_Ok [OF assms(1)] assms(2)
    by (fastforce simp: raydium_trading_venue_def protocol_to_venue_def)+
  then have venue: "ps_venue (on_chain_swap spec) = ProgRaydiumAmm" by (simp add: on_chain_swap_def)
  note metas = rebuilt_metas [OF assms(3) acc]
  obtain ix' where "raydium_generate_swap_instruction X v (r\<lparr>req_amount := amount\<rparr>) titan = Ok ix'"
    "raydium_adapter amount (ix_accounts ix) = [ix']"
    using raydium_adapter_parity [OF assms(2)] by blast
  then show ?thesis by (simp add: perform_single venue metas)
qed

theorem raydium_leg_rebuilt_witness:
  "\<exists>spec accounts ix'. build_swap_leg (raydium_trading_venue sample_ext (\<lambda>_. []) sample_venue) (exact_in_request 2 3 100)
      99 0 1 5 = Ok (spec, accounts) \<and>
    raydium_generate_swap_instruction sample_ext sample_venue ((exact_in_request 2 3 100)\<lparr>req_amount := 40\<rparr>) 99 = Ok ix' \<and>
    (\<exists>metas. leg_account_metas 99 (map info_of accounts) (length accounts) = Ok metas \<and>
      perform_cpi_swap sample_runtime 40 (on_chain_swap spec) metas
      (map info_of accounts) [] = cpi sample_runtime (Invoke ix' (map info_of accounts) []))"
proof -
  obtain ix where ix: "raydium_generate_swap_instruction sample_ext sample_venue (exact_in_request 2 3 100) 99 = Ok ix"
    "\<forall>a\<in>set (ix_accounts ix). am_pubkey a = 99 \<longrightarrow> is_signer a"
    by (simp add: raydium_generate_swap_instruction_def Let_def swap_v2_def swap_base_in_v2_def sample_venue_def
        sample_ext_def exact_in_request_def meta_new_def meta_readonly_def TOKEN_PROGRAM_ID_def)
  then obtain spec accounts where b: "build_swap_leg (raydium_trading_venue sample_ext (\<lambda>_. []) sample_venue)
      (exact_in_request 2 3 100) 99 0 1 5 = Ok (spec, accounts)"
    by (simp add: build_swap_leg_def raydium_trading_venue_def protocol_to_venue_def Let_def)
  from raydium_leg_rebuilt [OF b ix] b show ?thesis by blast
qed

text \<open>
  C6: the same for a Huma leg, whose direction the program knows from the selector only;
  the discriminators are the first bytes of the hashes of the instruction names.
\<close>

theorem huma_leg_rebuilt:
  fixes X :: "'x huma_ext_scheme"
  assumes "build_swap_leg (huma_trading_venue X v) r titan i j w = Ok (spec, accounts)"
    and "huma_generate_swap_instruction X v r titan = Ok ix" "hv_state v = Some s"
    and "\<forall>a\<in>set (ix_accounts ix). am_pubkey a = titan \<longrightarrow> is_signer a"
    and "map ti_pubkey (is_token_info s) = [pcf_underlying_mint (is_pool_config s), hv_mode_mint_key v]"
    and "get_range (hashv X [ascii ''global:'', ascii ''deposit'']) 0 8 = Some DEPOSIT_DISCRIMINATOR"
    and "get_range (hashv X [ascii ''global:'', ascii ''instant_withdraw'']) 0 8 = Some INSTANT_WITHDRAW_DISCRIMINATOR"
  shows "\<exists>ix' metas. huma_generate_swap_instruction X v (r\<lparr>req_amount := amount\<rparr>) titan = Ok ix' \<and>
    leg_account_metas titan (map info_of accounts) (length accounts) = Ok metas \<and>
    perform_cpi_swap R amount (on_chain_swap spec) metas (map info_of accounts) seeds =
      cpi R (Invoke ix' (map info_of accounts) seeds)"
proof -
  have acc: "accounts = assemble_leg_accounts ix titan PROGRAM_ID"
    and "protocol_to_venue (huma_trading_venue X v) r = Ok (sp_venue spec)"
    using build_leg_Ok [OF assms(1)] assms(2) by (fastforce simp: huma_trading_venue_def)+
  moreover have "get_token (huma_trading_venue X v) 0 = Ok (hd (is_token_info s))"
    "ti_pubkey (hd (is_token_info s)) = pcf_underlying_mint (is_pool_config s)"
    using assms(3,5) by (cases "is_token_info s"; simp add: get_token_def get_def huma_trading_venue_def)+
  ultimately have venue: "ps_venue (on_chain_swap spec) = ProgHuma (req_input_mint r = pcf_underlying_mint (is_pool_config s))"
    by (simp add: on_chain_swap_def protocol_to_venue_def huma_trading_venue_def) (metis on_chain_venue.simps(2))
  note metas = rebuilt_metas [OF assms(4) acc]
  obtain ix' where "huma_generate_swap_instruction X v (r\<lparr>req_amount := amount\<rparr>) titan = Ok ix'"
    "huma_adapter (req_input_mint r = pcf_underlying_mint (is_pool_config s)) amount (ix_accounts ix) = [ix']"
    using huma_adapter_parity [OF assms(2,3,6,7)] by blast
  then show ?thesis by (simp add: perform_single venue metas)
qed

definition sample_hashed :: huma_ext where
  "sample_hashed = sample_huma\<lparr>hashv := (\<lambda>parts.
     (if parts = [ascii ''global:'', ascii ''deposit''] then DEPOSIT_DISCRIMINATOR else INSTANT_WITHDRAW_DISCRIMINATOR) @
     replicate 24 0)\<rparr>"

lemma sample_hashed_discriminators:
  "get_range (hashv sample_hashed [ascii ''global:'', ascii ''deposit'']) 0 8 = Some DEPOSIT_DISCRIMINATOR"
  "get_range (hashv sample_hashed [ascii ''global:'', ascii ''instant_withdraw'']) 0 8 = Some INSTANT_WITHDRAW_DISCRIMINATOR"
  by (simp_all add: sample_hashed_def get_range_def DEPOSIT_DISCRIMINATOR_def INSTANT_WITHDRAW_DISCRIMINATOR_def ascii_def)

theorem huma_leg_rebuilt_witness:
  "\<exists>spec accounts ix'. build_swap_leg (huma_trading_venue sample_hashed sample_huma_venue) (exact_in_request 14 5 100)
      99 0 1 5 = Ok (spec, accounts) \<and>
    huma_generate_swap_instruction sample_hashed sample_huma_venue ((exact_in_request 14 5 100)\<lparr>req_amount := 40\<rparr>) 99 = Ok ix' \<and>
    (\<exists>metas. leg_account_metas 99 (map info_of accounts) (length accounts) = Ok metas \<and>
      perform_cpi_swap sample_runtime 40 (on_chain_swap spec) metas
      (map info_of accounts) [] = cpi sample_runtime (Invoke ix' (map info_of accounts) []))"
proof -
  have "\<exists>ix. huma_generate_swap_instruction sample_hashed sample_huma_venue (exact_in_request 14 5 100) 99 = Ok ix \<and>
      (\<forall>a\<in>set (ix_accounts ix). am_pubkey a = 99 \<longrightarrow> is_signer a)"
    by (simp add: huma_generate_swap_instruction_def sample_direction deposit_account_metas_def venue_state_def Let_def
        anchor_instruction_discriminator_def anchor_discriminator_def DISCRIMINATOR_LEN_def sample_hashed_discriminators
        meta_new_def meta_readonly_def)
     (simp add: sample_state_def sample_pool_config_def sample_hashed_def sample_huma_def TOKEN_PROGRAM_ID_def
        sample_huma_venue_def huma_venue_new_def POOL_CONFIG_KEY_def derive_pool_state_def)
  then obtain ix where ix: "huma_generate_swap_instruction sample_hashed sample_huma_venue (exact_in_request 14 5 100) 99 = Ok ix"
    "\<forall>a\<in>set (ix_accounts ix). am_pubkey a = 99 \<longrightarrow> is_signer a" by blast
  have tokens: "map ti_pubkey (is_token_info sample_state) =
      [pcf_underlying_mint (is_pool_config sample_state), hv_mode_mint_key sample_huma_venue]"
    by (simp, simp add: sample_state_def sample_pool_config_def)
  obtain spec accounts where b: "build_swap_leg (huma_trading_venue sample_hashed sample_huma_venue)
      (exact_in_request 14 5 100) 99 0 1 5 = Ok (spec, accounts)"
    using ix(1) by (simp add: build_swap_leg_def huma_trading_venue_def protocol_to_venue_def get_token_def get_def Let_def)
      (simp add: sample_state_def)
  from huma_leg_rebuilt [OF b ix(1) sample_venue_simps(1) ix(2) tokens sample_hashed_discriminators] b
  show ?thesis by blast
qed

end
