(* ===== verification/F64_Bits.thy ===== *)
theory F64_Bits
  imports F64 Borsh
begin

text \<open>
  The bit pattern of a double (\<open>f64::from_bits\<close>, \<open>f64::to_bits\<close>) and its Borsh form: eight
  little-endian bytes, of which the patterns of NaN are refused on reading.
\<close>

definition f64_of_bits :: "u64 \<Rightarrow> f64" where
  "f64_of_bits b =
     (let n = unat b; s = (2 ^ 63 \<le> n); e = n div 2 ^ 52 mod 2048; m = n mod 2 ^ 52 in
      if e = 2047 then (if m = 0 then Infinite s else NaN)
      else
        let y = (if e = 0 then of_nat m * 2 powi (- 1074)
                 else of_nat (2 ^ 52 + m) * 2 powi (int e - 1075))
        in Finite (if s then - y else y))"

text \<open>
  The fields of a positive value: with \<open>m\<close> units of its binade, the exponent field counts from
  the subnormal binade, and the leading bit of a normal \<open>m\<close> carries into it.
\<close>

definition magnitude_bits :: "rat \<Rightarrow> nat" where
  "magnitude_bits x = nat (exponent x + 1074) * 2 ^ 52 + nat \<lfloor>x / 2 powi exponent x\<rfloor>"

definition sign_bit :: "bool \<Rightarrow> nat" where
  "sign_bit s = (if s then 2 ^ 63 else 0)"

fun bits_of_f64 :: "f64 \<Rightarrow> u64" where
  "bits_of_f64 NaN = 0x7FF8000000000000"
| "bits_of_f64 (Infinite s) = of_nat (sign_bit s + 2047 * 2 ^ 52)"
| "bits_of_f64 (Finite x) =
     (if x = 0 then 0 else of_nat (sign_bit (x < 0) + magnitude_bits \<bar>x\<bar>))"

text \<open>The values a double can hold, NaN apart.\<close>

fun is_double :: "f64 \<Rightarrow> bool" where
  "is_double NaN = False"
| "is_double (Infinite _) = True"
| "is_double (Finite x) = (round64 x = Finite x)"

lemma exponent_low: "- 1074 \<le> exponent x"
  by (simp add: exponent_def)

lemma representable_units:
  assumes "0 < x" "round64 x = Finite x"
  obtains m where "x = of_int m * 2 powi exponent x" "0 < m" "m < 2 ^ 53"
    "\<lfloor>x / 2 powi exponent x\<rfloor> = m" "m < 2 ^ 52 \<Longrightarrow> exponent x = - 1074" "exponent x < 972"
proof -
  let ?t = "exponent x"
  let ?m = "rne (x / 2 powi ?t)"
  have rp: "round_pos x = x" and small: "x < 2 ^ 1024"
    using assms by (auto simp: round64_def Let_def split: if_splits)
  have eq: "x = of_int ?m * 2 powi ?t" using rp by (simp add: round_pos_def)
  then have q: "x / 2 powi ?t = of_int ?m" by (metis nonzero_mult_div_cancel_right powi_pos less_irrefl)
  have lo: "2 powi log2_floor x \<le> x" and hi: "x < 2 powi (log2_floor x + 1)"
    using log2_floor_bounds [OF assms(1)] by auto
  have "x < 2 powi (?t + 53)"
    using hi powi_mono [of "log2_floor x + 1" "?t + 53"] by (simp add: exponent_def) linarith
  then have "of_int ?m < (of_int (2 ^ 53) :: rat)"
    using q powi_53 [of ?t] by (metis pos_divide_less_eq powi_pos)
  then have m53: "?m < 2 ^ 53" by (simp only: of_int_less_iff)
  have m0: "0 < ?m" using assms(1) eq by (metis of_int_pos zero_less_mult_pos2 powi_pos of_int_0_less_iff)
  have low: "?t = - 1074" if "?m < 2 ^ 52"
  proof (rule ccontr)
    assume "?t \<noteq> - 1074"
    then have "?t + 52 = log2_floor x" by (auto simp: exponent_def)
    then have "of_int (2 ^ 52) * 2 powi ?t \<le> x" using lo powi_52 [of ?t] by simp
    then have "of_int (2 ^ 52) \<le> (of_int ?m :: rat)" using q by (metis pos_le_divide_eq powi_pos)
    then have "2 ^ 52 \<le> ?m" by (simp only: of_int_le_iff)
    with that show False by simp
  qed
  have t: "?t < 972"
  proof (cases "?m < 2 ^ 52")
    case True
    then show ?thesis using low by simp
  next
    case False
    then have "(of_int (2 ^ 52) :: rat) \<le> of_int ?m" by (simp only: of_int_le_iff not_less)
    then have "of_int (2 ^ 52) * 2 powi ?t \<le> x"
      using q by (metis pos_le_divide_eq powi_pos)
    then have "2 powi (?t + 52) \<le> x" by (simp only: powi_52)
    also have "x < 2 powi 1024" using small by simp
    finally have "?t + 52 < 1024" by (rule powi_less_imp_less)
    then show ?thesis by simp
  qed
  have "\<lfloor>x / 2 powi ?t\<rfloor> = ?m" by (metis q floor_of_int)
  then show ?thesis using that eq m0 m53 low t by blast
qed

lemma of_bits_of_nat:
  assumes "e < 2047" "m < 2 ^ 52"
  shows "f64_of_bits (of_nat (sign_bit s + e * 2 ^ 52 + m)) =
    Finite ((if s then - 1 else 1) *
      (if e = 0 then of_nat m * 2 powi (- 1074) else of_nat (2 ^ 52 + m) * 2 powi (int e - 1075)))"
proof -
  let ?n = "sign_bit s + e * 2 ^ 52 + m"
  have low: "e * 2 ^ 52 + m < 2 ^ 63"
  proof -
    have "e * 2 ^ 52 \<le> 2046 * (2 ^ 52 :: nat)" using assms(1) by (intro mult_right_mono) auto
    with assms(2) show ?thesis by simp
  qed
  then have "?n < 2 ^ 64" by (simp add: sign_bit_def)
  then have n: "unat (of_nat ?n :: u64) = ?n" by (intro unat_of_nat_less) simp
  have s: "2 ^ 63 \<le> ?n \<longleftrightarrow> s" using low by (simp add: sign_bit_def)
  define k where "k = e + (if s then 2048 else 0)"
  have "?n = m + k * 2 ^ 52" by (simp add: sign_bit_def k_def)
  then have "?n div 2 ^ 52 = k" and m: "?n mod 2 ^ 52 = m"
    using assms(2) by (simp_all only: div_mult_self1 mod_mult_self1 div_less mod_less)
  then have d: "?n div 2 ^ 52 = e + (if s then 2048 else 0)" by (simp only: k_def)
  have e: "?n div 2 ^ 52 mod 2048 = e" unfolding d using assms(1) by simp
  show ?thesis
    using assms(1) unfolding f64_of_bits_def Let_def n s e m by simp
qed

lemma f64_bits_back: "is_double f \<Longrightarrow> f64_of_bits (bits_of_f64 f) = f"
proof (induction f rule: bits_of_f64.induct)
  case 1
  then show ?case by simp
next
  case (2 s)
  then show ?case by (cases s) (simp_all add: sign_bit_def f64_of_bits_def)
next
  case (3 x)
  show ?case
  proof (cases "x = 0")
    case True
    then show ?thesis by (simp add: f64_of_bits_def)
  next
    case False
    then have pos: "0 < \<bar>x\<bar>" by simp
    have "round64 \<bar>x\<bar> = Finite \<bar>x\<bar>"
      using 3 False by (auto simp: round64_def Let_def split: if_splits)
    from representable_units [OF pos this] obtain m where
      m: "\<bar>x\<bar> = of_int m * 2 powi exponent \<bar>x\<bar>" "0 < m" "m < 2 ^ 53"
        "\<lfloor>\<bar>x\<bar> / 2 powi exponent \<bar>x\<bar>\<rfloor> = m" "m < 2 ^ 52 \<Longrightarrow> exponent \<bar>x\<bar> = - 1074"
        "exponent \<bar>x\<bar> < 972" by metis
    let ?t = "exponent \<bar>x\<bar>"
    have sx: "x = (if x < 0 then - 1 else 1) * \<bar>x\<bar>" by simp
    have bits: "bits_of_f64 (Finite x) = of_nat (sign_bit (x < 0) + nat (?t + 1074) * 2 ^ 52 + nat m)"
      using False m(4) by (simp add: magnitude_bits_def add.assoc)
    show ?thesis
    proof (cases "m < 2 ^ 52")
      case True
      then have t: "?t = - 1074" using m(5) by simp
      have "f64_of_bits (bits_of_f64 (Finite x)) = Finite ((if x < 0 then - 1 else 1) * (of_nat (nat m) * 2 powi (- 1074)))"
        unfolding bits t using of_bits_of_nat [of 0 "nat m" "x < 0"] True m(2) by simp
      also have "of_nat (nat m) * 2 powi (- 1074) = \<bar>x\<bar>"
        using m(1,2) t by (simp add: of_nat_nat)
      finally show ?thesis using sx by simp
    next
      case big: False
      let ?e = "nat (?t + 1075)" and ?f = "nat m - 2 ^ 52"
      have t: "- 1074 \<le> ?t" by (rule exponent_low)
      have e: "?e < 2047" "?e \<noteq> 0" using m(6) t by auto
      have "nat m < 2 ^ 53" "2 ^ 52 \<le> nat m"
        using m(2,3) big by (simp_all add: nat_less_iff le_nat_iff)
      then have f: "?f < 2 ^ 52" and mf: "2 ^ 52 + ?f = nat m" by simp_all
      have te: "nat (?t + 1074) + 1 = ?e" using t by simp
      have "?e * 2 ^ 52 + ?f = nat (?t + 1074) * 2 ^ 52 + (2 ^ 52 + ?f)"
        by (subst te [symmetric]) (simp only: distrib_right mult_1 add.assoc)
      then have "bits_of_f64 (Finite x) = of_nat (sign_bit (x < 0) + ?e * 2 ^ 52 + ?f)"
        by (simp only: bits mf add.assoc)
      then have "f64_of_bits (bits_of_f64 (Finite x)) =
          Finite ((if x < 0 then - 1 else 1) * (of_nat (2 ^ 52 + ?f) * 2 powi (int ?e - 1075)))"
        by (simp only: of_bits_of_nat [OF e(1) f] e(2) if_False)
      also have "of_nat (2 ^ 52 + ?f) * 2 powi (int ?e - 1075) = \<bar>x\<bar>"
        unfolding mf using m(1,2) t by (simp add: of_nat_nat)
      finally show ?thesis using sx by simp
    qed
  qed
qed

text \<open>\<open>borsh\<close> reads and writes the bits, and refuses a NaN.\<close>

definition read_f64 :: "f64 reader" where
  "read_f64 = bindB read_u64 (\<lambda>b. if f64_of_bits b = NaN then failB else returnB (f64_of_bits b))"

definition f64_bytes :: "f64 \<Rightarrow> u8 list" where
  "f64_bytes f = to_le_bytes (bits_of_f64 f)"

lemma read_f64_bytes [read_back]: "is_double f \<Longrightarrow> read_f64 (f64_bytes f @ bs) = Some (f, bs)"
  by (auto simp: read_f64_def f64_bytes_def bindB_def f64_bits_back)

lemma stable_f64 [stable_intros]: "stable read_f64"
  unfolding read_f64_def by (intro stable_intros)

end
