(* ===== verification/Huma_Borsh.thy ===== *)
theory Huma_Borsh
  imports Huma_State F64_Bits
begin

text \<open>
  The bytes of the Huma accounts: for every account of \<open>huma/state.rs\<close> and the token reserve
  of \<open>strategy/jup_lend.rs\<close>, the reader and the writer that the Borsh derives give it, field by
  field in the order of the struct, as an interpretation of the locale \<open>codec\<close>, and its
  \<open>Default\<close>. The reserved tail of an account is skipped by the reader and written as zeros.
\<close>

abbreviation zeros :: "nat \<Rightarrow> u8 list" where
  "zeros n \<equiv> replicate n 0"

section \<open>Readers and writers\<close>

definition read_huma_config :: "huma_config reader" where
  "read_huma_config =
     bindB read_key (\<lambda>id.
     bindB read_u8 (\<lambda>bump.
     bindB read_key (\<lambda>owner.
     bindB read_key (\<lambda>treasury.
     bindB read_key (\<lambda>sentinel.
     bindB read_u16 (\<lambda>protocol_fee_bps.
     bindB read_bool (\<lambda>paused.
       returnB \<lparr>hc_id = id, hc_bump = bump, hc_owner = owner, hc_treasury = treasury,
         hc_sentinel = sentinel, hc_protocol_fee_bps = protocol_fee_bps, hc_paused = paused\<rparr>)))))))"

definition huma_config_bytes :: "huma_config \<Rightarrow> u8 list" where
  "huma_config_bytes r =
     key_bytes (hc_id r) @ [hc_bump r] @ key_bytes (hc_owner r) @ key_bytes (hc_treasury r) @
     key_bytes (hc_sentinel r) @ to_le_bytes (hc_protocol_fee_bps r) @
     borsh_bool (hc_paused r)"

definition read_lp_config :: "lp_config reader" where
  "read_lp_config =
     bindB read_u128 (\<lambda>liquidity_cap.
     bindB read_u64 (\<lambda>min_deposit_amount.
     bindB read_u64 (\<lambda>min_redemption_shares.
     bindB read_u128 (\<lambda>max_total.
     bindB read_u128 (\<lambda>max_instant.
     bindB (read_bytes 144) (\<lambda>_.
       returnB \<lparr>liquidity_cap = liquidity_cap, min_deposit_amount = min_deposit_amount,
         min_redemption_shares = min_redemption_shares,
         max_total_redemption_shares_per_window = max_total,
         max_instant_withdrawal_shares_per_window = max_instant\<rparr>))))))"

definition lp_config_bytes :: "lp_config \<Rightarrow> u8 list" where
  "lp_config_bytes r =
     to_le_bytes (liquidity_cap r) @ to_le_bytes (min_deposit_amount r) @
     to_le_bytes (min_redemption_shares r) @
     to_le_bytes (max_total_redemption_shares_per_window r) @
     to_le_bytes (max_instant_withdrawal_shares_per_window r) @ zeros 144"

definition read_fee_config :: "fee_config reader" where
  "read_fee_config =
     bindB read_u16 (\<lambda>ratio_bps.
     bindB read_u16 (\<lambda>fee_bps.
     bindB (read_bytes 160) (\<lambda>_.
       returnB \<lparr>liquid_asset_ratio_lt_bps = ratio_bps, fee_bps = fee_bps\<rparr>)))"

definition fee_config_bytes :: "fee_config \<Rightarrow> u8 list" where
  "fee_config_bytes r =
     to_le_bytes (liquid_asset_ratio_lt_bps r) @ to_le_bytes (fee_bps r) @ zeros 160"

definition read_withdrawal_config :: "withdrawal_config reader" where
  "read_withdrawal_config =
     bindB read_u64 (\<lambda>reserve_limit.
     bindB (read_vec read_fee_config) (\<lambda>fee_configs.
     bindB (read_option read_key) (\<lambda>liquidity_source.
     bindB (read_bytes 127) (\<lambda>_.
       returnB \<lparr>instant_withdrawal_reserve_limit = reserve_limit,
         instant_withdrawal_fee_configs = fee_configs, liquidity_source = liquidity_source\<rparr>))))"

definition withdrawal_config_bytes :: "withdrawal_config \<Rightarrow> u8 list" where
  "withdrawal_config_bytes r =
     to_le_bytes (instant_withdrawal_reserve_limit r) @
     borsh_vec fee_config_bytes (instant_withdrawal_fee_configs r) @
     borsh_option key_bytes (liquidity_source r) @ zeros 127"

definition read_pool_config :: "pool_config reader" where
  "read_pool_config =
     bindB read_u8 (\<lambda>bump.
     bindB read_key (\<lambda>huma_config.
     bindB read_key (\<lambda>pool_owner.
     bindB read_key (\<lambda>pool_owner_treasury.
     bindB read_key (\<lambda>underlying_mint.
     bindB read_u8 (\<lambda>pool_authority_bump.
     bindB read_key (\<lambda>pool_id.
     bindB read_string (\<lambda>pool_name.
     bindB read_lp_config (\<lambda>lp.
     bindB read_withdrawal_config (\<lambda>withdrawal.
     bindB (read_bytes 160) (\<lambda>_.
       returnB \<lparr>pcf_bump = bump, pcf_huma_config = huma_config, pcf_pool_owner = pool_owner,
         pcf_pool_owner_treasury = pool_owner_treasury,
         pcf_underlying_mint = underlying_mint,
         pcf_pool_authority_bump = pool_authority_bump, pcf_pool_id = pool_id,
         pcf_pool_name = pool_name, pcf_lp_config = lp,
         pcf_instant_withdrawal_config = withdrawal\<rparr>)))))))))))"

definition pool_config_bytes :: "pool_config \<Rightarrow> u8 list" where
  "pool_config_bytes r =
     [pcf_bump r] @ key_bytes (pcf_huma_config r) @ key_bytes (pcf_pool_owner r) @
     key_bytes (pcf_pool_owner_treasury r) @ key_bytes (pcf_underlying_mint r) @
     [pcf_pool_authority_bump r] @ key_bytes (pcf_pool_id r) @
     borsh_string (pcf_pool_name r) @ lp_config_bytes (pcf_lp_config r) @
     withdrawal_config_bytes (pcf_instant_withdrawal_config r) @ zeros 160"

text \<open>An enum is the index of its variant; another index is refused.\<close>

definition read_strategy_type :: "deployment_strategy_type reader" where
  "read_strategy_type = bindB read_u8 (\<lambda>tag.
     if tag = 0 then returnB Manual
     else if tag = 1 then returnB JupLendType
     else if tag = 2 then returnB KaminoLendType
     else failB)"

fun strategy_type_bytes :: "deployment_strategy_type \<Rightarrow> u8 list" where
  "strategy_type_bytes Manual = [0]"
| "strategy_type_bytes JupLendType = [1]"
| "strategy_type_bytes KaminoLendType = [2]"

definition read_deployment_config :: "deployment_config reader" where
  "read_deployment_config =
     bindB read_u8 (\<lambda>bump.
     bindB read_strategy_type (\<lambda>strategy_type.
     bindB read_key (\<lambda>target_key.
     bindB (read_bytes 160) (\<lambda>_.
       returnB \<lparr>dc_bump = bump, dc_strategy_type = strategy_type, dc_target_key = target_key\<rparr>))))"

definition deployment_config_bytes :: "deployment_config \<Rightarrow> u8 list" where
  "deployment_config_bytes r =
     [dc_bump r] @ strategy_type_bytes (dc_strategy_type r) @ key_bytes (dc_target_key r) @
     zeros 160"

definition read_pool_status :: "pool_status reader" where
  "read_pool_status = bindB read_u8 (\<lambda>tag.
     if tag = 0 then returnB Off
     else if tag = 1 then returnB On
     else if tag = 2 then returnB PreClosure
     else if tag = 3 then returnB Closed
     else failB)"

fun pool_status_bytes :: "pool_status \<Rightarrow> u8 list" where
  "pool_status_bytes Off = [0]"
| "pool_status_bytes On = [1]"
| "pool_status_bytes PreClosure = [2]"
| "pool_status_bytes Closed = [3]"

definition read_mode_state :: "mode_state reader" where
  "read_mode_state =
     bindB read_u128 (\<lambda>assets.
     bindB read_u128 (\<lambda>losses.
     bindB read_u128 (\<lambda>cumulative_yields.
     bindB read_u64 (\<lambda>assets_refreshed_at.
     bindB (read_bytes 160) (\<lambda>_.
       returnB \<lparr>ms_assets = assets, ms_losses = losses, ms_cumulative_yields = cumulative_yields,
         ms_assets_refreshed_at = assets_refreshed_at\<rparr>)))))"

definition mode_state_bytes :: "mode_state \<Rightarrow> u8 list" where
  "mode_state_bytes r =
     to_le_bytes (ms_assets r) @ to_le_bytes (ms_losses r) @
     to_le_bytes (ms_cumulative_yields r) @ to_le_bytes (ms_assets_refreshed_at r) @
     zeros 160"

definition read_redemption_gating :: "redemption_gating reader" where
  "read_redemption_gating =
     bindB read_u128 (\<lambda>total_shares_requested.
     bindB read_u64 (\<lambda>window_starts_at.
     bindB (read_bytes 80) (\<lambda>_.
       returnB \<lparr>total_shares_requested = total_shares_requested, window_starts_at = window_starts_at\<rparr>)))"

definition redemption_gating_bytes :: "redemption_gating \<Rightarrow> u8 list" where
  "redemption_gating_bytes r =
     to_le_bytes (total_shares_requested r) @ to_le_bytes (window_starts_at r) @ zeros 80"

definition read_redemption :: "redemption reader" where
  "read_redemption =
     bindB read_u128 (\<lambda>next_request_id.
     bindB read_u128 (\<lambda>last_request_id.
     bindB read_redemption_gating (\<lambda>global_gating.
     bindB read_redemption_gating (\<lambda>instant_gating.
     bindB (read_bytes 136) (\<lambda>_.
       returnB \<lparr>rd_next_request_id = next_request_id, rd_last_request_id = last_request_id,
         rd_global_redemption_gating = global_gating,
         rd_instant_withdrawal_gating = instant_gating\<rparr>)))))"

definition redemption_bytes :: "redemption \<Rightarrow> u8 list" where
  "redemption_bytes r =
     to_le_bytes (rd_next_request_id r) @ to_le_bytes (rd_last_request_id r) @
     redemption_gating_bytes (rd_global_redemption_gating r) @
     redemption_gating_bytes (rd_instant_withdrawal_gating r) @ zeros 136"

text \<open>\<open>PoolStats\<close> is held by the pool state as its two sums.\<close>

definition read_pool_stats :: "(u128 \<times> u128) reader" where
  "read_pool_stats =
     bindB read_u128 (\<lambda>deployed.
     bindB read_u128 (\<lambda>paid_back.
     bindB (read_bytes 160) (\<lambda>_.
       returnB (deployed, paid_back))))"

definition pool_stats_bytes :: "u128 \<times> u128 \<Rightarrow> u8 list" where
  "pool_stats_bytes r = to_le_bytes (fst r) @ to_le_bytes (snd r) @ zeros 160"

definition read_pool_state :: "pool_state reader" where
  "read_pool_state =
     bindB read_u8 (\<lambda>bump.
     bindB read_pool_status (\<lambda>status.
     bindB read_u128 (\<lambda>disbursement.
     bindB (read_vec read_mode_state) (\<lambda>mode_states.
     bindB (read_vec read_key) (\<lambda>mode_config_keys.
     bindB read_redemption (\<lambda>redemption.
     bindB read_pool_stats (\<lambda>(deployed, paid_back).
     bindB read_u64 (\<lambda>liquid.
     bindB (read_bytes 152) (\<lambda>_.
       returnB \<lparr>ps_bump = bump, ps_status = status, ps_disbursement_reserve = disbursement,
         ps_mode_states = mode_states, ps_mode_config_keys = mode_config_keys,
         ps_redemption = redemption, ps_cumulative_amount_deployed = deployed,
         ps_cumulative_amount_paid_back = paid_back, ps_liquid_assets_deployed = liquid\<rparr>)))))))))"

definition pool_state_bytes :: "pool_state \<Rightarrow> u8 list" where
  "pool_state_bytes r =
     [ps_bump r] @ pool_status_bytes (ps_status r) @ to_le_bytes (ps_disbursement_reserve r) @
     borsh_vec mode_state_bytes (ps_mode_states r) @ borsh_vec key_bytes (ps_mode_config_keys r) @
     redemption_bytes (ps_redemption r) @
     pool_stats_bytes (ps_cumulative_amount_deployed r, ps_cumulative_amount_paid_back r) @
     to_le_bytes (ps_liquid_assets_deployed r) @ zeros 152"

definition read_mode_config :: "mode_config reader" where
  "read_mode_config =
     bindB read_u8 (\<lambda>bump.
     bindB read_u8 (\<lambda>mint_bump.
     bindB read_key (\<lambda>id.
     bindB read_string (\<lambda>name.
     bindB read_u16 (\<lambda>target_apy_bps.
     bindB read_f64 (\<lambda>periodic_apy_bps.
     bindB (read_bytes 160) (\<lambda>_.
       returnB \<lparr>mc_bump = bump, mc_mint_bump = mint_bump, mc_id = id, mc_name = name,
         mc_target_apy_bps = target_apy_bps, mc_periodic_apy_bps = periodic_apy_bps\<rparr>)))))))"

definition mode_config_bytes :: "mode_config \<Rightarrow> u8 list" where
  "mode_config_bytes r =
     [mc_bump r] @ [mc_mint_bump r] @ key_bytes (mc_id r) @ borsh_string (mc_name r) @
     to_le_bytes (mc_target_apy_bps r) @ f64_bytes (mc_periodic_apy_bps r) @ zeros 160"

definition read_token_reserve :: "token_reserve reader" where
  "read_token_reserve =
     bindB read_key (\<lambda>mint.
     bindB read_key (\<lambda>vault.
     bindB read_u16 (\<lambda>borrow_rate.
     bindB read_u16 (\<lambda>fee_on_interest.
     bindB read_u16 (\<lambda>last_utilization.
     bindB read_u64 (\<lambda>last_update_timestamp.
     bindB read_u64 (\<lambda>supply_exchange_price.
     bindB read_u64 (\<lambda>borrow_exchange_price.
     bindB read_u16 (\<lambda>max_utilization.
     bindB read_u64 (\<lambda>total_supply_with_interest.
     bindB read_u64 (\<lambda>total_supply_interest_free.
     bindB read_u64 (\<lambda>total_borrow_with_interest.
     bindB read_u64 (\<lambda>total_borrow_interest_free.
     bindB read_u64 (\<lambda>total_claim_amount.
     bindB read_key (\<lambda>interacting_protocol.
     bindB read_u64 (\<lambda>interacting_timestamp.
     bindB read_u64 (\<lambda>interacting_balance.
       returnB \<lparr>tr_mint = mint, tr_vault = vault, tr_borrow_rate = borrow_rate,
         tr_fee_on_interest = fee_on_interest, tr_last_utilization = last_utilization,
         tr_last_update_timestamp = last_update_timestamp,
         tr_supply_exchange_price = supply_exchange_price,
         tr_borrow_exchange_price = borrow_exchange_price,
         tr_max_utilization = max_utilization,
         tr_total_supply_with_interest = total_supply_with_interest,
         tr_total_supply_interest_free = total_supply_interest_free,
         tr_total_borrow_with_interest = total_borrow_with_interest,
         tr_total_borrow_interest_free = total_borrow_interest_free,
         tr_total_claim_amount = total_claim_amount,
         tr_interacting_protocol = interacting_protocol,
         tr_interacting_timestamp = interacting_timestamp,
         tr_interacting_balance = interacting_balance\<rparr>)))))))))))))))))"

definition token_reserve_bytes :: "token_reserve \<Rightarrow> u8 list" where
  "token_reserve_bytes r =
     key_bytes (tr_mint r) @ key_bytes (tr_vault r) @ to_le_bytes (tr_borrow_rate r) @
     to_le_bytes (tr_fee_on_interest r) @ to_le_bytes (tr_last_utilization r) @
     to_le_bytes (tr_last_update_timestamp r) @ to_le_bytes (tr_supply_exchange_price r) @
     to_le_bytes (tr_borrow_exchange_price r) @ to_le_bytes (tr_max_utilization r) @
     to_le_bytes (tr_total_supply_with_interest r) @
     to_le_bytes (tr_total_supply_interest_free r) @
     to_le_bytes (tr_total_borrow_with_interest r) @
     to_le_bytes (tr_total_borrow_interest_free r) @ to_le_bytes (tr_total_claim_amount r) @
     key_bytes (tr_interacting_protocol r) @ to_le_bytes (tr_interacting_timestamp r) @
     to_le_bytes (tr_interacting_balance r)"

section \<open>Values that can be written\<close>

text \<open>A Rust string is UTF-8, a vector's length fits its 32-bit prefix, a NaN is refused.\<close>

definition ok_string :: "string \<Rightarrow> bool" where
  "ok_string s \<longleftrightarrow> length s < 2 ^ 32 \<and> utf8_valid (ascii s)"

definition ok_withdrawal_config :: "withdrawal_config \<Rightarrow> bool" where
  "ok_withdrawal_config c \<longleftrightarrow> length (instant_withdrawal_fee_configs c) < 2 ^ 32"

definition ok_pool_config :: "pool_config \<Rightarrow> bool" where
  "ok_pool_config c \<longleftrightarrow> ok_string (pcf_pool_name c) \<and> ok_withdrawal_config (pcf_instant_withdrawal_config c)"

definition ok_pool_state :: "pool_state \<Rightarrow> bool" where
  "ok_pool_state s \<longleftrightarrow> length (ps_mode_states s) < 2 ^ 32 \<and> length (ps_mode_config_keys s) < 2 ^ 32"

definition ok_mode_config :: "mode_config \<Rightarrow> bool" where
  "ok_mode_config c \<longleftrightarrow> ok_string (mc_name c) \<and> is_double (mc_periodic_apy_bps c)"

section \<open>The codecs\<close>

lemma read_string_back [read_back]: "ok_string s \<Longrightarrow> read_string (borsh_string s @ bs) = Some (s, bs)"
  by (simp add: ok_string_def read_string_bytes)

lemma read_reserved [simp]: "read_bytes n (zeros n @ bs) = Some (zeros n, bs)"
  by (simp add: read_bytes_append)

lemma read_strategy_type_bytes [simp]: "read_strategy_type (strategy_type_bytes s @ bs) = Some (s, bs)"
  by (cases s) (simp_all add: read_strategy_type_def bindB_def)

lemma read_pool_status_bytes [simp]: "read_pool_status (pool_status_bytes s @ bs) = Some (s, bs)"
  by (cases s) (simp_all add: read_pool_status_def bindB_def)

lemma read_huma_config_bytes: "read_huma_config (huma_config_bytes c @ bs) = Some (c, bs)"
  by (simp add: read_huma_config_def huma_config_bytes_def bindB_def)

lemma read_lp_config_bytes [simp]: "read_lp_config (lp_config_bytes c @ bs) = Some (c, bs)"
  by (simp add: read_lp_config_def lp_config_bytes_def bindB_def)

lemma read_fee_config_bytes [simp]: "read_fee_config (fee_config_bytes c @ bs) = Some (c, bs)"
  by (simp add: read_fee_config_def fee_config_bytes_def bindB_def)

lemma read_withdrawal_config_bytes:
  "ok_withdrawal_config c \<Longrightarrow> read_withdrawal_config (withdrawal_config_bytes c @ bs) = Some (c, bs)"
  by (simp add: read_withdrawal_config_def withdrawal_config_bytes_def ok_withdrawal_config_def bindB_def
      read_vec_bytes read_option_bytes)

lemma read_pool_config_bytes:
  "ok_pool_config c \<Longrightarrow> read_pool_config (pool_config_bytes c @ bs) = Some (c, bs)"
  by (simp add: read_pool_config_def pool_config_bytes_def ok_pool_config_def bindB_def
      read_string_back read_withdrawal_config_bytes)

lemma read_deployment_config_bytes: "read_deployment_config (deployment_config_bytes c @ bs) = Some (c, bs)"
  by (simp add: read_deployment_config_def deployment_config_bytes_def bindB_def)

lemma read_mode_state_bytes [simp]: "read_mode_state (mode_state_bytes c @ bs) = Some (c, bs)"
  by (simp add: read_mode_state_def mode_state_bytes_def bindB_def)

lemma read_redemption_gating_bytes [simp]:
  "read_redemption_gating (redemption_gating_bytes c @ bs) = Some (c, bs)"
  by (simp add: read_redemption_gating_def redemption_gating_bytes_def bindB_def)

lemma read_redemption_bytes [simp]: "read_redemption (redemption_bytes c @ bs) = Some (c, bs)"
  by (simp add: read_redemption_def redemption_bytes_def bindB_def)

lemma read_pool_stats_bytes [simp]: "read_pool_stats (pool_stats_bytes c @ bs) = Some (c, bs)"
  by (simp add: read_pool_stats_def pool_stats_bytes_def bindB_def)

lemma read_pool_state_bytes:
  "ok_pool_state c \<Longrightarrow> read_pool_state (pool_state_bytes c @ bs) = Some (c, bs)"
  by (simp add: read_pool_state_def pool_state_bytes_def ok_pool_state_def bindB_def read_vec_bytes)

lemma read_mode_config_bytes:
  "ok_mode_config c \<Longrightarrow> read_mode_config (mode_config_bytes c @ bs) = Some (c, bs)"
  by (simp add: read_mode_config_def mode_config_bytes_def ok_mode_config_def bindB_def
      read_string_back read_f64_bytes)

lemma read_token_reserve_bytes: "read_token_reserve (token_reserve_bytes c @ bs) = Some (c, bs)"
  by (simp add: read_token_reserve_def token_reserve_bytes_def bindB_def)

lemma stable_huma [stable_intros]:
  "stable read_huma_config" "stable read_lp_config" "stable read_fee_config" "stable read_strategy_type"
  "stable read_mode_state" "stable read_redemption_gating" "stable read_pool_stats" "stable read_mode_config"
  "stable read_token_reserve" "stable read_pool_status"
  unfolding read_huma_config_def read_lp_config_def read_fee_config_def read_strategy_type_def
    read_mode_state_def read_redemption_gating_def read_pool_stats_def read_mode_config_def
    read_token_reserve_def read_pool_status_def
  by (intro stable_intros)+

lemma stable_huma_compound [stable_intros]:
  "stable read_withdrawal_config" "stable read_deployment_config" "stable read_redemption"
  unfolding read_withdrawal_config_def read_deployment_config_def read_redemption_def
  by (intro stable_intros)+

lemma stable_pool [stable_intros]: "stable read_pool_config" "stable read_pool_state"
  unfolding read_pool_config_def read_pool_state_def case_prod_unfold
  by (intro stable_intros)+

interpretation huma_config: codec huma_config_bytes read_huma_config "\<lambda>_. True"
  by unfold_locales (auto simp: read_huma_config_bytes intro: stable_intros)

interpretation pool_config: codec pool_config_bytes read_pool_config ok_pool_config
  by unfold_locales (auto simp: read_pool_config_bytes intro: stable_intros)

interpretation deployment_config: codec deployment_config_bytes read_deployment_config "\<lambda>_. True"
  by unfold_locales (auto simp: read_deployment_config_bytes intro: stable_intros)

interpretation pool_state: codec pool_state_bytes read_pool_state ok_pool_state
  by unfold_locales (auto simp: read_pool_state_bytes intro: stable_intros)

interpretation mode_config: codec mode_config_bytes read_mode_config ok_mode_config
  by unfold_locales (auto simp: read_mode_config_bytes intro: stable_intros)

interpretation token_reserve: codec token_reserve_bytes read_token_reserve "\<lambda>_. True"
  by unfold_locales (auto simp: read_token_reserve_bytes intro: stable_intros)

section \<open>Defaults\<close>

definition huma_config_default :: huma_config where
  "huma_config_default =
     \<lparr>hc_id = 0, hc_bump = 0, hc_owner = 0, hc_treasury = 0, hc_sentinel = 0, hc_protocol_fee_bps = 0,
      hc_paused = False\<rparr>"

definition lp_config_default :: lp_config where
  "lp_config_default =
     \<lparr>liquidity_cap = 0, min_deposit_amount = 0, min_redemption_shares = 0,
      max_total_redemption_shares_per_window = 0, max_instant_withdrawal_shares_per_window = 0\<rparr>"

definition fee_config_default :: fee_config where
  "fee_config_default = \<lparr>liquid_asset_ratio_lt_bps = 0, fee_bps = 0\<rparr>"

definition withdrawal_config_default :: withdrawal_config where
  "withdrawal_config_default =
     \<lparr>instant_withdrawal_reserve_limit = 0, instant_withdrawal_fee_configs = [], liquidity_source = None\<rparr>"

definition pool_config_default :: pool_config where
  "pool_config_default =
     \<lparr>pcf_bump = 0, pcf_huma_config = 0, pcf_pool_owner = 0, pcf_pool_owner_treasury = 0,
      pcf_underlying_mint = 0, pcf_pool_authority_bump = 0, pcf_pool_id = 0, pcf_pool_name = [],
      pcf_lp_config = lp_config_default, pcf_instant_withdrawal_config = withdrawal_config_default\<rparr>"

definition strategy_type_default :: deployment_strategy_type where
  "strategy_type_default = Manual"

definition deployment_config_default :: deployment_config where
  "deployment_config_default =
     \<lparr>dc_bump = 0, dc_strategy_type = strategy_type_default, dc_target_key = 0\<rparr>"

definition pool_status_default :: pool_status where
  "pool_status_default = Off"

definition redemption_gating_default :: redemption_gating where
  "redemption_gating_default = \<lparr>total_shares_requested = 0, window_starts_at = 0\<rparr>"

definition redemption_default :: redemption where
  "redemption_default =
     \<lparr>rd_next_request_id = 0, rd_last_request_id = 0,
      rd_global_redemption_gating = redemption_gating_default,
      rd_instant_withdrawal_gating = redemption_gating_default\<rparr>"

definition pool_stats_default :: "u128 \<times> u128" where
  "pool_stats_default = (0, 0)"

definition pool_state_default :: pool_state where
  "pool_state_default =
     \<lparr>ps_bump = 0, ps_status = pool_status_default, ps_disbursement_reserve = 0, ps_mode_states = [],
      ps_mode_config_keys = [], ps_redemption = redemption_default,
      ps_cumulative_amount_deployed = fst pool_stats_default,
      ps_cumulative_amount_paid_back = snd pool_stats_default, ps_liquid_assets_deployed = 0\<rparr>"

definition mode_config_default :: mode_config where
  "mode_config_default =
     \<lparr>mc_bump = 0, mc_mint_bump = 0, mc_id = 0, mc_name = [], mc_target_apy_bps = 0,
      mc_periodic_apy_bps = Finite 0\<rparr>"

text \<open>The sizes of the accounts whose vectors and strings are empty.\<close>

lemma le_bytes_zero: "le_bytes k 0 = zeros k"
  by (induction k) simp_all

lemma zero_bytes [simp]:
  "to_le_bytes (0 :: u16) = zeros 2" "to_le_bytes (0 :: u32) = zeros 4"
  "to_le_bytes (0 :: u64) = zeros 8" "to_le_bytes (0 :: u128) = zeros 16" "key_bytes 0 = zeros 32"
  by (simp_all add: to_le_bytes_def key_bytes_def le_bytes_zero)

lemma one_zero: "[0 :: u8] = zeros 1"
  by simp

lemmas zero_account = replicate_add [symmetric] borsh_bool_def borsh_vec_def borsh_string_def
  borsh_option_def ascii_def one_zero

lemma default_bytes:
  "huma_config_bytes huma_config_default = zeros 132"
  "lp_config_bytes lp_config_default = zeros 208"
  "withdrawal_config_bytes withdrawal_config_default = zeros 140"
  "deployment_config_bytes deployment_config_default = zeros 194"
  "redemption_gating_bytes redemption_gating_default = zeros 104"
  "pool_stats_bytes pool_stats_default = zeros 192"
  "mode_config_bytes mode_config_default = zeros 208"
  by (simp_all del: replicate_Suc append_Cons append.simps
     add: zero_account huma_config_bytes_def huma_config_default_def lp_config_bytes_def
     lp_config_default_def withdrawal_config_bytes_def withdrawal_config_default_def
     deployment_config_bytes_def deployment_config_default_def strategy_type_default_def
     redemption_gating_bytes_def redemption_gating_default_def pool_stats_bytes_def
     pool_stats_default_def mode_config_bytes_def mode_config_default_def f64_bytes_def)

lemma pool_config_default_bytes: "pool_config_bytes pool_config_default = zeros 674"
  by (simp add: zero_account pool_config_bytes_def pool_config_default_def default_bytes
      del: replicate_Suc append_Cons append.simps)

lemma redemption_default_bytes: "redemption_bytes redemption_default = zeros 376"
  by (simp add: zero_account redemption_bytes_def redemption_default_def default_bytes
      del: replicate_Suc append_Cons append.simps)

lemma pool_state_default_bytes: "pool_state_bytes pool_state_default = zeros 754"
  by (simp add: zero_account pool_state_bytes_def pool_state_default_def default_bytes
      redemption_default_bytes pool_status_default_def del: replicate_Suc append_Cons append.simps)

lemma ok_defaults:
  "ok_pool_config pool_config_default" "ok_pool_state pool_state_default" "ok_mode_config mode_config_default"
  by (simp_all add: ok_pool_config_def pool_config_default_def ok_withdrawal_config_def
      withdrawal_config_default_def ok_pool_state_def pool_state_default_def ok_mode_config_def
      mode_config_default_def ok_string_def ascii_def)

end
