(* ===== verification/Huma_Images.thy ===== *)
theory Huma_Images
  imports Huma_Update Huma_Borsh
begin

text \<open>
  The Huma accounts as the chain holds them: an eight-byte discriminator and the Borsh form of
  the value. \<open>borsh_ext\<close> puts the readers of \<open>Huma_Borsh\<close> in place of the abstract decoders of
  \<open>huma_ext\<close>, so that the venue's theorems speak about account bytes. The properties: what is
  written is read back, short, foreign and cut data are the errors of the code, a zeroed account
  is the default one, and an update takes over exactly the serialized values.
\<close>

section \<open>Account bytes in place of the decoders\<close>

definition borsh_decode :: "(u8 list \<Rightarrow> string) \<Rightarrow> 'a reader \<Rightarrow> u8 list \<Rightarrow> string + 'a" where
  "borsh_decode msg r bs = (case r bs of None \<Rightarrow> Inl (msg bs) | Some (a, _) \<Rightarrow> Inr a)"

definition borsh_ext :: "(u8 list \<Rightarrow> string) \<Rightarrow> 'x huma_ext_scheme \<Rightarrow> 'x huma_ext_scheme" where
  "borsh_ext msg X =
     X\<lparr>decode_huma_config := borsh_decode msg read_huma_config,
       decode_pool_config := borsh_decode msg read_pool_config,
       decode_mode_config := borsh_decode msg read_mode_config,
       decode_deployment_config := borsh_decode msg read_deployment_config,
       decode_pool_state := borsh_decode msg read_pool_state,
       decode_token_reserve := borsh_decode msg read_token_reserve\<rparr>"

text \<open>The data of an Anchor account: the hash prefix of its name, then its value.\<close>

definition account_image :: "'x ext_scheme \<Rightarrow> string \<Rightarrow> u8 list \<Rightarrow> u8 list" where
  "account_image X name bytes = take DISCRIMINATOR_LEN (hashv X [ascii ''account:'', ascii name]) @ bytes"

lemma borsh_ext_simps [simp]:
  "decode_huma_config (borsh_ext msg X) = borsh_decode msg read_huma_config"
  "decode_pool_config (borsh_ext msg X) = borsh_decode msg read_pool_config"
  "decode_mode_config (borsh_ext msg X) = borsh_decode msg read_mode_config"
  "decode_deployment_config (borsh_ext msg X) = borsh_decode msg read_deployment_config"
  "decode_pool_state (borsh_ext msg X) = borsh_decode msg read_pool_state"
  "decode_token_reserve (borsh_ext msg X) = borsh_decode msg read_token_reserve"
  "hashv (borsh_ext msg X) = hashv X"
  by (simp_all add: borsh_ext_def)

lemma hashes_ok_borsh [simp]: "hashes_ok (borsh_ext msg X) = hashes_ok X"
  by (simp add: hashes_ok_def)

lemma discriminator_ok:
  "hashes_ok X \<Longrightarrow> anchor_account_discriminator X name =
     Ok (take DISCRIMINATOR_LEN (hashv X [ascii ''account:'', ascii name]))"
  by (simp add: anchor_account_discriminator_def anchor_discriminator_def get_range_def hashes_ok_def
      DISCRIMINATOR_LEN_def)

lemma length_discriminator:
  "hashes_ok X \<Longrightarrow> length (take DISCRIMINATOR_LEN (hashv X bs)) = 8"
  by (auto simp: hashes_ok_def DISCRIMINATOR_LEN_def min_def intro: antisym)

text \<open>What decoding the image of some bytes, whole or cut, comes to.\<close>

lemma decode_image:
  assumes "hashes_ok X"
  shows "decode_anchor_account X (borsh_decode msg r) name (account_image X name bytes @ rest) =
    (case r (bytes @ rest) of
       None \<Rightarrow> Err (decode_failed (name @ '': '' @ msg (bytes @ rest)))
     | Some (a, _) \<Rightarrow> Ok a)"
  using length_discriminator [OF assms, of "[ascii ''account:'', ascii name]"]
  by (auto simp: decode_anchor_account_eq discriminator_ok [OF assms] account_image_def borsh_decode_def
      DISCRIMINATOR_LEN_def split: option.split)

lemmas decode_exact_image = decode_image [where rest = "[]", unfolded append_Nil2]

section \<open>Refused accounts\<close>

text \<open>
  The three errors of a decoder: data shorter than the discriminator, data with another
  discriminator, and a value cut short behind the right one.
\<close>

definition refuses_bad_data ::
  "'x ext_scheme \<Rightarrow> (u8 list \<Rightarrow> string) \<Rightarrow> string \<Rightarrow> (u8 list \<Rightarrow> (venue_error, 'a) res) \<Rightarrow> u8 list \<Rightarrow> bool" where
  "refuses_bad_data X msg name decode bytes \<longleftrightarrow>
     (\<forall>data. length data < 8 \<longrightarrow> decode data = Err (decode_failed (name @ '' data too short''))) \<and>
     (\<forall>data. 8 \<le> length data \<and> take 8 data \<noteq> take 8 (hashv X [ascii ''account:'', ascii name]) \<longrightarrow>
        decode data = Err (decode_failed (''invalid discriminator for '' @ name))) \<and>
     (\<forall>n < length bytes.
        decode (account_image X name (take n bytes)) = Err (decode_failed (name @ '': '' @ msg (take n bytes))))"

lemma length_image: "hashes_ok X \<Longrightarrow> length (account_image X name bytes) = 8 + length bytes"
  by (simp only: account_image_def length_append length_discriminator)

lemma refuses_image:
  assumes "hashes_ok X" "\<And>m. m < length bytes \<Longrightarrow> r (take m bytes) = None" "d = borsh_decode msg r"
  shows "refuses_bad_data X msg name (decode_anchor_account (borsh_ext msg X) d name) bytes"
proof -
  have image: "account_image (borsh_ext msg X) name bs = account_image X name bs" for bs
    by (simp add: account_image_def)
  have "decode_anchor_account (borsh_ext msg X) d name (account_image X name (take n bytes)) =
      Err (decode_failed (name @ '': '' @ msg (take n bytes)))" if "n < length bytes" for n
    using decode_exact_image [of "borsh_ext msg X" msg r name "take n bytes"] assms that by (simp add: image)
  then show ?thesis
    using assms(1)
    by (auto simp: refuses_bad_data_def decode_anchor_account_eq discriminator_ok DISCRIMINATOR_LEN_def)
qed

lemmas zero_images =
  read_huma_config_bytes [of huma_config_default "[]"]
  read_pool_config_bytes [OF ok_defaults(1), of "[]"]
  read_mode_config_bytes [OF ok_defaults(3), of "[]"]
  read_deployment_config_bytes [of deployment_config_default "[]"]
  read_pool_state_bytes [OF ok_defaults(2), of "[]"]

lemmas zero_accounts_read = zero_images [unfolded default_bytes pool_config_default_bytes
  pool_state_default_bytes append_Nil2]

section \<open>Properties\<close>

text \<open>
  C13: every account of the pool, written by the derived serializer behind its discriminator,
  is read back as it was, whatever follows it in the account's data.
\<close>

theorem huma_accounts_roundtrip:
  assumes "Y = borsh_ext msg X" "hashes_ok X" "ok_pool_config pc" "ok_mode_config mc" "ok_pool_state ps"
  shows "decode_anchor_account Y (decode_huma_config Y) ''HumaConfig'' (account_image Y ''HumaConfig'' (huma_config_bytes hc) @ rest) = Ok hc \<and>
    decode_anchor_account Y (decode_pool_config Y) ''PoolConfig'' (account_image Y ''PoolConfig'' (pool_config_bytes pc) @ rest) = Ok pc \<and>
    decode_anchor_account Y (decode_mode_config Y) ''ModeConfig'' (account_image Y ''ModeConfig'' (mode_config_bytes mc) @ rest) = Ok mc \<and>
    decode_anchor_account Y (decode_deployment_config Y) ''DeploymentConfig'' (account_image Y ''DeploymentConfig'' (deployment_config_bytes dc) @ rest) = Ok dc \<and>
    decode_anchor_account Y (decode_pool_state Y) ''PoolState'' (account_image Y ''PoolState'' (pool_state_bytes ps) @ rest) = Ok ps \<and>
    decode_anchor_account Y (decode_token_reserve Y) ''TokenReserve'' (account_image Y ''TokenReserve'' (token_reserve_bytes tr) @ rest) = Ok tr"
  using assms(2-5) unfolding assms(1)
  by (simp add: decode_image read_huma_config_bytes read_pool_config_bytes read_mode_config_bytes
      read_deployment_config_bytes read_pool_state_bytes read_token_reserve_bytes)

lemma sample_accounts_ok:
  "ok_pool_config sample_pool_config" "ok_mode_config sample_mode_config" "ok_pool_state sample_pool_state"
  by (simp_all add: ok_pool_config_def ok_mode_config_def ok_pool_state_def sample_pool_config_def
      sample_mode_config_def sample_pool_state_def ok_string_def ok_withdrawal_config_def ascii_def
      utf8_width_def)

theorem huma_accounts_roundtrip_witness:
  "decode_anchor_account (borsh_ext (\<lambda>_. ''eof'') sample_huma) (decode_pool_state (borsh_ext (\<lambda>_. ''eof'') sample_huma)) ''PoolState''
    (account_image (borsh_ext (\<lambda>_. ''eof'') sample_huma) ''PoolState'' (pool_state_bytes sample_pool_state) @ [7]) =
    Ok sample_pool_state"
  using huma_accounts_roundtrip [OF refl sample_huma_ok(1) sample_accounts_ok] by simp

text \<open>
  C29: what each decoder of an account does with data that holds no such account, each time with
  an error and never with a panic: data of fewer than eight bytes is reported as too short, data
  with another discriminator as such, and a value cut anywhere behind the right discriminator as
  the error of its deserialization, never as a shorter value.
\<close>

theorem huma_truncated_accounts:
  assumes "Y = borsh_ext msg X" "hashes_ok X" "ok_pool_config pc" "ok_mode_config mc" "ok_pool_state ps"
  shows "refuses_bad_data X msg ''HumaConfig'' (decode_anchor_account Y (decode_huma_config Y) ''HumaConfig'') (huma_config_bytes hc) \<and>
    refuses_bad_data X msg ''PoolConfig'' (decode_anchor_account Y (decode_pool_config Y) ''PoolConfig'') (pool_config_bytes pc) \<and>
    refuses_bad_data X msg ''ModeConfig'' (decode_anchor_account Y (decode_mode_config Y) ''ModeConfig'') (mode_config_bytes mc) \<and>
    refuses_bad_data X msg ''DeploymentConfig'' (decode_anchor_account Y (decode_deployment_config Y) ''DeploymentConfig'') (deployment_config_bytes dc) \<and>
    refuses_bad_data X msg ''PoolState'' (decode_anchor_account Y (decode_pool_state Y) ''PoolState'') (pool_state_bytes ps) \<and>
    refuses_bad_data X msg ''TokenReserve'' (decode_anchor_account Y (decode_token_reserve Y) ''TokenReserve'') (token_reserve_bytes tr)"
  using assms(2-5) unfolding assms(1)
  by (intro conjI refuses_image) (simp_all add: huma_config.truncated_refused pool_config.truncated_refused
      mode_config.truncated_refused deployment_config.truncated_refused pool_state.truncated_refused
      token_reserve.truncated_refused)

theorem huma_truncated_accounts_witness:
  "decode_anchor_account (borsh_ext (\<lambda>_. ''eof'') sample_huma) (decode_pool_state (borsh_ext (\<lambda>_. ''eof'') sample_huma))
     ''PoolState'' [1, 2, 3] = Err (decode_failed ''PoolState data too short'') \<and>
   decode_anchor_account (borsh_ext (\<lambda>_. ''eof'') sample_huma) (decode_pool_state (borsh_ext (\<lambda>_. ''eof'') sample_huma))
     ''PoolState'' [1, 2, 3, 4, 5, 6, 7, 8] = Err (decode_failed ''invalid discriminator for PoolState'') \<and>
   decode_anchor_account (borsh_ext (\<lambda>_. ''eof'') sample_huma) (decode_pool_state (borsh_ext (\<lambda>_. ''eof'') sample_huma))
     ''PoolState'' (account_image sample_huma ''PoolState'' (take 900 (pool_state_bytes sample_pool_state))) =
     Err (decode_failed ''PoolState: eof'')"
proof -
  have "length (pool_state_bytes sample_pool_state) = 1002"
    by (simp add: pool_state_bytes_def mode_state_bytes_def redemption_bytes_def redemption_gating_bytes_def
        pool_stats_bytes_def borsh_vec_def sample_pool_state_def)
  moreover have "[1, 2, 3, 4, 5, 6, 7, 8] \<noteq> take 8 (hashv sample_huma bs)" for bs
    by (simp add: sample_huma_def numeral_eq_Suc)
  moreover have "refuses_bad_data sample_huma (\<lambda>_. ''eof'') ''PoolState'' (decode_anchor_account (borsh_ext (\<lambda>_. ''eof'') sample_huma)
      (decode_pool_state (borsh_ext (\<lambda>_. ''eof'') sample_huma)) ''PoolState'') (pool_state_bytes sample_pool_state)"
    using huma_truncated_accounts [OF refl sample_huma_ok(1) sample_accounts_ok, of "\<lambda>_. ''eof''"] by blast
  ultimately show ?thesis
    unfolding refuses_bad_data_def by (auto simp del: borsh_ext_simps)
qed

text \<open>
  An account of zeros, with nothing behind its discriminator but what the program
  allocated, decodes to the default value of its type.
\<close>

theorem huma_zeroed_accounts_default:
  assumes "Y = borsh_ext msg X" "hashes_ok X"
  shows "decode_anchor_account Y (decode_huma_config Y) ''HumaConfig'' (account_image Y ''HumaConfig'' (zeros 132)) = Ok huma_config_default \<and>
    decode_anchor_account Y (decode_pool_config Y) ''PoolConfig'' (account_image Y ''PoolConfig'' (zeros 674)) = Ok pool_config_default \<and>
    decode_anchor_account Y (decode_mode_config Y) ''ModeConfig'' (account_image Y ''ModeConfig'' (zeros 208)) = Ok mode_config_default \<and>
    decode_anchor_account Y (decode_deployment_config Y) ''DeploymentConfig'' (account_image Y ''DeploymentConfig'' (zeros 194)) = Ok deployment_config_default \<and>
    decode_anchor_account Y (decode_pool_state Y) ''PoolState'' (account_image Y ''PoolState'' (zeros 754)) = Ok pool_state_default"
  using assms(2) unfolding assms(1)
  by (simp add: decode_exact_image zero_accounts_read)

theorem huma_zeroed_accounts_default_witness:
  "decode_anchor_account (borsh_ext (\<lambda>_. ''eof'') sample_huma) (decode_pool_config (borsh_ext (\<lambda>_. ''eof'') sample_huma))
    ''PoolConfig'' (account_image (borsh_ext (\<lambda>_. ''eof'') sample_huma) ''PoolConfig'' (zeros 674)) =
    Ok \<lparr>pcf_bump = 0, pcf_huma_config = 0, pcf_pool_owner = 0, pcf_pool_owner_treasury = 0,
      pcf_underlying_mint = 0, pcf_pool_authority_bump = 0, pcf_pool_id = 0, pcf_pool_name = [],
      pcf_lp_config = lp_config_default, pcf_instant_withdrawal_config = withdrawal_config_default\<rparr>"
  using huma_zeroed_accounts_default [OF refl sample_huma_ok(1)] by (simp add: pool_config_default_def)

text \<open>A chain that holds the accounts of the sample pool as bytes, and anything elsewhere.\<close>

abbreviation byte_huma :: huma_ext where
  "byte_huma \<equiv> borsh_ext (\<lambda>_. ''eof'') sample_huma"

definition byte_account :: "string \<Rightarrow> u8 list \<Rightarrow> account" where
  "byte_account name bytes = sample_huma_account\<lparr>acc_data := account_image byte_huma name bytes\<rparr>"

definition byte_chain :: "pubkey \<Rightarrow> account" where
  "byte_chain k =
     (if k = POOL_CONFIG_KEY then byte_account ''PoolConfig'' (pool_config_bytes sample_pool_config)
      else if k = 18 then byte_account ''ModeConfig'' (mode_config_bytes sample_mode_config)
      else if k = 11 then byte_account ''HumaConfig'' (huma_config_bytes huma_config_default)
      else if k = 16 then byte_account ''DeploymentConfig''
        (deployment_config_bytes \<lparr>dc_bump = 0, dc_strategy_type = KaminoLendType, dc_target_key = 19\<rparr>)
      else if k = 5 then byte_account ''PoolState'' (pool_state_bytes sample_pool_state)
      else sample_huma_account)"

definition byte_fetch :: "unit \<Rightarrow> pubkey list \<Rightarrow> (account_cache_error, account option list) res \<times> unit" where
  "byte_fetch c ks = (Ok (map (\<lambda>k. Some (byte_chain k)) ks), c)"

text \<open>
  C25: when an update succeeds on a chain whose accounts hold serialized values, the venue
  quotes from exactly these values: pool configuration, pool state, mode and protocol
  configuration, byte for byte as the pool's program wrote them.
\<close>

theorem huma_update_reads_bytes:
  assumes "Y = borsh_ext msg X" "hashes_ok X" "ok_pool_config pc" "ok_mode_config mc" "ok_pool_state ps"
    and fetch: "\<And>c ks. fetch c ks = (Ok (map chain ks), c)"
    and "chain (hv_pool_config_key v) = Some a1" "acc_data a1 = account_image Y ''PoolConfig'' (pool_config_bytes pc) @ rest1"
    and "chain (hv_mode_config_key v) = Some a2" "acc_data a2 = account_image Y ''ModeConfig'' (mode_config_bytes mc) @ rest2"
    and "chain (hv_pool_state_key v) = Some a3" "acc_data a3 = account_image Y ''PoolState'' (pool_state_bytes ps) @ rest3"
    and "chain (pcf_huma_config pc) = Some a4" "acc_data a4 = account_image Y ''HumaConfig'' (huma_config_bytes hc) @ rest4"
    and "huma_update_state Y fetch (v, c) = (Ok (), (v', c'))"
  shows "\<exists>s. hv_state v' = Some s \<and> hv_mode_config v' = mc \<and> is_pool_config s = pc \<and> is_pool_state s = ps \<and>
    is_huma_config s = hc"
proof -
  note decoded = assms(8,10,12,14) assms(2-5) decode_image read_pool_config_bytes read_mode_config_bytes
    read_pool_state_bytes read_huma_config_bytes
  obtain pc' mc' v1 c1 st c2 strategy where r1: "huma_round_1 Y fetch (v, c) = (Ok (pc', mc'), (v1, c1))"
    and r2: "huma_round_2 Y fetch pc' (v1, c1) = (Ok st, (v1, c2))"
    and v': "v' = v1\<lparr>hv_mode_config := mc', hv_state := Some (st\<lparr>is_strategy := strategy\<rparr>)\<rparr>"
    using assms(15) unfolding update_Ok by blast
  have 1: "pc' = pc" "mc' = mc" "hv_pool_state_key v1 = hv_pool_state_key v"
    using r1 unfolding round_1_Ok fetch by (auto simp: assms(1,7,9) decoded)
  have "is_pool_config st = pc" "is_pool_state st = ps" "is_huma_config st = hc"
    using r2 unfolding round_2_Ok fetch huma_decode_round_2_def
    by (auto simp: res_inv to_array_def found_def 1 assms(1,11,13) decoded)
  then show ?thesis by (simp add: v' 1)
qed

lemma byte_kamino_update:
  "kamino_update byte_huma byte_fetch (sample_kamino, ()) =
    (Ok (), ((kamino_read_reserve byte_huma sample_klend_reserve sample_kamino)\<lparr>kl_available_liquidity := 200\<rparr>, ()))"
proof -
  have "kamino_redemption_value 100 (500 + drop_bit KLEND_FRACTION_BITS (push_bit 60 1500)) 1000 =
      (Ok 200 :: (venue_error, u64) res)"
    by (simp add: kamino_redemption_value_def mul_p_def div_p_def checked_mul_def checked_div_def KLEND_FRACTION_BITS_def)
  moreover have "decode_klend_reserve byte_huma = (\<lambda>_. Inr sample_klend_reserve)"
    "decode_klend_obligation byte_huma = (\<lambda>_. Inr [\<lparr>kd_deposit_reserve = 19, kd_deposited_amount = 100\<rparr>])"
    by (simp_all add: borsh_ext_def)
  ultimately show ?thesis
    by (simp add: kamino_update_def Let_def byte_fetch_def fetchS_def bindS_def liftS_def getS_def venueS_def
        modifyS_def to_array_def found_def klend_decode_def kamino_total_supply_eq(1) kamino_deposited_def)
      (simp add: sample_klend_reserve_def kamino_lend_new_def modifyS_def)
qed

lemma byte_decodes:
  "decode_anchor_account byte_huma (borsh_decode (\<lambda>_. ''eof'') read_pool_config) ''PoolConfig''
    (account_image byte_huma ''PoolConfig'' (pool_config_bytes sample_pool_config)) = Ok sample_pool_config"
  "decode_anchor_account byte_huma (borsh_decode (\<lambda>_. ''eof'') read_mode_config) ''ModeConfig''
    (account_image byte_huma ''ModeConfig'' (mode_config_bytes sample_mode_config)) = Ok sample_mode_config"
  "decode_anchor_account byte_huma (borsh_decode (\<lambda>_. ''eof'') read_huma_config) ''HumaConfig''
    (account_image byte_huma ''HumaConfig'' (huma_config_bytes huma_config_default)) = Ok huma_config_default"
  "decode_anchor_account byte_huma (borsh_decode (\<lambda>_. ''eof'') read_deployment_config) ''DeploymentConfig''
    (account_image byte_huma ''DeploymentConfig'' (deployment_config_bytes dc)) = Ok dc"
  "decode_anchor_account byte_huma (borsh_decode (\<lambda>_. ''eof'') read_pool_state) ''PoolState''
    (account_image byte_huma ''PoolState'' (pool_state_bytes sample_pool_state)) = Ok sample_pool_state"
  using decode_image [where X = byte_huma and rest = "[]" and msg = "\<lambda>_. ''eof''"]
  by (simp_all add: sample_huma_ok read_pool_config_bytes [where bs = "[]", simplified]
      read_mode_config_bytes [where bs = "[]", simplified] read_huma_config_bytes [where bs = "[]", simplified]
      read_deployment_config_bytes [where bs = "[]", simplified] read_pool_state_bytes [where bs = "[]", simplified]
      sample_accounts_ok decode_exact_image)

lemma byte_keys:
  "pool_authority_with_bump byte_huma k b = Some 6" "ata_with_program byte_huma a m q = 7"
  "read_clock byte_huma acct = Ok sample_clock" "read_mint_supply byte_huma d = Ok 1000000"
  "read_token_account_amount byte_huma d = Ok 600000"
  "mint_unpack byte_huma = (\<lambda>_. Some (6, None))"
  by (simp_all add: pool_authority_with_bump_def borsh_ext_def sample_huma_def read_clock_def
      read_mint_supply_def read_token_account_amount_def)

lemma byte_chain_data:
  "acc_data (byte_chain POOL_CONFIG_KEY) = account_image byte_huma ''PoolConfig'' (pool_config_bytes sample_pool_config)"
  "acc_data (byte_chain 18) = account_image byte_huma ''ModeConfig'' (mode_config_bytes sample_mode_config)"
  "acc_data (byte_chain 11) = account_image byte_huma ''HumaConfig'' (huma_config_bytes huma_config_default)"
  "acc_data (byte_chain 16) = account_image byte_huma ''DeploymentConfig''
    (deployment_config_bytes \<lparr>dc_bump = 0, dc_strategy_type = KaminoLendType, dc_target_key = 19\<rparr>)"
  "acc_data (byte_chain 5) = account_image byte_huma ''PoolState'' (pool_state_bytes sample_pool_state)"
  by (simp_all add: byte_chain_def byte_account_def POOL_CONFIG_KEY_def)

lemma byte_update:
  "\<exists>v'. huma_update_state byte_huma byte_fetch (fresh_venue, ()) = (Ok (), (v', ()))"
proof -
  have r1: "huma_round_1 byte_huma byte_fetch (fresh_venue, ()) =
      (Ok (sample_pool_config, sample_mode_config), (fresh_venue\<lparr>hv_pool_authority_key := 6\<rparr>, ()))"
    unfolding round_1_Ok
    by (simp add: byte_fetch_def byte_keys byte_chain_def byte_account_def huma_venue_new_def byte_decodes
        POOL_CONFIG_KEY_def)
  have "\<exists>st. huma_round_2 byte_huma byte_fetch sample_pool_config (fresh_venue\<lparr>hv_pool_authority_key := 6\<rparr>, ()) =
      (Ok st, (fresh_venue\<lparr>hv_pool_authority_key := 6\<rparr>, ())) \<and> is_strategy st = KaminoLend sample_kamino"
  proof -
    have src: "liquidity_source (pcf_instant_withdrawal_config sample_pool_config) = Some 16"
      "pcf_huma_config sample_pool_config = 11" "pcf_underlying_mint sample_pool_config = 14"
      "mode_index_for sample_pool_state 18 = Some 0"
      by (simp_all add: sample_pool_config_def sample_pool_state_def mode_index_for_def)
    have v: "hv_pool_state_key fresh_venue = 5" "hv_mode_config_key fresh_venue = 18"
      by (simp_all add: huma_venue_new_def derive_pool_state_def)
    show ?thesis
      unfolding round_2_Ok
      by (simp add: byte_fetch_def huma_decode_round_2_def to_array_def found_def src v byte_chain_data byte_decodes
          byte_keys token_info_new_def from_deployment_config_def)
  qed
  moreover have "strategy_update byte_huma byte_fetch (KaminoLend sample_kamino, ()) =
      (Ok (), (KaminoLend ((kamino_read_reserve byte_huma sample_klend_reserve sample_kamino)
        \<lparr>kl_available_liquidity := 200\<rparr>), ()))"
    by (simp add: strategy_update_def withinS_def byte_kamino_update)
  ultimately show ?thesis unfolding update_Ok using r1 by fastforce
qed

theorem huma_update_reads_bytes_witness:
  "\<exists>v' s. huma_update_state byte_huma byte_fetch (fresh_venue, ()) = (Ok (), (v', ())) \<and> hv_state v' = Some s \<and>
    hv_mode_config v' = sample_mode_config \<and> is_pool_config s = sample_pool_config \<and> is_pool_state s = sample_pool_state"
proof -
  obtain v' where u: "huma_update_state byte_huma byte_fetch (fresh_venue, ()) = (Ok (), (v', ()))"
    using byte_update by blast
  have keys: "hv_pool_config_key fresh_venue = POOL_CONFIG_KEY" "hv_mode_config_key fresh_venue = 18"
    "hv_pool_state_key fresh_venue = 5" "pcf_huma_config sample_pool_config = 11"
    by (simp_all add: huma_venue_new_def derive_pool_state_def sample_pool_config_def)
  have "\<exists>s. hv_state v' = Some s \<and> hv_mode_config v' = sample_mode_config \<and> is_pool_config s = sample_pool_config \<and>
      is_pool_state s = sample_pool_state \<and> is_huma_config s = huma_config_default"
    by (rule huma_update_reads_bytes [OF refl sample_huma_ok(1) sample_accounts_ok,
          where chain = "\<lambda>k. Some (byte_chain k)" and fetch = byte_fetch and ?a1.0 = "byte_chain POOL_CONFIG_KEY"
          and ?a2.0 = "byte_chain 18" and ?a3.0 = "byte_chain 5" and ?a4.0 = "byte_chain 11"
          and ?rest1.0 = "[]" and ?rest2.0 = "[]" and ?rest3.0 = "[]" and ?rest4.0 = "[]"])
      (use u in \<open>simp_all add: keys byte_fetch_def byte_chain_data\<close>)
  then show ?thesis using u by blast
qed

end
