(* ===== verification/Route_Entry.thy ===== *)
theory Route_Entry
  imports Route_Legs Huma_Images "HOL-Library.Sublist"
begin

text \<open>
  The way into the route: the dispatch on the instruction data that \<open>#[program]\<close> generates in
  \<open>lib.rs\<close>, the deserialization and the constraints of the accounts that \<open>#[derive(Accounts)]\<close>
  generates for \<open>SwapRouteV3\<close>, and the call of \<open>execute\<close>. The checks are those that Anchor
  documents for the account types and attributes that the struct uses, in the order of its
  fields, all types first and the attributes after. The handler of \<open>initialize\<close>, whose account
  is created by the System program, is an argument.
\<close>

section \<open>Dispatch (\<open>lib.rs\<close>)\<close>

datatype anchor_error =
  InstructionFallbackNotFound
| InstructionDidNotDeserialize
| ConstraintMut
| ConstraintSeeds
| AccountDiscriminatorNotFound
| AccountDiscriminatorMismatch
| AccountDidNotDeserialize
| AccountNotEnoughKeys
| AccountOwnedByWrongProgram
| InvalidProgramId
| InvalidProgramExecutable
| AccountNotSigner
| AccountNotInitialized

datatype program_error = Anchor anchor_error | Route route_error

datatype program_instruction =
  InitializeIx
| SwapRouteIx u64 u8 "prog_swap list"

text \<open>
  The program's own instructions. The dispatch that Anchor generates also knows a tag of its own
  for the instructions on the account of the IDL; they call no code of the program and are left out.
\<close>

definition dispatch :: "'x ext_scheme \<Rightarrow> u8 list \<Rightarrow> (anchor_error, program_instruction) res" where
  "dispatch X data =
     bindR (anchor_instruction_discriminator X ''initialize'') (\<lambda>initialize_discriminator.
     if prefix initialize_discriminator data then Ok InitializeIx
     else if prefix [42] data then
       (case read_route_args (drop 1 data) of
          None \<Rightarrow> Err InstructionDidNotDeserialize
        | Some ((amount, mints, swaps), _) \<Rightarrow> Ok (SwapRouteIx amount mints swaps))
     else Err InstructionFallbackNotFound)"

section \<open>Accounts\<close>

text \<open>Taking the next account of the instruction, as each type of account does.\<close>

type_synonym 'a taker = "account_info list \<Rightarrow> (anchor_error, 'a \<times> account_info list) res"

fun take_account :: "account_info taker" where
  "take_account [] = Err AccountNotEnoughKeys"
| "take_account (a # as) = Ok (a, as)"

definition take_signer :: "account_info taker" where
  "take_signer as =
     bindR (take_account as) (\<lambda>(a, as).
     bindR (require (ai_is_signer a) AccountNotSigner) (\<lambda>_. Ok (a, as)))"

definition take_titan_pda :: "'x ext_scheme \<Rightarrow> store \<Rightarrow> (account_info \<times> titan_pda) taker" where
  "take_titan_pda X st as =
     bindR (take_account as) (\<lambda>(a, as).
     let acc = st (ai_key a) in
     bindR (require (\<not> (acc_owner acc = SYSTEM_PROGRAM_ID \<and> lamports acc = 0)) AccountNotInitialized) (\<lambda>_.
     bindR (require (acc_owner acc = TITAN_PROGRAM_ID) AccountOwnedByWrongProgram) (\<lambda>_.
     bindR (require (8 \<le> length (acc_data acc)) AccountDiscriminatorNotFound) (\<lambda>_.
     bindR (anchor_account_discriminator X ''TitanPda'') (\<lambda>discriminator.
     bindR (require (take 8 (acc_data acc) = discriminator) AccountDiscriminatorMismatch) (\<lambda>_.
     case read_u8 (drop 8 (acc_data acc)) of
       None \<Rightarrow> Err AccountDidNotDeserialize
     | Some (bump, _) \<Rightarrow> Ok ((a, \<lparr>tp_bump = bump\<rparr>), as)))))))"

definition take_system_program :: "store \<Rightarrow> account_info taker" where
  "take_system_program st as =
     bindR (take_account as) (\<lambda>(a, as).
     bindR (require (ai_key a = SYSTEM_PROGRAM_ID) InvalidProgramId) (\<lambda>_.
     bindR (require (executable (st (ai_key a))) InvalidProgramExecutable) (\<lambda>_. Ok (a, as))))"

text \<open>An optional account that is left out is passed as the program's own id.\<close>

definition unless_titan :: "account_info \<Rightarrow> account_info option" where
  "unless_titan a = (if ai_key a = TITAN_PROGRAM_ID then None else Some a)"

definition take_optional :: "account_info option taker" where
  "take_optional as =
     bindR (take_account as) (\<lambda>(a, as).
       Ok (unless_titan a, as))"

definition check_mut :: "account_info \<Rightarrow> (anchor_error, unit) res" where
  "check_mut a = require (ai_is_writable a) ConstraintMut"

definition check_titan_seeds :: "'x ext_scheme \<Rightarrow> account_info \<Rightarrow> titan_pda \<Rightarrow> (anchor_error, unit) res" where
  "check_titan_seeds X a pda =
     bindR (ok_or (create_pda X [TITAN_PDA_SEED, [tp_bump pda]] TITAN_PROGRAM_ID) ConstraintSeeds) (\<lambda>key.
     require (ai_key a = key) ConstraintSeeds)"

definition try_route_accounts :: "'x ext_scheme \<Rightarrow> store \<Rightarrow> account_info list \<Rightarrow> (anchor_error, route_accounts) res" where
  "try_route_accounts X st as =
     bindR (take_signer as) (\<lambda>(payer, as).
     bindR (take_signer as) (\<lambda>(user, as).
     bindR (take_titan_pda X st as) (\<lambda>((titan_pda, titan_pda_data), as).
     bindR (take_account as) (\<lambda>(input_token_account, as).
     bindR (take_account as) (\<lambda>(output_token_account, as).
     bindR (take_account as) (\<lambda>(token_program, as).
     bindR (take_account as) (\<lambda>(token_2022_program, as).
     bindR (take_system_program st as) (\<lambda>(system_program, as).
     bindR (take_account as) (\<lambda>(associated_token_program, as).
     bindR (take_optional as) (\<lambda>(token_ledger, as).
     bindR (take_optional as) (\<lambda>(reserved_0, as).
     bindR (take_optional as) (\<lambda>(reserved_1, remaining).
     bindR (check_mut payer) (\<lambda>_.
     bindR (check_mut user) (\<lambda>_.
     bindR (check_titan_seeds X titan_pda titan_pda_data) (\<lambda>_.
     bindR (check_mut input_token_account) (\<lambda>_.
     bindR (check_mut output_token_account) (\<lambda>_.
       Ok \<lparr>ra_payer = payer, ra_user = user, ra_titan_pda = titan_pda, ra_titan_pda_data = titan_pda_data,
           ra_input_token_account = input_token_account, ra_output_token_account = output_token_account,
           ra_token_program = token_program, ra_token_2022_program = token_2022_program,
           ra_system_program = system_program, ra_associated_token_program = associated_token_program,
           ra_token_ledger = token_ledger, ra_reserved_optional_account_0 = reserved_0,
           ra_reserved_optional_account_1 = reserved_1, ra_remaining = remaining\<rparr>)))))))))))))))))"

definition process_instruction ::
  "'x ext_scheme \<Rightarrow> runtime \<Rightarrow> (route_state, program_error, unit) stateful \<Rightarrow> account_info list \<Rightarrow> u8 list
    \<Rightarrow> (route_state, program_error, unit) stateful" where
  "process_instruction X R initialize_handler infos data s =
     (case dispatch X data of
        Inr (SwapRouteIx amount mints swaps) \<Rightarrow>
          (case try_route_accounts X (rs_store s) infos of
             Inr C \<Rightarrow> (case execute R C amount mints swaps s of (r, s') \<Rightarrow> (map_err Route r, s'))
           | Inl (Error e) \<Rightarrow> (Err (Anchor e), s)
           | Inl Panicked \<Rightarrow> (Panic, s))
      | Inr InitializeIx \<Rightarrow> initialize_handler s
      | Inl (Error e) \<Rightarrow> (Err (Anchor e), s)
      | Inl Panicked \<Rightarrow> (Panic, s))"

section \<open>What the checks establish\<close>

lemma take_account_Ok [res_inv]: "take_account as = Ok (a, rest) \<longleftrightarrow> as = a # rest"
  by (cases as) auto

lemma take_signer_Ok [res_inv]: "take_signer as = Ok (a, rest) \<longleftrightarrow> as = a # rest \<and> ai_is_signer a"
  by (auto simp: take_signer_def res_inv)

lemma take_system_program_Ok [res_inv]:
  "take_system_program st as = Ok (a, rest) \<longleftrightarrow>
    as = a # rest \<and> ai_key a = SYSTEM_PROGRAM_ID \<and> executable (st (ai_key a))"
  by (auto simp: take_system_program_def res_inv)

lemma take_optional_Ok [res_inv]:
  "take_optional as = Ok (x, rest) \<longleftrightarrow>
    (\<exists>a. as = a # rest \<and> x = unless_titan a)"
  by (auto simp: take_optional_def res_inv)

definition titan_pda_account :: "'x ext_scheme \<Rightarrow> account \<Rightarrow> titan_pda \<Rightarrow> bool" where
  "titan_pda_account X acc pda \<longleftrightarrow> acc_owner acc = TITAN_PROGRAM_ID \<and>
     (\<exists>rest. acc_data acc = account_image X ''TitanPda'' ([tp_bump pda] @ rest))"

lemma take_titan_pda_Ok:
  assumes "take_titan_pda X st as = Ok ((a, pda), rest)" "hashes_ok X"
  shows "as = a # rest \<and> titan_pda_account X (st (ai_key a)) pda"
proof -
  let ?data = "acc_data (st (ai_key a))"
  have *: "as = a # rest" "acc_owner (st (ai_key a)) = TITAN_PROGRAM_ID" "8 \<le> length ?data"
    "take 8 ?data = take DISCRIMINATOR_LEN (hashv X [ascii ''account:'', ascii ''TitanPda''])"
    "\<exists>r. read_u8 (drop 8 ?data) = Some (tp_bump pda, r)"
    using assms(1)
    by (auto simp: take_titan_pda_def Let_def bindR_eq_Inr take_account_Ok require_eq_Inr
        discriminator_ok [OF assms(2)] split: option.splits)
  then obtain r where "drop 8 ?data = tp_bump pda # r"
    by (cases "drop 8 ?data") (auto simp: read_u8_def bindB_def read_bytes_def)
  then have "?data = take 8 ?data @ tp_bump pda # r" by (metis append_take_drop_id)
  then show ?thesis using * by (auto simp: titan_pda_account_def account_image_def)
qed

definition route_accounts_valid :: "'x ext_scheme \<Rightarrow> store \<Rightarrow> route_accounts \<Rightarrow> bool" where
  "route_accounts_valid X st C \<longleftrightarrow>
     ai_is_signer (ra_payer C) \<and> ai_is_writable (ra_payer C) \<and>
     ai_is_signer (ra_user C) \<and> ai_is_writable (ra_user C) \<and>
     titan_pda_account X (st (ai_key (ra_titan_pda C))) (ra_titan_pda_data C) \<and>
     create_pda X [TITAN_PDA_SEED, [tp_bump (ra_titan_pda_data C)]] TITAN_PROGRAM_ID = Some (ai_key (ra_titan_pda C)) \<and>
     ai_is_writable (ra_input_token_account C) \<and> ai_is_writable (ra_output_token_account C) \<and>
     ai_key (ra_system_program C) = SYSTEM_PROGRAM_ID \<and> executable (st SYSTEM_PROGRAM_ID)"

definition accounts_from :: "account_info list \<Rightarrow> route_accounts \<Rightarrow> bool" where
  "accounts_from infos C \<longleftrightarrow> (\<exists>ledger optional_0 optional_1.
     infos = [ra_payer C, ra_user C, ra_titan_pda C, ra_input_token_account C, ra_output_token_account C,
       ra_token_program C, ra_token_2022_program C, ra_system_program C, ra_associated_token_program C,
       ledger, optional_0, optional_1] @ ra_remaining C \<and>
     ra_token_ledger C = unless_titan ledger \<and> ra_reserved_optional_account_0 C = unless_titan optional_0 \<and>
     ra_reserved_optional_account_1 C = unless_titan optional_1)"

lemma take_titan_pda_complete:
  assumes "titan_pda_account X (st (ai_key a)) pda" "hashes_ok X"
  shows "take_titan_pda X st (a # rest) = Ok ((a, pda), rest)"
proof -
  have "TITAN_PROGRAM_ID \<noteq> SYSTEM_PROGRAM_ID" by (simp add: TITAN_PROGRAM_ID_def SYSTEM_PROGRAM_ID_def)
  then show ?thesis
    using assms(1) length_discriminator [OF assms(2), of "[ascii ''account:'', ascii ''TitanPda'']"]
    by (auto simp: take_titan_pda_def Let_def titan_pda_account_def account_image_def discriminator_ok [OF assms(2)]
        DISCRIMINATOR_LEN_def)
qed

lemma try_route_accounts_Ok:
  assumes "hashes_ok X"
  shows "try_route_accounts X st infos = Ok C \<longleftrightarrow> accounts_from infos C \<and> route_accounts_valid X st C"
proof
  show "accounts_from infos C \<and> route_accounts_valid X st C" if "try_route_accounts X st infos = Ok C"
    using that
    by (auto simp: try_route_accounts_def res_inv check_mut_def check_titan_seeds_def accounts_from_def
        route_accounts_valid_def dest!: take_titan_pda_Ok [OF _ assms])
next
  assume "accounts_from infos C \<and> route_accounts_valid X st C"
  then obtain ledger optional_0 optional_1 where
    "infos = [ra_payer C, ra_user C, ra_titan_pda C, ra_input_token_account C, ra_output_token_account C,
       ra_token_program C, ra_token_2022_program C, ra_system_program C, ra_associated_token_program C,
       ledger, optional_0, optional_1] @ ra_remaining C"
    "ra_token_ledger C = unless_titan ledger" "ra_reserved_optional_account_0 C = unless_titan optional_0"
    "ra_reserved_optional_account_1 C = unless_titan optional_1" and valid: "route_accounts_valid X st C"
    unfolding accounts_from_def by blast
  moreover have "take_titan_pda X st (ra_titan_pda C # rest) = Ok ((ra_titan_pda C, ra_titan_pda_data C), rest)" for rest
    using valid by (intro take_titan_pda_complete assms) (simp add: route_accounts_valid_def)
  ultimately show "try_route_accounts X st infos = Ok C"
    by (simp add: try_route_accounts_def route_accounts_valid_def take_signer_def take_system_program_def
        take_optional_def check_mut_def check_titan_seeds_def ok_or_def)
qed

lemma takes_no_panic:
  "take_account as \<noteq> Panic" "take_signer as \<noteq> Panic" "take_system_program st as \<noteq> Panic"
  "take_optional as \<noteq> Panic" "check_mut a \<noteq> Panic" "check_titan_seeds X a pda \<noteq> Panic"
  "hashes_ok X \<Longrightarrow> take_titan_pda X st as \<noteq> Panic"
proof -
  show a: "take_account as \<noteq> Panic" for as by (cases as) auto
  show "take_signer as \<noteq> Panic" "take_system_program st as \<noteq> Panic" "take_optional as \<noteq> Panic"
    "check_mut a \<noteq> Panic" "check_titan_seeds X a pda \<noteq> Panic"
    by (auto simp: take_signer_def take_system_program_def take_optional_def check_mut_def check_titan_seeds_def
        bindR_eq_Inl a require_def ok_or_def split: option.splits)
  show "take_titan_pda X st as \<noteq> Panic" if "hashes_ok X"
    by (auto simp: take_titan_pda_def Let_def bindR_eq_Inl a require_def discriminator_ok [OF that]
        split: option.splits)
qed

lemma try_route_accounts_no_panic: "hashes_ok X \<Longrightarrow> try_route_accounts X st infos \<noteq> Panic"
  by (auto simp: try_route_accounts_def bindR_eq_Inl takes_no_panic)

lemma dispatch_no_panic: "hashes_ok X \<Longrightarrow> dispatch X data \<noteq> Panic"
  by (auto simp: dispatch_def bindR_eq_Inl anchor_instruction_discriminator_def split: option.splits)

section \<open>Properties\<close>

text \<open>
  C9: a route runs only when payer and user signed, the PDA account is the program's own and
  its stored bump derives its key, the accounts that change are writable and the System
  program is the real one; then the transaction is exactly \<open>execute\<close> on these accounts, and the
  seeds with which \<open>execute\<close> signs derive the key of this PDA and no other.
\<close>

theorem route_entry_guarded:
  assumes "hashes_ok X" "dispatch X data = Ok (SwapRouteIx amount mints swaps)"
    and "process_instruction X R initialize_handler infos data s = (Ok (), s')"
  shows "\<exists>C. accounts_from infos C \<and> route_accounts_valid X (rs_store s) C \<and>
    execute R C amount mints swaps s = (Ok (), s') \<and>
    (\<forall>seeds\<in>set (titan_seeds C). create_pda X seeds TITAN_PROGRAM_ID = Some (ai_key (ra_titan_pda C)))"
proof -
  obtain C where C: "try_route_accounts X (rs_store s) infos = Ok C" "execute R C amount mints swaps s = (Ok (), s')"
    using assms(2,3) by (auto simp: process_instruction_def res_inv split: sum.splits fault.splits prod.splits)
  then have "accounts_from infos C" and valid: "route_accounts_valid X (rs_store s) C"
    using try_route_accounts_Ok [OF assms(1)] by blast+
  moreover have "\<forall>seeds\<in>set (titan_seeds C). create_pda X seeds TITAN_PROGRAM_ID = Some (ai_key (ra_titan_pda C))"
    using valid by (simp add: titan_seeds_def route_accounts_valid_def)
  ultimately show ?thesis using C(2) by blast
qed

definition entry_ext :: huma_ext where
  "entry_ext = sample_huma\<lparr>create_pda := (\<lambda>_ _. Some 9)\<rparr>"

lemma entry_ext_ok: "hashes_ok entry_ext" "anchor_instruction_discriminator entry_ext n = Ok (replicate 8 0)"
  "create_pda entry_ext seeds k = Some 9" "hashv entry_ext bs = replicate 32 0"
  by (simp_all add: entry_ext_def hashes_ok_def sample_huma_def anchor_instruction_discriminator_def
      anchor_discriminator_def get_range_def DISCRIMINATOR_LEN_def)

definition sample_infos :: "account_info list" where
  "sample_infos =
     (let C = sample_accounts None in
      [ra_payer C, ra_user C, ra_titan_pda C, ra_input_token_account C, ra_output_token_account C,
       ra_token_program C, ra_token_2022_program C, ra_system_program C, ra_associated_token_program C,
       sample_info TITAN_PROGRAM_ID, sample_info TITAN_PROGRAM_ID, sample_info TITAN_PROGRAM_ID] @ ra_remaining C)"

lemma sample_entry:
  "accounts_from sample_infos (sample_accounts None)" "route_accounts_valid entry_ext sample_store (sample_accounts None)"
proof -
  show "accounts_from sample_infos (sample_accounts None)"
    unfolding accounts_from_def sample_infos_def Let_def
    by (intro exI [of _ "sample_info TITAN_PROGRAM_ID"]) (simp add: unless_titan_def sample_accounts_def)
  have "titan_pda_account entry_ext (sample_store 9) \<lparr>tp_bump = 255\<rparr>"
    by (simp add: titan_pda_account_def account_image_def entry_ext_ok DISCRIMINATOR_LEN_def sample_store_def)
  moreover have "executable (sample_store SYSTEM_PROGRAM_ID)"
    by (simp add: sample_store_def SYSTEM_PROGRAM_ID_def)
  ultimately show "route_accounts_valid entry_ext sample_store (sample_accounts None)"
    by (simp add: route_accounts_valid_def entry_ext_ok) (simp add: sample_accounts_def SYSTEM_PROGRAM_ID_def)
qed

definition sample_route_data :: "u8 list" where
  "sample_route_data = encode_swap_route_v3_data 50 2
     [\<lparr>sp_venue = RouteHuma True, sp_from = 0, sp_to = 1, sp_weight_nanos = ROUTE_WEIGHT_ALL, sp_n_accounts = 4\<rparr>]"

lemma read_builder_data:
  "length swaps < 2 ^ 32 \<Longrightarrow>
    read_route_args (drop 1 (encode_swap_route_v3_data amount mints swaps @ rest)) =
    Some ((amount, mints, map on_chain_swap swaps), rest)"
  by (simp add: read_route_args_def encode_swap_route_v3_data_def bindB_def SWAP_ROUTE_V3_DISCRIMINATOR_def
      read_vec_def read_swaps_bytes unat_of_length)

lemma dispatch_builder_data:
  assumes "(anchor_instruction_discriminator X ''initialize'' :: (anchor_error, u8 list) res) = Ok (d # ds)"
    and "d \<noteq> 42" "length swaps < 2 ^ 32"
  shows "dispatch X (encode_swap_route_v3_data amount mints swaps @ rest) =
    Ok (SwapRouteIx amount mints (map on_chain_swap swaps))"
proof -
  have "\<exists>tail. encode_swap_route_v3_data amount mints swaps @ rest = 42 # tail"
    by (simp add: encode_swap_route_v3_data_def SWAP_ROUTE_V3_DISCRIMINATOR_def)
  then obtain tail where tail: "encode_swap_route_v3_data amount mints swaps @ rest = 42 # tail" by blast
  show ?thesis
    using read_builder_data [OF assms(3), of amount mints rest] assms(1,2) unfolding dispatch_def tail by simp
qed

lemma sample_dispatch: "dispatch entry_ext sample_route_data = Ok (SwapRouteIx 50 2 [sample_swap])"
proof -
  have "(anchor_instruction_discriminator entry_ext ''initialize'' :: (anchor_error, u8 list) res) = Ok (0 # replicate 7 0)"
    using entry_ext_ok(2) by (simp add: numeral_eq_Suc)
  from dispatch_builder_data [OF this, of _ 50 2 "[]"] show ?thesis
    by (simp add: sample_route_data_def on_chain_swap_def sample_swap_def ROUTE_WEIGHT_ALL_def)
qed

lemma sample_process:
  "\<exists>s'. process_instruction entry_ext sample_runtime h sample_infos sample_route_data sample_start = (Ok (), s')"
proof -
  have "try_route_accounts entry_ext sample_store sample_infos = Ok (sample_accounts None)"
    using sample_entry try_route_accounts_Ok [OF entry_ext_ok(1)] by blast
  then show ?thesis using sample_execute by (auto simp: process_instruction_def sample_dispatch)
qed

theorem route_entry_guarded_witness:
  "\<exists>C s'. execute sample_runtime C 50 2 [sample_swap] sample_start = (Ok (), s') \<and>
    route_accounts_valid entry_ext sample_store C \<and> accounts_from sample_infos C"
proof -
  obtain s' where "process_instruction entry_ext sample_runtime (\<lambda>s. (Ok (), s)) sample_infos sample_route_data sample_start = (Ok (), s')"
    using sample_process by blast
  from route_entry_guarded [OF entry_ext_ok(1) sample_dispatch this] show ?thesis by auto
qed

text \<open>
  C30: when the accounts are not such (fewer than twelve, a missing signature, a PDA that is not
  the program's or not of its own seeds, a read-only account that must change, another System
  program), the instruction is an error of Anchor's, and no account was changed nor any program
  called.
\<close>

theorem route_entry_refuses:
  assumes "hashes_ok X" "dispatch X data = Ok (SwapRouteIx amount mints swaps)"
    and "\<And>C. accounts_from infos C \<Longrightarrow> \<not> route_accounts_valid X (rs_store s) C"
  shows "\<exists>e. process_instruction X R initialize_handler infos data s = (Err (Anchor e), s)"
proof -
  obtain e where "try_route_accounts X (rs_store s) infos = Err e"
    using try_route_accounts_Ok [OF assms(1), of "rs_store s" infos] assms(3)
      try_route_accounts_no_panic [OF assms(1), of "rs_store s" infos]
    by (cases "try_route_accounts X (rs_store s) infos" rule: sum.exhaust) (auto, metis fault.exhaust)
  then show ?thesis by (simp add: process_instruction_def assms(2))
qed

theorem route_entry_refuses_witness:
  "\<exists>e. process_instruction entry_ext sample_runtime (\<lambda>s. (Ok (), s))
    (sample_infos[1 := \<lparr>ai_key = 2, ai_is_signer = False, ai_is_writable = True\<rparr>]) sample_route_data sample_start =
    (Err (Anchor e), sample_start)"
proof (rule route_entry_refuses [OF entry_ext_ok(1) sample_dispatch])
  fix C
  assume "accounts_from (sample_infos[1 := \<lparr>ai_key = 2, ai_is_signer = False, ai_is_writable = True\<rparr>]) C"
  then have "ra_user C = \<lparr>ai_key = 2, ai_is_signer = False, ai_is_writable = True\<rparr>"
    by (auto simp: accounts_from_def sample_infos_def Let_def)
  then have "\<not> ai_is_signer (ra_user C)" by simp
  then show "\<not> route_accounts_valid entry_ext (rs_store sample_start) C"
    by (simp add: route_accounts_valid_def)
qed

text \<open>
  C18: the instruction data that the off-chain builder writes reaches \<open>execute\<close> as the builder's
  amount, number of mints and legs, on the accounts as the struct names them.
\<close>

theorem builder_data_runs_route:
  assumes "hashes_ok X"
    and "(anchor_instruction_discriminator X ''initialize'' :: (anchor_error, u8 list) res) = Ok (d # ds)" "d \<noteq> 42"
    and "length swaps < 2 ^ 32" "accounts_from infos C" "route_accounts_valid X (rs_store s) C"
  shows "process_instruction X R initialize_handler infos (encode_swap_route_v3_data amount mints swaps) s =
    (case execute R C amount mints (map on_chain_swap swaps) s of (r, s') \<Rightarrow> (map_err Route r, s'))"
proof -
  have "dispatch X (encode_swap_route_v3_data amount mints swaps) = Ok (SwapRouteIx amount mints (map on_chain_swap swaps))"
    using dispatch_builder_data [OF assms(2,3,4), of amount mints "[]"] by simp
  moreover have "try_route_accounts X (rs_store s) infos = Ok C"
    using try_route_accounts_Ok [OF assms(1)] assms(5,6) by blast
  ultimately show ?thesis by (simp add: process_instruction_def)
qed

theorem builder_data_runs_route_witness:
  "\<exists>s'. process_instruction entry_ext sample_runtime (\<lambda>s. (Ok (), s)) sample_infos sample_route_data sample_start =
    (Ok (), s')"
proof -
  have d: "(anchor_instruction_discriminator entry_ext ''initialize'' :: (anchor_error, u8 list) res) = Ok (0 # replicate 7 0)"
    using entry_ext_ok(2) by (simp add: numeral_eq_Suc)
  have swap: "map on_chain_swap
      [\<lparr>sp_venue = RouteHuma True, sp_from = 0, sp_to = 1, sp_weight_nanos = ROUTE_WEIGHT_ALL, sp_n_accounts = 4\<rparr>] = [sample_swap]"
    by (simp add: on_chain_swap_def sample_swap_def ROUTE_WEIGHT_ALL_def)
  obtain calls where run: "execute sample_runtime (sample_accounts None) 50 2 [sample_swap] sample_start =
      (Ok (), \<lparr>rs_store = sample_done, rs_calls = calls\<rparr>)"
    using sample_execute by blast
  show ?thesis unfolding sample_route_data_def
    by (subst builder_data_runs_route [OF entry_ext_ok(1) d _ _ sample_entry(1)])
      (simp_all only: swap run prod.case map_err_simps route_state.simps sample_entry(2), simp_all)
qed

end
