(* ===== verification/Route_Runs.thy ===== *)
theory Route_Runs
  imports Route_Entry
begin

text \<open>
  The route as a whole: the legs that the builder lays one after another in the remaining
  accounts are the legs the program runs, each on its own accounts, and what the route
  gained in the output token is what the user is paid.
\<close>

section \<open>The legs in the remaining accounts\<close>

lemma bindS_assoc: "bindS (bindS m f) g = bindS m (\<lambda>a. bindS (f a) g)"
  by (auto simp: bindS_def fun_eq_iff split: prod.splits sum.splits)

lemma foldS_map: "foldS f (map g xs) = foldS (\<lambda>x. f (g x)) xs"
proof (induction xs)
  case (Cons x xs)
  show ?case by (rule ext) (simp only: list.map foldS.simps Cons.IH)
qed (simp add: fun_eq_iff)

text \<open>A leg on accounts of its own, wherever they stand.\<close>

definition run_own_leg ::
  "runtime \<Rightarrow> route_accounts \<Rightarrow> u64 list \<Rightarrow> seeds \<Rightarrow> prog_swap \<times> account_info list \<Rightarrow> unit route_op" where
  "run_own_leg R C reserved_balances signer_seeds leg =
     (case leg of (swap, leg_accounts) \<Rightarrow>
      bindS (ok_orS (get (ra_remaining C) (unat (ps_from swap))) MissingRemainingAccount) (\<lambda>input_account.
      bindS (readS (\<lambda>st. extract_token_amount st input_account)) (\<lambda>input_token_balance.
      bindS (liftS (unwrap (get reserved_balances (unat (ps_from swap))))) (\<lambda>reserved.
      let input_amount = leg_input input_token_balance reserved (ps_weight_nanos swap) in
      if 0 < input_amount then
        bindS (liftS (leg_account_metas (ai_key (ra_titan_pda C)) leg_accounts (length leg_accounts))) (\<lambda>account_metas.
        perform_cpi_swap R input_amount swap account_metas leg_accounts signer_seeds)
      else liftS (Ok ())))))"

definition leg_fits :: "prog_swap \<times> account_info list \<Rightarrow> bool" where
  "leg_fits leg \<longleftrightarrow> snd leg \<noteq> [] \<and> unat (ps_n_accounts (fst leg)) = length (snd leg)"

lemma run_leg_own:
  assumes "leg_fits (swap, infos)" "ra_remaining C = front @ infos @ rest"
  shows "run_leg R C reserved seeds swap (length front) =
    bindS (run_own_leg R C reserved seeds (swap, infos)) (\<lambda>_. liftS (Ok (length front + length infos)))"
proof -
  have n: "unat (ps_n_accounts swap) = length infos" "infos \<noteq> []"
    using assms(1) by (simp_all add: leg_fits_def)
  have "slice_p (ra_remaining C) (length front) (length front + length infos) = Ok infos" by (simp add: assms(2))
  moreover have "length front + length infos \<le> length (ra_remaining C)" by (simp add: assms(2))
  ultimately show ?thesis
    by (simp add: run_leg_def run_own_leg_def n requireS_def bindS_return bindS_assoc Let_def cong: if_cong)
qed

lemma run_legs_own:
  "list_all leg_fits legs \<Longrightarrow> ra_remaining C = front @ concat (map snd legs) @ rest \<Longrightarrow>
    foldS (run_leg R C reserved seeds) (map fst legs) (length front) =
    bindS (foldS (\<lambda>leg _. run_own_leg R C reserved seeds leg) legs ())
      (\<lambda>_. liftS (Ok (length front + length (concat (map snd legs)))))"
proof (induction legs arbitrary: front)
  case Nil
  then show ?case by (simp add: bindS_return)
next
  case (Cons leg legs)
  have one: "run_leg R C reserved seeds (fst leg) (length front) =
      bindS (run_own_leg R C reserved seeds leg) (\<lambda>_. liftS (Ok (length front + length (snd leg))))"
    using Cons.prems by (cases leg) (simp add: run_leg_own)
  have "foldS (run_leg R C reserved seeds) (map fst legs) (length (front @ snd leg)) =
      bindS (foldS (\<lambda>leg _. run_own_leg R C reserved seeds leg) legs ())
        (\<lambda>_. liftS (Ok (length (front @ snd leg) + length (concat (map snd legs)))))"
    using Cons.prems by (intro Cons.IH) simp_all
  then show ?case by (simp add: one bindS_assoc bindS_return add.assoc)
qed

section \<open>The payment\<close>

fun is_transfer :: "cpi_call \<Rightarrow> bool" where
  "is_transfer (Transfer tp from to authority amount seeds) = True"
| "is_transfer (TransferChecked tp from mint to authority amount decs seeds) = True"
| "is_transfer _ = False"

text \<open>The payment of an amount of the output to the user, under the PDA's signature.\<close>

definition output_payment ::
  "route_accounts \<Rightarrow> account_info \<Rightarrow> account_info \<Rightarrow> account_info \<Rightarrow> u64 \<Rightarrow> u8 \<Rightarrow> cpi_call" where
  "output_payment C token_program from mint amount decs =
     (if ai_key token_program = TOKEN_2022_PROGRAM_ID
      then TransferChecked token_program from mint (ra_output_token_account C) (ra_titan_pda C) amount decs (titan_seeds C)
      else Transfer token_program from (ra_output_token_account C) (ra_titan_pda C) amount (titan_seeds C))"

text \<open>The calls since \<open>base\<close>, of which the token transfers are \<open>ts\<close>.\<close>

definition transfers_since :: "cpi_call list \<Rightarrow> cpi_call list \<Rightarrow> route_state \<Rightarrow> bool" where
  "transfers_since base ts s \<longleftrightarrow> (\<exists>later. rs_calls s = base @ later \<and> filter is_transfer later = ts)"

lemma keeps_transfers_cpi: "\<not> is_transfer c \<Longrightarrow> keeps (transfers_since base ts) (cpi R c)"
  by (rule keeps_cpi) (auto simp: transfers_since_def)

lemma keeps_transfers:
  "keeps (transfers_since base ts) (create_user_ata R payer owner mint ata tp sp)"
  "keeps (transfers_since base ts) (close_created_atas R C m created seeds)"
  by (auto simp: create_user_ata_def close_created_atas_def close_created_ata_def close_titan_pda_ata_def
      token_program_of_def
      intro!: keeps_transfers_cpi keeps_bindS keeps_readS keeps_ok_orS keeps_liftS keeps_foldS)

lemma payment_calls:
  assumes "transfer_tokens R tp from (ra_output_token_account C) (ra_titan_pda C) (Some mint) amount d
      (Some (titan_seeds C)) s = (Ok (), s')"
    and "transfers_since base [] s"
  shows "transfers_since base (if amount = 0 then [] else [output_payment C tp from mint amount d]) s'"
  using assms
  by (auto simp: transfer_tokens_def transfers_since_def output_payment_def cpi_def ok_orS_def liftS_def bindS_def
      split: if_splits sum.splits)

lemma pay_output_calls:
  assumes "pay_output R C reserved (titan_seeds C) out mint d s = (Ok (), s')"
  obtains balance where "extract_token_amount (rs_store s) (ra_remaining C ! out) = Ok balance"
    "out < length (ra_remaining C)" "out < length reserved"
    "transfers_since (rs_calls s)
       (if balance \<le> reserved ! out then []
        else [output_payment C (get_token_program_for_mint (rs_store s) mint (ra_token_program C) (ra_token_2022_program C))
                (ra_remaining C ! out) mint (balance - reserved ! out) d]) s'"
proof -
  let ?tp = "get_token_program_for_mint (rs_store s) mint (ra_token_program C) (ra_token_2022_program C)"
  obtain balance s1 where *: "extract_token_amount (rs_store s) (ra_remaining C ! out) = Ok balance"
    "out < length (ra_remaining C)" "out < length reserved"
    "(if \<not> account_exists (rs_store s) (ra_output_token_account C) then
        create_user_ata R (ra_payer C) (ra_user C) mint (ra_output_token_account C) ?tp (ra_system_program C)
      else liftS (Ok ())) s = (Ok (), s1)"
    "transfer_tokens R ?tp (ra_remaining C ! out) (ra_output_token_account C) (ra_titan_pda C) (Some mint)
       (saturating_sub balance (reserved ! out)) d (Some (titan_seeds C)) s1 = (Ok (), s')"
    using assms
    by (auto simp: pay_output_def Let_def bindS_eq_Inr readS_eq_Inr ok_orS_eq_Inr liftS_eq_Inr unwrap_eq_Inr get_eq_Some
        token_program_of_def)
  have "keeps (transfers_since (rs_calls s) [])
      (if \<not> account_exists (rs_store s) (ra_output_token_account C) then
        create_user_ata R (ra_payer C) (ra_user C) mint (ra_output_token_account C) ?tp (ra_system_program C)
      else liftS (Ok ()))"
    by (simp add: keeps_transfers keeps_liftS)
  from keeps_stepD [OF this *(4)] have "transfers_since (rs_calls s) [] s1"
    by (simp add: transfers_since_def)
  from payment_calls [OF *(5) this] show thesis
    by (intro that [OF *(1-3)]) (auto simp: saturating_sub_def split: if_splits)
qed

section \<open>Properties\<close>

text \<open>
  A leg as the builder hands it over: its specification and its account metas, together
  built for a venue and a request, with a count that fits its byte.
\<close>

definition built_leg :: "pubkey \<Rightarrow> swap_spec \<times> account_meta list \<Rightarrow> bool" where
  "built_leg titan leg \<longleftrightarrow> length (snd leg) \<le> 255 \<and>
     (\<exists>v request i j w. build_swap_leg v request titan i j w = Ok leg)"

definition on_chain_leg :: "swap_spec \<times> account_meta list \<Rightarrow> prog_swap \<times> account_info list" where
  "on_chain_leg leg = (on_chain_swap (fst leg), map info_of (snd leg))"

lemma built_leg_fits: "built_leg titan leg \<Longrightarrow> leg_fits (on_chain_leg leg)"
proof -
  assume "built_leg titan leg"
  then obtain v request i j w where b: "build_swap_leg v request titan i j w = Ok (fst leg, snd leg)"
    and len: "length (snd leg) \<le> 255"
    by (auto simp: built_leg_def)
  have "snd leg \<noteq> []" "sp_n_accounts (fst leg) = of_nat (length (snd leg))"
    by (rule build_leg_Ok [OF b], auto simp: assemble_leg_accounts_def)+
  then show ?thesis
    using len by (simp add: leg_fits_def on_chain_leg_def on_chain_swap_def unat_of_nat)
qed

text \<open>
  C16: when the remaining accounts hold the accounts of built legs one after another behind
  the accounts and the mints of the route, the program runs each leg on exactly the accounts
  the builder made for it, in order, and reads no account twice as part of two legs; accounts
  behind the last leg are left alone.
\<close>

theorem route_runs_built_legs:
  fixes mints :: u8
  assumes "list_all (built_leg titan) legs"
    and "ra_remaining C = front @ map info_of (concat (map snd legs)) @ rest" "length front = 2 * unat mints"
  shows "foldS (run_leg R C reserved_balances seeds) (map (on_chain_swap \<circ> fst) legs) (2 * unat mints) =
    bindS (foldS (\<lambda>leg _. run_own_leg R C reserved_balances seeds (on_chain_leg leg)) legs ())
      (\<lambda>_. liftS (Ok (2 * unat mints + length (concat (map snd legs)))))"
proof -
  let ?legs = "map on_chain_leg legs"
  have fits: "list_all leg_fits ?legs"
    using assms(1) built_leg_fits by (fastforce simp: list_all_iff)
  have accs: "concat (map snd ?legs) = map info_of (concat (map snd legs))"
    by (simp add: map_concat comp_def on_chain_leg_def)
  have fold: "foldS (\<lambda>leg _. run_own_leg R C reserved_balances seeds leg) ?legs =
      foldS (\<lambda>leg _. run_own_leg R C reserved_balances seeds (on_chain_leg leg)) legs"
    by (rule foldS_map)
  have swaps: "map fst ?legs = map (on_chain_swap \<circ> fst) legs" by (simp add: on_chain_leg_def)
  have "foldS (run_leg R C reserved_balances seeds) (map fst ?legs) (length front) =
      bindS (foldS (\<lambda>leg _. run_own_leg R C reserved_balances seeds leg) ?legs ())
        (\<lambda>_. liftS (Ok (length front + length (concat (map snd ?legs)))))"
    by (rule run_legs_own [OF fits]) (simp only: accs assms(2))
  then show ?thesis by (simp only: fold swaps accs length_map assms(3))
qed

text \<open>
  C14: a route that succeeds pays the user the whole gain of the output account, once. Let
  \<open>before\<close> be its balance when the missing accounts of the mints exist and no input was taken
  yet, and \<open>after\<close> its balance when the last leg has run on the state that the input left. Of
  the calls made after the legs, none is a token transfer when \<open>after\<close> is at most \<open>before\<close>, and
  otherwise exactly one is: the difference, from the PDA's output account to the user's, under
  the PDA's signature and by the token program of the output mint.
\<close>

theorem route_pays_whole_gain:
  assumes "execute R C amount mints swaps s = (Ok (), s')"
  defines "o_index \<equiv> unat (ps_to (last swaps))"
  defines "out \<equiv> ra_remaining C ! o_index"
    and "mint \<equiv> ra_remaining C ! (unat mints + o_index)"
  shows "\<exists>ledger input_decs output_decs created s1 bitmap balances reserved input s2 n s3 before after later.
    read_token_ledger (rs_store s) (ra_token_ledger C) (ra_input_token_account C) = Ok ledger \<and>
    extract_mint_decimals (rs_store s) (ra_remaining C ! unat mints) = Ok input_decs \<and>
    extract_mint_decimals (rs_store s) mint = Ok output_decs \<and>
    create_missing_atas R C (unat mints) s = (Ok created, s1) \<and>
    scan_accounts (rs_store s1) (ai_key (ra_titan_pda C)) (unat mints) 0 (ra_remaining C)
      (bitmap_new, [], replicate MAX_MINTS 0) = Ok (bitmap, balances, reserved) \<and>
    effective_amount (rs_store s1) C amount ledger = Ok input \<and>
    take_input R C ledger (ra_remaining C ! unat mints) input_decs input s1 = (Ok (), s2) \<and>
    foldS (run_leg R C reserved (titan_seeds C)) swaps (2 * unat mints) s2 = (Ok n, s3) \<and>
    extract_token_amount (rs_store s1) out = Ok before \<and> extract_token_amount (rs_store s3) out = Ok after \<and>
    rs_calls s' = rs_calls s3 @ later \<and>
    filter is_transfer later =
      (if after \<le> before then []
       else [output_payment C
               (get_token_program_for_mint (rs_store s3) mint (ra_token_program C) (ra_token_2022_program C))
               out mint (after - before) output_decs])"
proof -
  obtain ledger input_mint output_mint d1 d2 created s1 bitmap balances reserved input s2 n s3 s4 where *:
    "check_route_input C mints swaps = Ok ()"
    "read_token_ledger (rs_store s) (ra_token_ledger C) (ra_input_token_account C) = Ok ledger"
    "get (ra_remaining C) (unat mints) = Some input_mint"
    "get (ra_remaining C) (unat mints + unat (ps_to (last swaps))) = Some output_mint"
    "extract_mint_decimals (rs_store s) input_mint = Ok d1"
    "extract_mint_decimals (rs_store s) output_mint = Ok d2"
    "create_missing_atas R C (unat mints) s = (Ok created, s1)"
    "scan_accounts (rs_store s1) (ai_key (ra_titan_pda C)) (unat mints) 0 (ra_remaining C)
       (bitmap_new, [], replicate MAX_MINTS 0) = Ok (bitmap, balances, reserved)"
    "effective_amount (rs_store s1) C amount ledger = Ok input"
    "take_input R C ledger input_mint d1 input s1 = (Ok (), s2)"
    "foldS (run_leg R C reserved (titan_seeds C)) swaps (2 * unat mints) s2 = (Ok n, s3)"
    "pay_output R C reserved (titan_seeds C) (unat (ps_to (last swaps))) output_mint d2 s3 = (Ok (), s4)"
    "close_created_atas R C (unat mints) created (titan_seeds C) s4 = (Ok (), s')"
    by (rule execute_Ok [OF assms(1)])
  have mints: "input_mint = ra_remaining C ! unat mints" "output_mint = mint"
    using *(3,4) by (simp_all add: get_eq_Some mint_def o_index_def)
  obtain after where after: "extract_token_amount (rs_store s3) out = Ok after" "o_index < length (ra_remaining C)"
    "transfers_since (rs_calls s3)
       (if after \<le> reserved ! o_index then []
        else [output_payment C (get_token_program_for_mint (rs_store s3) mint (ra_token_program C) (ra_token_2022_program C))
                out mint (after - reserved ! o_index) d2]) s4"
    using pay_output_calls [OF *(12), folded o_index_def, folded out_def, unfolded mints] by blast
  have "o_index < unat mints"
    using *(1) unfolding check_route_input_Ok by (auto simp: word_less_nat_alt o_index_def)
  then have before: "extract_token_amount (rs_store s1) out = Ok (reserved ! o_index)"
    using scan_accounts_minted [OF *(8)] after(2) by (simp add: out_def)
  obtain later where "rs_calls s' = rs_calls s3 @ later" "filter is_transfer later =
       (if after \<le> reserved ! o_index then []
        else [output_payment C (get_token_program_for_mint (rs_store s3) mint (ra_token_program C) (ra_token_2022_program C))
                out mint (after - reserved ! o_index) d2])"
    using keeps_stepD [OF keeps_transfers(2) *(13) after(3)] by (auto simp: transfers_since_def)
  with *(2,5-11) before after(1) show ?thesis unfolding mints by blast
qed

abbreviation leg_route_accounts :: "account_meta list \<Rightarrow> route_accounts" where
  "leg_route_accounts accounts \<equiv>
     (sample_accounts None)\<lparr>ra_remaining := map sample_info [10, 11, 20, 21] @ map info_of accounts\<rparr>"

theorem route_runs_built_legs_witness:
  "\<exists>leg. build_swap_leg (huma_trading_venue sample_huma sample_huma_venue) (exact_in_request 5 14 77) 99 1 0 5 = Ok leg \<and>
    (\<forall>seeds. foldS (run_leg sample_runtime (leg_route_accounts (snd leg)) [7, 3] seeds)
        (map (on_chain_swap \<circ> fst) [leg]) (2 * unat (2 :: u8)) =
      bindS (foldS (\<lambda>leg' _. run_own_leg sample_runtime (leg_route_accounts (snd leg)) [7, 3] seeds (on_chain_leg leg')) [leg] ())
        (\<lambda>_. liftS (Ok (2 * unat (2 :: u8) + length (concat (map snd [leg]))))))"
proof -
  obtain spec accounts where b: "build_swap_leg (huma_trading_venue sample_huma sample_huma_venue)
      (exact_in_request 5 14 77) 99 1 0 5 = Ok (spec, accounts)"
    using sample_leg by blast
  have good: "strategy_good sample_huma (is_strategy sample_state)"
    using kamino_reachable_good(1) [OF sample_kamino_reachable] by (simp add: sample_state_def)
  obtain ix where ix: "huma_generate_swap_instruction sample_huma sample_huma_venue (exact_in_request 5 14 77) 99 = Ok ix"
    "accounts = assemble_leg_accounts ix 99 PROGRAM_ID"
    using build_leg_Ok [OF b] by (metis (lifting) huma_trading_venue_def trading_venue.select_convs(2,9))
  have "length (ix_accounts ix) \<le> 31"
    by (rule huma_instruction_signers(2) [OF ix(1) sample_venue_simps(1) good])
  then have "length accounts \<le> 255" by (simp add: ix(2) assemble_length)
  then have "built_leg 99 (spec, accounts)" using b unfolding built_leg_def snd_conv by blast
  then have "list_all (built_leg 99) [(spec, accounts)]" by simp
  have "foldS (run_leg sample_runtime (leg_route_accounts accounts) [7, 3] seeds) (map (on_chain_swap \<circ> fst) [(spec, accounts)])
        (2 * unat (2 :: u8)) =
      bindS (foldS (\<lambda>leg _. run_own_leg sample_runtime (leg_route_accounts accounts) [7, 3] seeds (on_chain_leg leg)) [(spec, accounts)] ())
        (\<lambda>_. liftS (Ok (2 * unat (2 :: u8) + length (concat (map snd [(spec, accounts)])))))" for seeds
    by (rule route_runs_built_legs [OF \<open>list_all (built_leg 99) _\<close>, where front = "map sample_info [10, 11, 20, 21]" and rest = "[]"])
      simp_all
  then show ?thesis using b by (intro exI [of _ "(spec, accounts)"] conjI allI) (simp_all only: snd_conv)
qed

theorem route_pays_whole_gain_witness:
  "\<exists>s'. execute sample_runtime (sample_accounts None) 50 2 [sample_swap] sample_start = (Ok (), s') \<and>
    Transfer (sample_info TOKEN_PROGRAM_ID) (sample_info 11) (sample_info 4) (sample_info 9) 50
      (titan_seeds (sample_accounts None)) \<in> set (rs_calls s')"
proof -
  let ?C = "sample_accounts None"
  obtain s' where run: "execute sample_runtime ?C 50 2 [sample_swap] sample_start = (Ok (), s')"
    using sample_execute by blast
  have rem: "ra_remaining ?C ! 1 = sample_info 11" "ra_remaining ?C ! 2 = sample_info 20" "ra_remaining ?C ! 3 = sample_info 21"
    "unat (ps_to (last [sample_swap])) = 1" "ai_key (ra_titan_pda ?C) = 9" "ra_output_token_account ?C = sample_info 4"
    "ra_titan_pda ?C = sample_info 9" "ra_token_ledger ?C = None" "ra_remaining ?C ! (unat (2 :: u8) + 1) = sample_info 21"
    "ra_remaining ?C ! Suc 0 = sample_info 11" "ra_remaining ?C ! unat (2 :: u8) = sample_info 20"
    by (simp_all add: sample_accounts_def sample_swap_def)
  from route_pays_whole_gain [OF run, unfolded rem(4)] obtain input_decs output_decs s1 bitmap balances reserved s2 n s3 before after later
    where *: "create_missing_atas sample_runtime ?C 2 sample_start = (Ok 0, s1)"
    "scan_accounts (rs_store s1) 9 2 0 (ra_remaining ?C) (bitmap_new, [], replicate MAX_MINTS 0) = Ok (bitmap, balances, reserved)"
    "take_input sample_runtime ?C None (sample_info 20) input_decs 50 s1 = (Ok (), s2)"
    "foldS (run_leg sample_runtime ?C reserved (titan_seeds ?C)) [sample_swap] 4 s2 = (Ok n, s3)"
    "extract_token_amount (rs_store s1) (sample_info 11) = Ok before" "extract_token_amount (rs_store s3) (sample_info 11) = Ok after"
    "rs_calls s' = rs_calls s3 @ later"
    "filter is_transfer later = (if after \<le> before then [] else [output_payment ?C
       (get_token_program_for_mint (rs_store s3) (sample_info 21) (ra_token_program ?C) (ra_token_2022_program ?C))
       (sample_info 11) (sample_info 21) (after - before) output_decs])"
    by (auto simp: rem sample_exists read_token_ledger_def effective_amount_def simp del: foldS.simps cong: if_cong)
  have s1: "s1 = sample_start" using *(1) by (simp add: sample_exists)
  have "s2 = \<lparr>rs_store = sample_paid, rs_calls =
       [Transfer (sample_info TOKEN_PROGRAM_ID) (sample_info 3) (sample_info 10) (ra_user ?C) 50 []]\<rparr>"
    using *(3) by (simp add: s1 sample_take_input)
  moreover have "reserved = [7, 3, 0, 0, 0, 0, 0, 0, 0, 0, 0, 0]" using *(2) by (simp add: s1 sample_scan)
  ultimately have s3: "rs_store s3 = sample_swapped"
    using *(4) sample_legs [of None "[Transfer (sample_info TOKEN_PROGRAM_ID) (sample_info 3) (sample_info 10) (ra_user ?C) 50 []]"]
    by (auto simp del: foldS.simps)
  have "extract_token_amount sample_swapped (sample_info 11) = Ok 53" "extract_token_amount sample_store (sample_info 11) = Ok 3"
    by (rule sample_token_reads, simp add: sample_swapped_def sample_store_simps)+
  then have "after = 53" "before = 3" using *(5,6) by (simp_all add: s1 s3)
  moreover have "get_token_program_for_mint sample_swapped (sample_info 21) (ra_token_program ?C) (ra_token_2022_program ?C) =
      sample_info TOKEN_PROGRAM_ID"
    by (simp add: get_token_program_for_mint_def sample_swapped_def sample_paid_def sample_store_def sample_accounts_def
        TOKEN_PROGRAM_ID_def TOKEN_2022_PROGRAM_ID_def)
  ultimately have "filter is_transfer later = [Transfer (sample_info TOKEN_PROGRAM_ID) (sample_info 11) (sample_info 4)
      (sample_info 9) 50 (titan_seeds ?C)]"
    using *(8) by (simp add: s3 rem output_payment_def TOKEN_PROGRAM_ID_def TOKEN_2022_PROGRAM_ID_def)
  then have "Transfer (sample_info TOKEN_PROGRAM_ID) (sample_info 11) (sample_info 4)
      (sample_info 9) 50 (titan_seeds ?C) \<in> set (filter is_transfer later)" by (simp only: list.set_intros)
  then show ?thesis using run *(7) by auto
qed

end
