(* ===== verification/Cache_Steps.thy ===== *)
theory Cache_Steps
  imports Account_Cache
begin

text \<open>
  \<open>RpcClientCache\<close> with calls in flight: \<open>get_accounts\<close> and \<open>get_account\<close> take \<open>&self\<close> and
  await the network, so that any number of calls interleave on the shared map. A call is a
  task that moves in the steps the code takes between two uses of shared state: one map
  lookup, the request, one insertion. The chain may move between any two steps; \<open>held\<close>
  remembers every value it ever had for a key. \<open>reset_cache\<close> takes \<open>&mut self\<close>, hence runs only
  while no call is in flight. The properties: whatever the interleaving no call panics and
  every answer was true at some time; a call that runs alone is the function \<open>get_accounts\<close> of
  \<open>Account_Cache\<close>; a batch is the sequence of its single requests.
\<close>

section \<open>Tasks\<close>

type_synonym account_map = "pubkey \<Rightarrow> account option option"

text \<open>
  \<open>Looking ks seen\<close>: \<open>get_multiple\<close> has read the first entries. \<open>Requesting ks m keys\<close>: the hits are
  in \<open>m\<close>, the request for \<open>keys\<close> is out. \<open>Storing ks m todo\<close>: in the loop over the response.
\<close>

datatype task =
  Looking "pubkey list" "account option list"
| Requesting "pubkey list" account_map "pubkey list"
| Storing "pubkey list" account_map "(pubkey \<times> account option) list"
| Getting pubkey
| Fetching pubkey
| Keeping pubkey account
| Finished "pubkey list" "(account_cache_error, account option list) res"

definition lookup_value :: "account_map \<Rightarrow> pubkey \<Rightarrow> account option" where
  "lookup_value cache k = (case cache k of Some v \<Rightarrow> v | None \<Rightarrow> None)"

definition after_lookups :: "pubkey list \<Rightarrow> account option list \<Rightarrow> task" where
  "after_lookups ks seen =
     (let cached_results = zip seen ks;
          result_map = hits_map cached_results;
          keys = missed cached_results
      in if keys = [] then Finished ks (collect_results result_map ks)
         else Requesting ks result_map keys)"

inductive task_step ::
  "(pubkey \<Rightarrow> account option) \<Rightarrow> account_map \<times> task \<Rightarrow> account_map \<times> task \<Rightarrow> bool" for chain where
  look: "length seen < length ks \<Longrightarrow>
    task_step chain (cache, Looking ks seen)
      (cache, Looking ks (seen @ [lookup_value cache (ks ! length seen)]))"
| looked: "length seen = length ks \<Longrightarrow>
    task_step chain (cache, Looking ks seen) (cache, after_lookups ks seen)"
| response: "task_step chain (cache, Requesting ks m keys)
    (cache, Storing ks m (zip keys (map chain keys)))"
| request_failed: "task_step chain (cache, Requesting ks m keys)
    (cache, Finished ks (Err (FailedToFetchAccount e)))"
| store: "task_step chain (cache, Storing ks m ((k, a) # todo))
    (cache(k \<mapsto> a), Storing ks (m(k \<mapsto> a)) todo)"
| stored: "task_step chain (cache, Storing ks m []) (cache, Finished ks (collect_results m ks))"
| hit: "cache k = Some v \<Longrightarrow> task_step chain (cache, Getting k) (cache, Finished [k] (Ok [v]))"
| miss: "cache k = None \<Longrightarrow> task_step chain (cache, Getting k) (cache, Fetching k)"
| fetched: "chain k = Some a \<Longrightarrow> task_step chain (cache, Fetching k) (cache, Keeping k a)"
| fetch_failed: "task_step chain (cache, Fetching k)
    (cache, Finished [k] (Err (FailedToFetchAccount e)))"
| keep: "task_step chain (cache, Keeping k a)
    (cache(k \<mapsto> Some a), Finished [k] (Ok [Some a]))"

fun in_flight :: "task \<Rightarrow> bool" where
  "in_flight (Finished _ _) = False"
| "in_flight _ = True"

record system =
  sy_cache :: account_map
  sy_tasks :: "nat \<Rightarrow> task option"
  sy_chain :: "pubkey \<Rightarrow> account option"
  sy_held :: "(pubkey \<times> account option) set"

definition history :: "(pubkey \<Rightarrow> account option) \<Rightarrow> (pubkey \<times> account option) set" where
  "history chain = {(k, chain k) | k. True}"

definition system_new :: "(pubkey \<Rightarrow> account option) \<Rightarrow> system" where
  "system_new chain =
     \<lparr>sy_cache = (\<lambda>_. None), sy_tasks = (\<lambda>_. None), sy_chain = chain, sy_held = history chain\<rparr>"

inductive system_step :: "system \<Rightarrow> system \<Rightarrow> bool" where
  task: "sy_tasks s t = Some p \<Longrightarrow> task_step (sy_chain s) (sy_cache s, p) (cache, p') \<Longrightarrow>
    system_step s (s\<lparr>sy_cache := cache, sy_tasks := (sy_tasks s)(t \<mapsto> p')\<rparr>)"
| call_get_accounts: "sy_tasks s t = None \<Longrightarrow>
    system_step s (s\<lparr>sy_tasks := (sy_tasks s)(t \<mapsto> Looking ks [])\<rparr>)"
| call_get_account: "sy_tasks s t = None \<Longrightarrow>
    system_step s (s\<lparr>sy_tasks := (sy_tasks s)(t \<mapsto> Getting k)\<rparr>)"
| chain_moves: "system_step s (s\<lparr>sy_chain := chain, sy_held := sy_held s \<union> history chain\<rparr>)"
| reset: "(\<forall>t p. sy_tasks s t = Some p \<longrightarrow> \<not> in_flight p) \<Longrightarrow> system_step s (s\<lparr>sy_cache := (\<lambda>_. None)\<rparr>)"

abbreviation system_reachable :: "(pubkey \<Rightarrow> account option) \<Rightarrow> system \<Rightarrow> bool" where
  "system_reachable chain s \<equiv> system_step\<^sup>*\<^sup>* (system_new chain) s"

section \<open>The invariant\<close>

definition values_held :: "(pubkey \<times> account option) set \<Rightarrow> account_map \<Rightarrow> bool" where
  "values_held held m \<longleftrightarrow> (\<forall>k a. m k = Some a \<longrightarrow> (k, a) \<in> held)"

definition answer_ok ::
  "(pubkey \<times> account option) set \<Rightarrow> pubkey list \<Rightarrow> (account_cache_error, account option list) res \<Rightarrow> bool" where
  "answer_ok held ks r \<longleftrightarrow> r \<noteq> Panic \<and>
     (\<forall>xs. r = Ok xs \<longrightarrow> (\<exists>value. xs = map value ks \<and> (\<forall>k\<in>set ks. (k, value k) \<in> held)))"

fun task_ok :: "(pubkey \<times> account option) set \<Rightarrow> task \<Rightarrow> bool" where
  "task_ok held (Looking ks seen) \<longleftrightarrow> length seen \<le> length ks \<and>
     (\<forall>i<length seen. seen ! i = None \<or> (ks ! i, seen ! i) \<in> held)"
| "task_ok held (Requesting ks m keys) \<longleftrightarrow> values_held held m \<and> (\<forall>k\<in>set ks. m k \<noteq> None \<or> k \<in> set keys)"
| "task_ok held (Storing ks m todo) \<longleftrightarrow> values_held held m \<and> set todo \<subseteq> held \<and>
     (\<forall>k\<in>set ks. m k \<noteq> None \<or> k \<in> fst ` set todo)"
| "task_ok held (Getting k) \<longleftrightarrow> True"
| "task_ok held (Fetching k) \<longleftrightarrow> True"
| "task_ok held (Keeping k a) \<longleftrightarrow> (k, Some a) \<in> held"
| "task_ok held (Finished ks r) \<longleftrightarrow> answer_ok held ks r"

lemma values_held_mono: "values_held held m \<Longrightarrow> held \<subseteq> held' \<Longrightarrow> values_held held' m"
  by (auto simp: values_held_def)

lemma task_ok_mono: "task_ok held p \<Longrightarrow> held \<subseteq> held' \<Longrightarrow> task_ok held' p"
proof (induction held p rule: task_ok.induct)
  case (7 held ks r)
  then show ?case by (simp add: answer_ok_def) blast
qed (auto intro: values_held_mono)

lemma answer_ok_collect:
  assumes "values_held held m" "\<forall>k\<in>set ks. m k \<noteq> None"
  shows "answer_ok held ks (collect_results m ks)"
  using assms by (auto simp: collect_results_Ok answer_ok_def values_held_def intro!: exI [of _ "the \<circ> m"])

lemma hits_map_zip:
  assumes "length seen = length ks"
  shows "hits_map (zip seen ks) k = Some a \<Longrightarrow> a \<noteq> None \<and> (\<exists>i<length ks. ks ! i = k \<and> seen ! i = a)"
    and "k \<in> set ks \<Longrightarrow> hits_map (zip seen ks) k \<noteq> None \<or> k \<in> set (missed (zip seen ks))"
proof -
  let ?f = "foldl (\<lambda>m (a, k). case a of Some r \<Rightarrow> m(k \<mapsto> Some r) | None \<Rightarrow> m)"
  have fold_hit: "?f m cs k = Some a \<Longrightarrow> m k = Some a \<or> a \<noteq> None \<and> (a, k) \<in> set cs" for m cs
  proof (induction cs arbitrary: m)
    case (Cons c cs)
    obtain x l where c: "c = (x, l)" by fastforce
    show ?case
    proof (cases x)
      case None
      then show ?thesis using Cons c by auto
    next
      case (Some r)
      have "(m(l \<mapsto> Some r)) k = Some a \<or> a \<noteq> None \<and> (a, k) \<in> set cs"
        using Cons.prems unfolding Some c by (intro Cons.IH) (simp only: foldl_Cons prod.case option.case)
      then show ?thesis using Some c by (auto split: if_splits)
    qed
  qed simp
  have fold_keep: "m k \<noteq> None \<Longrightarrow> ?f m cs k \<noteq> None" for m cs
    by (induction cs arbitrary: m) (auto split: option.splits prod.splits)
  have fold_all: "(a, k) \<in> set cs \<Longrightarrow> ?f m cs k \<noteq> None \<or> k \<in> set (missed cs)" for m cs a
  proof (induction cs arbitrary: m)
    case (Cons c cs)
    show ?case
    proof (cases "c = (a, k) \<and> a \<noteq> None")
      case True
      then obtain r where "c = (Some r, k)" by auto
      then show ?thesis using fold_keep [of "m(k \<mapsto> Some r)" cs] by simp
    next
      case False
      then show ?thesis using Cons by (cases c) (auto simp: missed_def)
    qed
  qed simp
  show "hits_map (zip seen ks) k = Some a \<Longrightarrow> a \<noteq> None \<and> (\<exists>i<length ks. ks ! i = k \<and> seen ! i = a)"
    using fold_hit [of Map.empty "zip seen ks"] assms by (auto simp: hits_map_def in_set_zip)
  show "k \<in> set ks \<Longrightarrow> hits_map (zip seen ks) k \<noteq> None \<or> k \<in> set (missed (zip seen ks))"
    using fold_all [of _ "zip seen ks" Map.empty] assms
    unfolding hits_map_def by (metis in_set_conv_nth in_set_zip fst_conv snd_conv)
qed

lemma after_lookups_ok:
  assumes "task_ok held (Looking ks seen)" "length seen = length ks"
  shows "task_ok held (after_lookups ks seen)"
proof -
  have "values_held held (hits_map (zip seen ks))"
    using assms hits_map_zip(1) [OF assms(2)] by (fastforce simp: values_held_def)
  then show ?thesis
    using hits_map_zip(2) [OF assms(2)]
    by (auto simp: after_lookups_def Let_def intro!: answer_ok_collect)
qed

inductive_cases task_stepE: "task_step chain (cache, p) (cache', p')"

lemma task_step_ok:
  assumes "task_step chain (cache, p) (cache', p')"
    and "values_held held cache" "task_ok held p" "history chain \<subseteq> held"
  shows "values_held held cache' \<and> task_ok held p'"
  using assms(1)
proof cases
  case (look seen ks)
  then show ?thesis using assms(2,3)
    by (auto simp: nth_append lookup_value_def values_held_def less_Suc_eq split: option.splits)
next
  case (looked seen ks)
  then show ?thesis using assms(2,3) after_lookups_ok by simp
next
  case (response ks m keys)
  then show ?thesis using assms(2-4)
    by (auto simp: history_def set_zip image_iff in_set_conv_nth)
next
  case (store ks m k a todo)
  then show ?thesis using assms(2,3) by (auto simp: values_held_def)
next
  case (stored ks m)
  then show ?thesis using assms(2,3) by (auto intro: answer_ok_collect)
next
  case (hit k v)
  then show ?thesis using assms(2) by (auto simp: answer_ok_def values_held_def intro!: exI [of _ "\<lambda>_. v"])
next
  case (fetched k a)
  then show ?thesis using assms(2,4) by (auto simp: history_def)
next
  case (keep k a)
  then show ?thesis using assms(2,3)
    by (auto simp: answer_ok_def values_held_def intro!: exI [of _ "\<lambda>_. Some a"])
qed (use assms in \<open>auto simp: answer_ok_def\<close>)

definition system_ok :: "system \<Rightarrow> bool" where
  "system_ok s \<longleftrightarrow> values_held (sy_held s) (sy_cache s) \<and> history (sy_chain s) \<subseteq> sy_held s \<and>
     (\<forall>t p. sy_tasks s t = Some p \<longrightarrow> task_ok (sy_held s) p)"

lemma system_step_ok: "system_step s s' \<Longrightarrow> system_ok s \<Longrightarrow> system_ok s'"
proof (induction rule: system_step.induct)
  case (task s t p cache p')
  then have "values_held (sy_held s) cache \<and> task_ok (sy_held s) p'"
    by (intro task_step_ok [OF task(2)]) (auto simp: system_ok_def)
  then show ?case using task by (auto simp: system_ok_def)
next
  case (chain_moves s chain)
  then show ?case
    by (auto simp: system_ok_def intro: values_held_mono task_ok_mono)
qed (auto simp: system_ok_def values_held_def)

lemma reachable_system_ok: "system_reachable chain s \<Longrightarrow> system_ok s"
proof (induction rule: rtranclp_induct)
  case base
  show ?case by (simp add: system_new_def system_ok_def values_held_def)
qed (rule system_step_ok)

section \<open>A call that runs alone\<close>

definition chain_client :: "(pubkey \<Rightarrow> account option) \<Rightarrow> rpc_client" where
  "chain_client chain =
     \<lparr>rpc_get_account = (\<lambda>k. case chain k of None \<Rightarrow> Inl ''AccountNotFound'' | Some a \<Rightarrow> Inr a),
      rpc_get_multiple_accounts = (\<lambda>ks. Inr (map chain ks))\<rparr>"

abbreviation updates :: "('k \<times> 'v) list \<Rightarrow> ('k \<Rightarrow> 'v option) \<Rightarrow> 'k \<Rightarrow> 'v option" where
  "updates todo m \<equiv> m(map fst todo [\<mapsto>] map snd todo)"

text \<open>What a lone call has still to do, as an equation with the function's result.\<close>

fun on_course :: "rpc_client_cache \<Rightarrow> pubkey list \<Rightarrow> account_map \<times> task \<Rightarrow> bool" where
  "on_course c ks (cache, Looking ks' seen) \<longleftrightarrow> ks' = ks \<and> cache = cached c \<and> length seen \<le> length ks \<and>
     seen = map (lookup_value (cached c)) (take (length seen) ks)"
| "on_course c ks (cache, Requesting ks' m keys) \<longleftrightarrow> ks' = ks \<and> cache = cached c \<and>
     m = hits_map (zip (get_multiple c ks) ks) \<and> keys = missed (zip (get_multiple c ks) ks) \<and> keys \<noteq> []"
| "on_course c ks (cache, Storing ks' m todo) \<longleftrightarrow> ks' = ks \<and>
     get_accounts c ks = (collect_results (updates todo m) ks, c\<lparr>cached := updates todo cache\<rparr>)"
| "on_course c ks (cache, Finished ks' r) \<longleftrightarrow> ks' = ks \<and>
     (get_accounts c ks = (r, c\<lparr>cached := cache\<rparr>) \<or> cache = cached c \<and> (\<exists>e. r = Err (FailedToFetchAccount e)))"
| "on_course c ks _ \<longleftrightarrow> False"

lemma get_multiple_lookup: "get_multiple c ks = map (lookup_value (cached c)) ks"
  by (simp add: get_multiple_def lookup_value_def)

lemma on_course_step:
  assumes "task_step chain (cache, p) (cache', p')" "rpc c = chain_client chain" "on_course c ks (cache, p)"
  shows "on_course c ks (cache', p')"
  using assms(1)
proof cases
  case (look seen ks')
  then show ?thesis using assms(3) by (simp add: take_Suc_conv_app_nth)
next
  case (looked seen ks')
  then have "seen = get_multiple c ks" using assms(3) by (simp add: get_multiple_lookup)
  then show ?thesis using looked assms(3)
    by (auto simp: after_lookups_def Let_def get_accounts_def)
next
  case (response ks' m keys)
  then show ?thesis using assms(2,3)
    by (simp add: get_accounts_def chain_client_def Let_def)
next
  case (stored ks' m)
  then show ?thesis using assms(3) by simp
qed (use assms(3) in auto)

lemma on_course_run:
  "(task_step chain)\<^sup>*\<^sup>* (cached c, Looking ks []) (cache', p') \<Longrightarrow> rpc c = chain_client chain \<Longrightarrow>
    on_course c ks (cache', p')"
proof (induction "(cache', p')" arbitrary: cache' p' rule: rtranclp_induct)
  case (step q)
  then show ?case by (cases q) (metis on_course_step)
qed simp

lemma run_lookups:
  "n \<le> length ks \<Longrightarrow> (task_step chain)\<^sup>*\<^sup>* (cache, Looking ks [])
    (cache, Looking ks (map (lookup_value cache) (take n ks)))"
proof (induction n)
  case (Suc n)
  then have "task_step chain (cache, Looking ks (map (lookup_value cache) (take n ks)))
      (cache, Looking ks (map (lookup_value cache) (take n ks) @ [lookup_value cache (ks ! n)]))"
    using look [of "map (lookup_value cache) (take n ks)" ks chain cache] by simp
  then show ?case using Suc by (simp add: take_Suc_conv_app_nth)
qed simp

lemma run_stores:
  "(task_step chain)\<^sup>*\<^sup>* (cache, Storing ks m todo)
    (updates todo cache, Finished ks (collect_results (updates todo m) ks))"
proof (induction todo arbitrary: cache m)
  case Nil
  then show ?case using stored [of chain cache ks m] by simp
next
  case (Cons a todo)
  have "task_step chain (cache, Storing ks m (a # todo)) (cache(fst a \<mapsto> snd a), Storing ks (m(fst a \<mapsto> snd a)) todo)"
    using store [of chain cache ks m "fst a" "snd a" todo] by simp
  from converse_rtranclp_into_rtranclp [OF this Cons [of "cache(fst a \<mapsto> snd a)" "m(fst a \<mapsto> snd a)"]]
  show ?case by (simp only: list.map map_upds_Cons)
qed

lemma lone_run:
  assumes "rpc c = chain_client chain"
  shows "(task_step chain)\<^sup>*\<^sup>* (cached c, Looking ks [])
    (cached (snd (get_accounts c ks)), Finished ks (fst (get_accounts c ks)))"
proof -
  let ?seen = "get_multiple c ks"
  let ?keys = "missed (zip ?seen ks)" and ?m = "hits_map (zip ?seen ks)"
  have 1: "(task_step chain)\<^sup>*\<^sup>* (cached c, Looking ks []) (cached c, Looking ks ?seen)"
    using run_lookups [of "length ks" ks chain "cached c"] by (simp add: get_multiple_lookup)
  have 2: "task_step chain (cached c, Looking ks ?seen) (cached c, after_lookups ks ?seen)"
    by (rule looked) (simp add: get_multiple_def)
  have 3: "(task_step chain)\<^sup>*\<^sup>* (cached c, after_lookups ks ?seen)
      (cached (snd (get_accounts c ks)), Finished ks (fst (get_accounts c ks)))"
  proof (cases "?keys = []")
    case True
    then show ?thesis by (simp add: after_lookups_def Let_def get_accounts_def)
  next
    case False
    have "task_step chain (cached c, Requesting ks ?m ?keys)
        (cached c, Storing ks ?m (zip ?keys (map chain ?keys)))" by (rule response)
    then show ?thesis
      using run_stores [of chain "cached c" ks ?m "zip ?keys (map chain ?keys)"] False assms
      by (simp add: after_lookups_def Let_def get_accounts_def chain_client_def converse_rtranclp_into_rtranclp)
  qed
  show ?thesis using 1 2 3 by (meson rtranclp.rtrancl_into_rtrancl rtranclp_trans)
qed

section \<open>One request or many\<close>

fun get_each ::
  "rpc_client_cache \<Rightarrow> pubkey list
    \<Rightarrow> (account_cache_error, account option list) res \<times> rpc_client_cache" where
  "get_each c [] = (Ok [], c)"
| "get_each c (k # ks) =
     (case get_account c k of
        (Ok v, c) \<Rightarrow> (case get_each c ks of (r, c) \<Rightarrow> (bindR r (\<lambda>vs. Ok (v # vs)), c))
      | (Inl e, c) \<Rightarrow> (Inl e, c))"

text \<open>What either way answers and leaves in the cache, when no requested key is missing.\<close>

definition fetched_value :: "(pubkey \<Rightarrow> account option) \<Rightarrow> rpc_client_cache \<Rightarrow> pubkey \<Rightarrow> account option" where
  "fetched_value chain c k = (case cached c k of Some v \<Rightarrow> v | None \<Rightarrow> chain k)"

definition with_fetched :: "(pubkey \<Rightarrow> account option) \<Rightarrow> pubkey list \<Rightarrow> rpc_client_cache \<Rightarrow> rpc_client_cache" where
  "with_fetched chain ks c =
     c\<lparr>cached := (\<lambda>k. if k \<in> set ks \<and> cached c k = None then Some (chain k) else cached c k)\<rparr>"

definition all_exist :: "(pubkey \<Rightarrow> account option) \<Rightarrow> rpc_client_cache \<Rightarrow> pubkey list \<Rightarrow> bool" where
  "all_exist chain c ks \<longleftrightarrow> list_all (\<lambda>k. fetched_value chain c k \<noteq> None) ks"

lemma updates_chain: "(m(ks [\<mapsto>] map f ks)) k = (if k \<in> set ks then Some (f k) else m k)"
  by (induction ks arbitrary: m) auto

lemma get_accounts_fetched:
  assumes "rpc c = chain_client chain" "all_exist chain c ks"
  shows "get_accounts c ks = (Ok (map (fetched_value chain c) ks), with_fetched chain ks c)"
proof -
  have wf: "rpc_wf c" by (simp add: rpc_wf_def assms(1) chain_client_def)
  have keys: "to_fetch c ks = filter (\<lambda>k. cached c k = None) ks"
    unfolding to_fetch_def
  proof (intro filter_cong refl)
    fix k assume "k \<in> set ks"
    then have "fetched_value chain c k \<noteq> None" using assms(2) by (simp add: all_exist_def list_all_iff)
    then show "(cached_value c k = None) = (cached c k = None)"
      by (cases "cached c k") (simp_all add: fetched_value_def)
  qed
  show ?thesis
    unfolding get_accounts_eq [OF wf] keys
    by (auto simp: assms(1) chain_client_def Let_def with_fetched_def fetched_value_def updates_chain
        filter_empty_conv fun_eq_iff intro!: rpc_client_cache.equality split: option.splits)
qed

lemma get_each_fetched:
  "rpc c = chain_client chain \<Longrightarrow> all_exist chain c ks \<Longrightarrow>
    get_each c ks = (Ok (map (fetched_value chain c) ks), with_fetched chain ks c)"
proof (induction ks arbitrary: c)
  case Nil
  then show ?case by (simp add: with_fetched_def)
next
  case (Cons k ks)
  let ?c = "with_fetched chain [k] c"
  have one: "get_account c k = (Ok (fetched_value chain c k), ?c)"
    using Cons.prems
    by (auto simp: get_account_def chain_client_def with_fetched_def fetched_value_def all_exist_def fun_eq_iff
        intro!: rpc_client_cache.equality split: option.splits)
  have v: "fetched_value chain ?c = fetched_value chain c"
    by (auto simp: fetched_value_def with_fetched_def fun_eq_iff)
  have "get_each ?c ks = (Ok (map (fetched_value chain ?c) ks), with_fetched chain ks ?c)"
  proof (rule Cons.IH)
    show "rpc ?c = chain_client chain" using Cons.prems(1) by (simp add: with_fetched_def)
    show "all_exist chain ?c ks" using Cons.prems(2) by (simp add: all_exist_def v)
  qed
  moreover have "with_fetched chain ks ?c = with_fetched chain (k # ks) c"
    by (auto simp: with_fetched_def fun_eq_iff intro!: rpc_client_cache.equality)
  ultimately show ?case by (simp add: one v)
qed

section \<open>Properties\<close>

text \<open>
  C10: under any interleaving of calls, moves of the chain and resets, no call panics, and
  a successful call answers as many accounts as it was asked for, equal keys with equal
  accounts, each of which the chain held for its key at some time since the start.
\<close>

theorem cache_answers_were_true:
  assumes "system_reachable chain s" "sy_tasks s t = Some (Finished ks r)"
  shows "r \<noteq> Panic \<and> (\<forall>xs. r = Ok xs \<longrightarrow> length xs = length ks \<and>
    (\<forall>i < length ks. (ks ! i, xs ! i) \<in> sy_held s \<and> (\<forall>j < length ks. ks ! i = ks ! j \<longrightarrow> xs ! i = xs ! j)))"
proof -
  have "answer_ok (sy_held s) ks r"
    using reachable_system_ok [OF assms(1)] assms(2) unfolding system_ok_def by fastforce
  then show ?thesis by (auto simp: answer_ok_def)
qed

lemma task_to:
  "sy_tasks s t = Some p \<Longrightarrow> task_step chain (cache, p) (cache', p') \<Longrightarrow> sy_chain s = chain \<Longrightarrow> sy_cache s = cache \<Longrightarrow>
    s' = s\<lparr>sy_cache := cache', sy_tasks := (sy_tasks s)(t \<mapsto> p')\<rparr> \<Longrightarrow> system_step s s'"
  by (auto intro: task)

lemma overtaken_answer:
  "\<exists>s. system_reachable (\<lambda>_. Some sample_account) s \<and> sy_chain s = (\<lambda>_. None) \<and>
    sy_tasks s 0 = Some (Finished [7] (Ok [Some sample_account]))"
proof -
  define chain where "chain = (\<lambda>k :: pubkey. Some sample_account)"
  define s0 where "s0 = system_new chain"
  define s1 where "s1 = s0\<lparr>sy_tasks := [0 \<mapsto> Looking [7] []]\<rparr>"
  define s2 where "s2 = s0\<lparr>sy_tasks := [0 \<mapsto> Looking [7] [None]]\<rparr>"
  define s3 where "s3 = s0\<lparr>sy_tasks := [0 \<mapsto> Requesting [7] Map.empty [7]]\<rparr>"
  define s4 where "s4 = s0\<lparr>sy_tasks := [0 \<mapsto> Storing [7] Map.empty [(7, Some sample_account)]]\<rparr>"
  define s5 where "s5 = s4\<lparr>sy_chain := (\<lambda>_. None), sy_held := sy_held s4 \<union> history (\<lambda>_. None)\<rparr>"
  define s6 where "s6 = s5\<lparr>sy_cache := [7 \<mapsto> Some sample_account],
    sy_tasks := [0 \<mapsto> Storing [7] [7 \<mapsto> Some sample_account] []]\<rparr>"
  define s7 where "s7 = s6\<lparr>sy_tasks := [0 \<mapsto> Finished [7] (Ok [Some sample_account])]\<rparr>"
  note defs = s0_def s1_def s2_def s3_def s4_def s5_def s6_def s7_def system_new_def
  have "task_step chain (Map.empty, Looking [7] []) (Map.empty, Looking [7] [None])"
    using look [of "[]" "[7]" chain Map.empty] by (simp add: lookup_value_def)
  moreover have "task_step chain (Map.empty, Looking [7] [None]) (Map.empty, Requesting [7] Map.empty [7])"
    using looked [of "[None]" "[7]" chain Map.empty] by (simp add: after_lookups_def missed_def hits_map_def)
  moreover have "task_step chain (Map.empty, Requesting [7] Map.empty [7])
      (Map.empty, Storing [7] Map.empty [(7, Some sample_account)])"
    using response [of chain Map.empty "[7]" Map.empty "[7]"] by (simp add: chain_def)
  ultimately have steps: "system_step s1 s2" "system_step s2 s3" "system_step s3 s4"
    by (auto intro!: task_to [where t = 0] simp: defs)
  have "task_step (\<lambda>_. None) (Map.empty, Storing [7] Map.empty [(7, Some sample_account)])
      ([7 \<mapsto> Some sample_account], Storing [7] [7 \<mapsto> Some sample_account] [])"
    by (rule store)
  moreover have "task_step (\<lambda>_. None) ([7 \<mapsto> Some sample_account], Storing [7] [7 \<mapsto> Some sample_account] [])
      ([7 \<mapsto> Some sample_account], Finished [7] (Ok [Some sample_account]))"
    using stored [of "\<lambda>_. None" "[7 \<mapsto> Some sample_account]" "[7]" "[7 \<mapsto> Some sample_account]"] by simp
  ultimately have "system_step s5 s6" "system_step s6 s7"
    by (auto intro!: task_to [where t = 0] simp: defs)
  moreover have "system_step s0 s1" using call_get_accounts [of s0 0 "[7]"] by (simp add: defs)
  moreover have "system_step s4 s5" unfolding s5_def by (rule chain_moves)
  moreover note steps
  ultimately have "system_reachable chain s7"
    unfolding s0_def [symmetric] by (meson rtranclp.rtrancl_refl rtranclp.rtrancl_into_rtrancl)
  then show ?thesis unfolding chain_def by (rule exI [of _ s7, OF conjI]) (simp add: defs)
qed

theorem cache_answers_were_true_witness:
  "\<exists>s. system_reachable (\<lambda>_. Some sample_account) s \<and> sy_chain s 7 = None \<and>
    sy_tasks s 0 = Some (Finished [7] (Ok [Some sample_account])) \<and> (7, Some sample_account) \<in> sy_held s"
proof -
  obtain s where s: "system_reachable (\<lambda>_. Some sample_account) s" "sy_chain s = (\<lambda>_. None)"
    "sy_tasks s 0 = Some (Finished [7] (Ok [Some sample_account]))"
    using overtaken_answer by blast
  have "(7, Some sample_account) \<in> sy_held s"
    using cache_answers_were_true [OF s(1,3)] by simp
  then show ?thesis using s by auto
qed

text \<open>
  The two models of \<open>get_accounts\<close> agree: with no other call in flight, some run of a call
  finishes, and each finished run gives the answer and the cache of the function, or the error
  of its one request and the cache it started from.
\<close>

lemma lone_call_refines_get_accounts:
  assumes "rpc c = chain_client chain"
  shows "(\<exists>cache r. (task_step chain)\<^sup>*\<^sup>* (cached c, Looking ks []) (cache, Finished ks r)) \<and>
    (\<forall>cache ks' r. (task_step chain)\<^sup>*\<^sup>* (cached c, Looking ks []) (cache, Finished ks' r) \<longrightarrow>
      ks' = ks \<and> (get_accounts c ks = (r, c\<lparr>cached := cache\<rparr>) \<or>
        cache = cached c \<and> (\<exists>e. r = Err (FailedToFetchAccount e))))"
  using lone_run [OF assms] on_course_run [OF _ assms] by fastforce

abbreviation sample_chain_cache :: rpc_client_cache where
  "sample_chain_cache \<equiv> rpc_client_cache_new (chain_client [7 \<mapsto> sample_account])"

lemma lone_call_refines_get_accounts_witness:
  "\<exists>cache r. (task_step [7 \<mapsto> sample_account])\<^sup>*\<^sup>* (cached sample_chain_cache, Looking [7, 8] []) (cache, Finished [7, 8] r)"
  by (rule lone_call_refines_get_accounts [THEN conjunct1]) (simp add: rpc_client_cache_new_def)

text \<open>
  C24: for accounts that exist, one request for all keys and one request per key give the same
  accounts and leave the same cache.
\<close>

theorem batch_equals_singles:
  assumes "rpc c = chain_client chain" "all_exist chain c ks"
  shows "get_accounts c ks = get_each c ks"
  by (simp only: get_accounts_fetched [OF assms] get_each_fetched [OF assms])

theorem batch_equals_singles_witness:
  "get_accounts sample_chain_cache [7, 7] = get_each sample_chain_cache [7, 7] \<and>
    fst (get_each sample_chain_cache [7, 7]) = Ok [Some sample_account, Some sample_account]"
proof (rule conjI)
  show "get_accounts sample_chain_cache [7, 7] = get_each sample_chain_cache [7, 7]"
    by (rule batch_equals_singles [where chain = "[7 \<mapsto> sample_account]"])
      (simp_all add: rpc_client_cache_new_def all_exist_def fetched_value_def)
  show "fst (get_each sample_chain_cache [7, 7]) = Ok [Some sample_account, Some sample_account]"
    by (simp add: get_account_def rpc_client_cache_new_def chain_client_def)
qed

end
