(* ===== verification/Bounds_Queries.thy ===== *)
theory Bounds_Queries
  imports Bounds
begin

text \<open>
  How much the boundary search asks of a venue. A computation over a quoting function asks at
  most \<open>n\<close> quotes when at most \<open>n\<close> of the function's values decide its result; the rules of this
  relation follow the code: a probe asks one, a sequence asks the sum. The doubling phases ask
  one quote for each power of two and one more at the end of the range, a refinement two at its
  ends and one per halving of a gap that starts below \<open>2^64\<close> and stops at 100.
\<close>

type_synonym quoting = "u64 \<Rightarrow> (venue_error, quote_result) res"

definition decided_by :: "(quoting \<Rightarrow> 'a) \<Rightarrow> quoting \<Rightarrow> u64 set \<Rightarrow> bool" where
  "decided_by c f S \<longleftrightarrow> (\<forall>g. (\<forall>x\<in>S. g x = f x) \<longrightarrow> c g = c f)"

definition asks :: "nat \<Rightarrow> (quoting \<Rightarrow> 'a) \<Rightarrow> bool" where
  "asks n c \<longleftrightarrow> (\<forall>f. \<exists>S. finite S \<and> card S \<le> n \<and> decided_by c f S)"

named_theorems asks_intros \<open>how many quotes a computation asks\<close>

lemma asks_mono: "asks m c \<Longrightarrow> m \<le> n \<Longrightarrow> asks n c"
  unfolding asks_def by (meson le_trans)

lemma asks_const [asks_intros]: "asks 0 (\<lambda>f. a)"
  by (auto simp: asks_def decided_by_def intro: exI [of _ "{}"])

lemma asks_probe [asks_intros]: "asks 1 (\<lambda>f. probe f x)"
  by (auto simp: asks_def decided_by_def probe_def intro!: exI [of _ "{x}"])

lemma asks_bind [asks_intros]:
  assumes "asks m c" "\<And>a. asks n (k a)"
  shows "asks (m + n) (\<lambda>f. bindR (c f) (\<lambda>a. k a f))"
  unfolding asks_def
proof
  fix f
  obtain S where S: "finite S" "card S \<le> m" "decided_by c f S"
    using assms(1) unfolding asks_def by blast
  show "\<exists>S. finite S \<and> card S \<le> m + n \<and> decided_by (\<lambda>f. bindR (c f) (\<lambda>a. k a f)) f S"
  proof (cases "c f")
    case (Inl e)
    have "decided_by (\<lambda>f. bindR (c f) (\<lambda>a. k a f)) f S"
      unfolding decided_by_def
    proof (intro allI impI)
      fix g assume "\<forall>x\<in>S. g x = f x"
      then have "c g = c f" using S(3) unfolding decided_by_def by blast
      then show "bindR (c g) (\<lambda>a. k a g) = bindR (c f) (\<lambda>a. k a f)" by (simp add: Inl)
    qed
    then show ?thesis using S by (intro exI [of _ S]) simp
  next
    case (Inr a)
    obtain T where T: "finite T" "card T \<le> n" "decided_by (k a) f T"
      using assms(2) [of a] unfolding asks_def by blast
    have "decided_by (\<lambda>f. bindR (c f) (\<lambda>a. k a f)) f (S \<union> T)"
      unfolding decided_by_def
    proof (intro allI impI)
      fix g assume "\<forall>x\<in>S \<union> T. g x = f x"
      then have "\<forall>x\<in>S. g x = f x" "\<forall>x\<in>T. g x = f x" by blast+
      then have "c g = c f" "k a g = k a f" using S(3) T(3) unfolding decided_by_def by blast+
      then show "bindR (c g) (\<lambda>a. k a g) = bindR (c f) (\<lambda>a. k a f)" by (simp add: Inr)
    qed
    moreover have "card (S \<union> T) \<le> m + n" using card_Un_le [of S T] S(2) T(2) by simp
    ultimately show ?thesis using S(1) T(1) by blast
  qed
qed

lemma asks_if [asks_intros]: "asks n c \<Longrightarrow> asks n d \<Longrightarrow> asks n (\<lambda>f. if b then c f else d f)"
  by (cases b) simp_all

lemma asks_Ok [asks_intros]: "asks n (\<lambda>f. a)"
  by (rule asks_mono [OF asks_const]) simp

lemma asks_after_probe [asks_intros]:
  "(\<And>valid. asks n (k valid)) \<Longrightarrow> asks (Suc n) (\<lambda>f. bindR (probe f x) (\<lambda>valid. k valid f))"
  using asks_bind [OF asks_probe] by fastforce

section \<open>The doubling phases\<close>

lemma next_high_exact:
  assumes "saturating_mul x SCALING_FACTOR \<noteq> u64_MAX"
  shows "unat (saturating_mul x SCALING_FACTOR) = 2 * unat x"
proof -
  have "unat (saturating_mul x SCALING_FACTOR) \<noteq> unat u64_MAX"
    using assms by (metis unsigned_word_eqI)
  then show ?thesis by (simp add: unat_saturating_mul SCALING_FACTOR_def min_def split: if_splits)
qed

lemma asks_coarse_upper:
  "2 ^ 64 \<le> unat high * 2 ^ n \<Longrightarrow> asks n (\<lambda>f. coarse_upper f low high)"
proof (induction n arbitrary: low high)
  case 0
  then show ?case using unat_lt_64 [of high] by (simp del: unat_lt_64)
next
  case (Suc n)
  let ?next = "saturating_mul high SCALING_FACTOR"
  have "asks n (\<lambda>f. if ?next \<le> high \<or> ?next = u64_MAX then Ok (high, u64_MAX) else coarse_upper f high ?next)"
  proof (cases "?next \<le> high \<or> ?next = u64_MAX")
    case True
    then show ?thesis by (simp add: asks_Ok)
  next
    case False
    then have "2 ^ 64 \<le> unat ?next * 2 ^ n" using Suc.prems next_high_exact [of high] by simp
    then show ?thesis using Suc.IH False by simp
  qed
  then show ?case
    by (subst coarse_upper.simps) (intro asks_after_probe asks_if asks_Ok, simp only: Let_def)
qed

text \<open>What follows the first phase, from the pair it ends with.\<close>

definition upper_phase :: "u64 \<times> u64 \<Rightarrow> quoting \<Rightarrow> (venue_error, u64 \<times> u64 \<times> u64 \<times> u64) res" where
  "upper_phase = (\<lambda>(lower_low, lower_high) f.
     let upper_low = lower_high;
         upper_high = saturating_mul upper_low SCALING_FACTOR
     in if upper_high \<le> upper_low then Ok (lower_low, lower_high, upper_low, upper_low)
        else bindR (coarse_upper f upper_low upper_high) (\<lambda>(upper_low, upper_high).
               Ok (lower_low, lower_high, upper_low, upper_high)))"

lemma asks_upper_phase:
  assumes "2 ^ 64 \<le> unat high * 2 ^ Suc n"
  shows "asks (Suc n) (upper_phase (low, high))"
proof -
  let ?next = "saturating_mul high SCALING_FACTOR"
  have "2 ^ 64 \<le> unat ?next * 2 ^ Suc n" if "\<not> ?next \<le> high"
    using that assms by (simp add: not_le word_less_nat_alt) (meson le_trans less_imp_le mult_le_mono1)
  then have "asks (Suc n) (\<lambda>f. coarse_upper f high ?next)" if "\<not> ?next \<le> high"
    using that by (intro asks_coarse_upper)
  then show ?thesis
    by (cases "?next \<le> high") (auto simp: upper_phase_def Let_def asks_Ok case_prod_unfold
        intro: asks_bind [of "Suc n" _ 0, simplified] asks_Ok)
qed

lemma asks_coarse:
  "2 ^ 64 \<le> unat high * 2 ^ n \<Longrightarrow> asks (Suc n) (\<lambda>f. bindR (coarse_lower f low high) (\<lambda>p. upper_phase p f))"
proof (induction n arbitrary: low high)
  case 0
  then show ?case using unat_lt_64 [of high] by (simp del: unat_lt_64)
next
  case (Suc n)
  let ?next = "saturating_mul high SCALING_FACTOR"
  have "asks (Suc n) (\<lambda>f. bindR (if ?next \<le> high \<or> ?next = u64_MAX then Ok (high, u64_MAX) else coarse_lower f high ?next)
      (\<lambda>p. upper_phase p f))"
  proof (cases "?next \<le> high \<or> ?next = u64_MAX")
    case True
    have "saturating_mul u64_MAX SCALING_FACTOR \<le> u64_MAX" by simp
    then show ?thesis using True by (simp add: asks_Ok upper_phase_def Let_def)
  next
    case False
    then have "2 ^ 64 \<le> unat ?next * 2 ^ n" using Suc.prems next_high_exact [of high] by simp
    then show ?thesis using Suc.IH False by simp
  qed
  moreover have "asks (Suc n) (upper_phase (low, high))"
    using Suc.prems by (rule asks_upper_phase)
  ultimately have "asks (Suc (Suc n)) (\<lambda>f. bindR (probe f high) (\<lambda>valid.
      if valid then upper_phase (low, high) f
      else bindR (if ?next \<le> high \<or> ?next = u64_MAX then Ok (high, u64_MAX) else coarse_lower f high ?next)
        (\<lambda>p. upper_phase p f)))"
    by (intro asks_after_probe asks_if) simp_all
  moreover have assoc: "bindR (bindR m k) k' = bindR m (\<lambda>a. bindR (k a) k')"
    for m :: "(venue_error, bool) res" and k and k' :: "u64 \<times> u64 \<Rightarrow> (venue_error, u64 \<times> u64 \<times> u64 \<times> u64) res"
    by (cases m) simp_all
  ultimately show ?case
    by (subst coarse_lower.simps) (simp add: Let_def assoc if_distrib [where f = "\<lambda>m. bindR m k" for k] cong: if_cong)
qed

lemma asks_find_boundaries_coarse: "asks 65 find_boundaries_coarse"
proof -
  have "find_boundaries_coarse = (\<lambda>f. bindR (coarse_lower f 0 1) (\<lambda>p. upper_phase p f))"
    by (simp add: find_boundaries_coarse_def upper_phase_def fun_eq_iff case_prod_unfold)
  then show ?thesis using asks_coarse [of 1 64 0] by simp
qed

section \<open>The refinements\<close>

text \<open>Halving loses at most one unit to the two integer divisions.\<close>

lemma half_gap:
  fixes h l m :: nat
  assumes "h - l \<le> 2 * m"
  shows "h div 2 + l div 2 - l \<le> m + 1" "h - (h div 2 + l div 2) \<le> m + 1"
proof -
  have d: "2 * (x div 2) \<le> x \<and> x \<le> 2 * (x div 2) + 1" for x :: nat
    using div_mult_mod_eq [of x 2] mod_less_divisor [of 2 x] by linarith
  have "h \<le> 2 * m + l" using assms by (simp add: le_diff_conv)
  then have "h div 2 + l div 2 \<le> m + 1 + l" "h \<le> m + 1 + (h div 2 + l div 2)"
    using d [of h] d [of l] by linarith+
  then show "h div 2 + l div 2 - l \<le> m + 1" "h - (h div 2 + l div 2) \<le> m + 1"
    by (simp_all only: le_diff_conv)
qed

lemma halves:
  fixes low high :: u64
  assumes "low \<le> high" "100 < high - low" "unat high - unat low \<le> 98 * 2 ^ Suc n + 2"
  shows "unat (high div 2 + low div 2) - unat low \<le> 98 * 2 ^ n + 2"
    and "unat high - unat (high div 2 + low div 2) \<le> 98 * 2 ^ n + 2"
proof -
  have "unat high - unat low \<le> 2 * (98 * 2 ^ n + 1)" using assms(3) by simp
  from half_gap [OF this] show "unat (high div 2 + low div 2) - unat low \<le> 98 * 2 ^ n + 2"
    and "unat high - unat (high div 2 + low div 2) \<le> 98 * 2 ^ n + 2"
    unfolding mid_between(3) [OF assms(1,2)] by simp_all
qed

lemma big_gap:
  fixes low high :: u64
  assumes "low \<le> high" "100 < high - low"
  shows "100 < unat high - unat low"
  using assms by (simp add: word_le_nat_alt word_less_nat_alt unat_sub_le)

lemma asks_gap:
  "(low \<le> high \<Longrightarrow> 100 < high - low \<Longrightarrow> asks n k) \<Longrightarrow>
    asks n (\<lambda>f. bindR (sub_p high low) (\<lambda>gap. if gap > 100 then k f else Ok x))"
  for low high :: u64
  by (cases "low \<le> high"; cases "100 < high - low") (simp_all add: sub_p_def checked_sub_def asks_Ok)

lemma asks_refine_lower_loop:
  "unat high - unat low \<le> 98 * 2 ^ n + 2 \<Longrightarrow> asks n (\<lambda>f. refine_lower_loop f low high)"
proof (induction n arbitrary: low high)
  case 0
  then show ?case
    by (subst refine_lower_loop.simps) (rule asks_gap, drule (1) big_gap, simp)
next
  case (Suc n)
  show ?case
    by (subst refine_lower_loop.simps, rule asks_gap, simp only: Let_def)
      (intro asks_after_probe asks_if Suc.IH halves Suc.prems)
qed

lemma asks_refine_upper_loop:
  "unat high - unat low \<le> 98 * 2 ^ n + 2 \<Longrightarrow> asks n (\<lambda>f. refine_upper_loop f low high)"
proof (induction n arbitrary: low high)
  case 0
  then show ?case
    by (subst refine_upper_loop.simps) (rule asks_gap, drule (1) big_gap, simp)
next
  case (Suc n)
  show ?case
    by (subst refine_upper_loop.simps, rule asks_gap, simp only: Let_def)
      (intro asks_after_probe asks_if Suc.IH halves Suc.prems)
qed

lemma u64_gap: "unat high - unat low \<le> 98 * 2 ^ 58 + 2" for low high :: u64
  using unat_lt_64 [of high] by (simp del: unat_lt_64)

lemma asks_refine:
  "asks 60 (\<lambda>f. refine_lower f low high)" "asks 60 (\<lambda>f. refine_upper f low high)"
proof -
  have "asks (1 + (1 + 58)) (\<lambda>f. refine_lower f low high)" "asks (1 + (1 + 58)) (\<lambda>f. refine_upper f low high)"
    unfolding refine_lower_def refine_upper_def
    by (intro asks_bind asks_probe asks_refine_lower_loop asks_refine_upper_loop u64_gap)+
  then show "asks 60 (\<lambda>f. refine_lower f low high)" "asks 60 (\<lambda>f. refine_upper f low high)" by simp_all
qed

lemma asks_find_boundaries: "asks 185 find_boundaries"
proof -
  have "asks (60 + 60) (\<lambda>f. bindR (refine_lower f a b) (\<lambda>lower_bound.
      bindR (refine_upper f c d) (\<lambda>upper_bound. Ok (lower_bound, upper_bound))))" for a b c d
    using asks_bind [OF asks_refine(1), of 60] asks_bind [OF asks_refine(2), of 0] asks_const by fastforce
  then have "asks (65 + 120) find_boundaries"
    unfolding find_boundaries_def [abs_def] case_prod_unfold
    by (intro asks_bind asks_find_boundaries_coarse asks_if asks_Ok) simp
  then show ?thesis by simp
qed

section \<open>Properties\<close>

text \<open>
  C19: whatever the venue quotes, the boundary search ends having used at most 185 of its
  quotes: 65 to double through the 64-bit range, and twice 60 to refine its two ends. Two
  venues that agree on these amounts have the same boundaries, the same error or the same
  panic.
\<close>

theorem find_boundaries_asks_185:
  "\<exists>S. finite S \<and> card S \<le> 185 \<and> (\<forall>g. (\<forall>x\<in>S. g x = f x) \<longrightarrow> find_boundaries g = find_boundaries f)"
  using asks_find_boundaries unfolding asks_def decided_by_def by blast

theorem find_boundaries_asks_185_witness:
  "\<exists>S. finite S \<and> card S \<le> 185 \<and>
    (\<forall>g. (\<forall>x\<in>S. g x = sample_quote x) \<longrightarrow> find_boundaries g = find_boundaries sample_quote)"
  by (rule find_boundaries_asks_185)

end
