(* ===== verification/F64_Error.thy ===== *)
theory F64_Error
  imports F64
begin

text \<open>
  How far a computed double lies from the exact value. \<open>near n x y\<close> says that \<open>y\<close> is \<open>x\<close> up to
  \<open>n\<close> roundings, each a factor of at most \<open>1 - 2^-53\<close> up or down; it composes over products,
  quotients and sums, so the error of a floating-point expression is read off its shape.
\<close>

section \<open>Relative distance\<close>

definition roundoff :: rat where "roundoff = 1 / 2 ^ 53"

definition shrink :: rat where "shrink = 1 - roundoff"

lemma roundoff_range: "0 < roundoff" "roundoff < 1" "roundoff * 2 ^ 21 \<le> 1 / 2"
  by (simp_all add: roundoff_def)

lemma shrink_range [simp]: "0 < shrink" "shrink \<le> 1" "0 \<le> shrink"
  using roundoff_range by (simp_all add: shrink_def)

lemma shrink_power [simp]: "0 < shrink ^ n" "shrink ^ n \<le> 1" "0 \<le> shrink ^ n"
  by (simp_all add: power_le_one)

lemma shrink_power_ge: "1 - of_nat n * roundoff \<le> shrink ^ n"
proof (induction n)
  case (Suc n)
  have "1 - of_nat (Suc n) * roundoff \<le> (1 - of_nat n * roundoff) * shrink"
    using roundoff_range by (simp add: shrink_def algebra_simps)
  also have "\<dots> \<le> shrink ^ n * shrink" using Suc.IH by (intro mult_right_mono) simp_all
  finally show ?case by (simp add: mult.commute)
qed simp

lemma shrink_power_le: "(1 + of_nat n * roundoff) * shrink ^ n \<le> 1"
proof (induction n)
  case (Suc n)
  have "(1 + of_nat (Suc n) * roundoff) * shrink \<le> 1 + of_nat n * roundoff"
    using roundoff_range by (simp add: shrink_def algebra_simps)
  then have "(1 + of_nat (Suc n) * roundoff) * shrink * shrink ^ n \<le> (1 + of_nat n * roundoff) * shrink ^ n"
    by (intro mult_right_mono) simp_all
  also note Suc.IH
  finally show ?case by (simp only: power_Suc mult.assoc)
qed simp

lemma shrink_power_half:
  assumes "n \<le> 2 ^ 21"
  shows "1 / 2 \<le> shrink ^ n"
proof -
  have "rat_of_nat n \<le> 2 ^ 21" using assms by (metis of_nat_le_iff of_nat_numeral of_nat_power)
  then have "of_nat n * roundoff \<le> 2 ^ 21 * roundoff" using roundoff_range by (intro mult_right_mono) simp_all
  then show ?thesis using shrink_power_ge [of n] roundoff_range(3) by simp
qed

definition near :: "nat \<Rightarrow> rat \<Rightarrow> rat \<Rightarrow> bool" where
  "near n x y \<longleftrightarrow> 0 \<le> x \<and> x * shrink ^ n \<le> y \<and> y * shrink ^ n \<le> x"

named_theorems near_intros

lemma near_refl [near_intros]: "0 \<le> x \<Longrightarrow> near n x x"
  by (simp add: near_def mult_left_le)

lemma near_nonneg: "near n x y \<Longrightarrow> 0 \<le> y"
  unfolding near_def by (meson mult_nonneg_nonneg order_trans shrink_power(3))

lemma near_pos: "near n x y \<Longrightarrow> 0 < x \<Longrightarrow> 0 < y"
  unfolding near_def by (meson mult_pos_pos less_le_trans shrink_power(1))

lemma near_mono: "near m x y \<Longrightarrow> m \<le> n \<Longrightarrow> near n x y"
proof -
  assume a: "near m x y" "m \<le> n"
  have "shrink ^ n \<le> shrink ^ m" using a(2) by (intro power_decreasing) simp_all
  then have "x * shrink ^ n \<le> x * shrink ^ m" "y * shrink ^ n \<le> y * shrink ^ m"
    using near_nonneg [OF a(1)] a(1) by (auto simp: near_def intro!: mult_left_mono)
  with a(1) show ?thesis by (auto simp: near_def)
qed

lemma near_mult: "near m x x' \<Longrightarrow> near n y y' \<Longrightarrow> near (m + n) (x * y) (x' * y')"
proof -
  assume a: "near m x x'" "near n y y'"
  note pos = near_nonneg [OF a(1)] near_nonneg [OF a(2)]
  have "(x * shrink ^ m) * (y * shrink ^ n) \<le> x' * y'" "(x' * shrink ^ m) * (y' * shrink ^ n) \<le> x * y"
    using a pos by (auto simp: near_def intro!: mult_mono)
  with a show ?thesis by (simp add: near_def power_add mult_ac)
qed

lemma near_divide: "near m x x' \<Longrightarrow> near n y y' \<Longrightarrow> 0 < y \<Longrightarrow> near (m + n) (x / y) (x' / y')"
proof -
  assume a: "near m x x'" "near n y y'" and y: "0 < y"
  note pos = near_nonneg [OF a(1)] near_pos [OF a(2) y]
  have "(x * shrink ^ m) * (y' * shrink ^ n) \<le> x' * y" "(x' * shrink ^ m) * (y * shrink ^ n) \<le> x * y'"
    using a pos by (auto simp: near_def intro!: mult_mono)
  with a pos y show ?thesis by (simp add: near_def power_add field_simps)
qed

lemma near_add: "near m x x' \<Longrightarrow> near n y y' \<Longrightarrow> near (max m n) (x + y) (x' + y')"
  using near_mono [of m x x' "max m n"] near_mono [of n y y' "max m n"]
  by (auto simp: near_def distrib_right intro: add_mono)

text \<open>One minus a computed fraction that stays away from one.\<close>

lemma near_one_minus:
  assumes "near 1 x x'" "0 < m" "(1 - x) * of_nat m \<ge> 1" "m \<le> 2 ^ 20"
  shows "near (2 * m) (1 - x) (1 - x')"
proof -
  let ?m = "rat_of_nat m" and ?u = roundoff
  have m: "0 < ?m" "1 \<le> ?m" using assms(2) by simp_all
  have x: "0 \<le> x" "x * (1 - ?u) \<le> x'" "x' * (1 - ?u) \<le> x" using assms(1) by (simp_all add: near_def shrink_def)
  have x1: "x \<le> 1"
  proof (rule ccontr)
    assume "\<not> x \<le> 1"
    then have "(1 - x) * ?m \<le> 0" using m by (intro mult_nonpos_nonneg) simp_all
    then show False using assms(3) by simp
  qed
  have mu: "2 * ?m * ?u \<le> 1"
  proof -
    have "?m \<le> 2 ^ 20" using assms(4) by (metis of_nat_le_iff of_nat_numeral of_nat_power)
    then have "?m * ?u \<le> 2 ^ 20 * ?u" using roundoff_range by (intro mult_right_mono) simp_all
    then show ?thesis using roundoff_range(3) by simp
  qed
  have step: "?u \<le> ?u * ((1 - x) * ?m)" using assms(3) roundoff_range by simp
  have s: "(1 + 2 * ?m * ?u) * shrink ^ (2 * m) \<le> 1" using shrink_power_le [of "2 * m"] by simp
  have "(1 - x') * shrink ^ (2 * m) \<le> (1 - x) * ((1 + 2 * ?m * ?u) * shrink ^ (2 * m))"
  proof -
    have "x * ?u \<le> 1 * ?u" using x1 roundoff_range by (intro mult_right_mono) simp_all
    moreover have "0 \<le> ?u * ((1 - x) * ?m)" using step roundoff_range by linarith
    moreover have "x - x * ?u \<le> x'" using x(2) by (simp add: algebra_simps)
    ultimately have "1 - x' \<le> 1 - x + 2 * (?u * ((1 - x) * ?m))" using step by linarith
    then have "1 - x' \<le> (1 - x) * (1 + 2 * ?m * ?u)" by (simp add: algebra_simps)
    then have "(1 - x') * shrink ^ (2 * m) \<le> (1 - x) * (1 + 2 * ?m * ?u) * shrink ^ (2 * m)"
      by (rule mult_right_mono) simp
    then show ?thesis by (simp add: mult.assoc)
  qed
  also have "\<dots> \<le> (1 - x) * 1" using s x1 by (intro mult_left_mono) simp_all
  finally have upper: "(1 - x') * shrink ^ (2 * m) \<le> 1 - x" by simp
  have "(1 - x) * shrink ^ (2 * m) \<le> 1 - x'"
  proof -
    let ?s = "shrink ^ (2 * m)"
    have "?s * (2 * ?m * ?u) \<le> 1 - ?s" using s by (simp add: algebra_simps)
    moreover have "1 / 2 \<le> ?s" using assms(4) by (intro shrink_power_half) simp
    then have "1 / 2 * (2 * ?m * ?u) \<le> ?s * (2 * ?m * ?u)"
      using m roundoff_range by (intro mult_right_mono) simp_all
    ultimately have "1 / 2 * (2 * ?m * ?u) \<le> 1 - ?s" by (rule order_trans [rotated])
    then have "?m * ?u \<le> 1 - ?s" by simp
    then have "(1 - x) * (?m * ?u) \<le> (1 - x) * (1 - ?s)" using x1 by (intro mult_left_mono) simp_all
    then have u: "?u \<le> (1 - x) * (1 - ?s)" using step by (simp add: mult_ac)
    have low: "(1 - x) * ?s \<le> 1 - x - ?u" using u by (simp add: algebra_simps)
    moreover have "0 \<le> (1 - x) * ?s" using x1 by simp
    ultimately have "0 \<le> 1 - x - ?u" by linarith
    then have "x' * (1 - ?u) \<le> (x + ?u) * (1 - ?u)"
    proof -
      assume gap: "0 \<le> 1 - x - ?u"
      then have "0 \<le> ?u * (1 - x - ?u)" using roundoff_range by (intro mult_nonneg_nonneg) simp_all
      then show ?thesis using x(3) by (simp add: algebra_simps)
    qed
    then have "x' \<le> x + ?u" using roundoff_range by (simp add: mult_le_cancel_right)
    with low show ?thesis by linarith
  qed
  with upper x1 show ?thesis by (simp add: near_def)
qed

lemma near_abs:
  assumes "near n x y" "n \<le> 2 ^ 21"
  shows "\<bar>y - x\<bar> \<le> x * (2 * of_nat n * roundoff)"
proof -
  let ?s = "shrink ^ n" and ?e = "of_nat n * roundoff"
  have e: "0 \<le> ?e" using roundoff_range by simp
  have n: "0 \<le> x" "x * ?s \<le> y" "y * ?s \<le> x" using assms(1) by (simp_all add: near_def)
  have half: "1 / 2 \<le> ?s" by (rule shrink_power_half [OF assms(2)])
  have "1 - ?e \<le> ?s" by (rule shrink_power_ge)
  then have "x * (1 - ?e) \<le> y" using n mult_left_mono order_trans by blast
  then have lo: "x - y \<le> x * ?e" by (simp add: algebra_simps)
  have "1 \<le> ?s * (1 + 2 * ?e)"
  proof -
    have "(2 * ?e) * (1 / 2) \<le> (2 * ?e) * ?s" using half e by (intro mult_left_mono) simp_all
    then show ?thesis using \<open>1 - ?e \<le> ?s\<close> by (simp add: algebra_simps)
  qed
  then have "y * 1 \<le> y * (?s * (1 + 2 * ?e))" using near_nonneg [OF assms(1)] by (intro mult_left_mono)
  also have "\<dots> = (y * ?s) * (1 + 2 * ?e)" by simp
  also have "\<dots> \<le> x * (1 + 2 * ?e)" using n(3) e by (intro mult_right_mono) simp_all
  finally have "y - x \<le> 2 * (x * ?e)" by (simp add: algebra_simps)
  moreover have "0 \<le> x * ?e" using n e by simp
  ultimately show ?thesis using lo by (simp add: abs_le_iff mult_ac)
qed

text \<open>The exact value in terms of the computed one.\<close>

lemma relative_error_swap:
  fixes p M e :: rat
  assumes "\<bar>p - M\<bar> \<le> M * e" "0 \<le> M" "0 \<le> e" "e \<le> 1 / 2"
  shows "p * (1 - 2 * e) \<le> M" "M \<le> p * (1 + 2 * e)"
proof -
  have b: "p \<le> M * (1 + e)" "M * (1 - e) \<le> p" using assms(1) unfolding abs_le_iff by (simp_all add: algebra_simps)
  have "p * (1 - 2 * e) \<le> M * (1 + e) * (1 - 2 * e)" using b(1) assms(4) by (intro mult_right_mono) simp_all
  also have "\<dots> = M - M * e * (1 + 2 * e)" by (simp add: algebra_simps)
  also have "\<dots> \<le> M" using assms(2,3) by simp
  finally show "p * (1 - 2 * e) \<le> M" .
  have "0 \<le> M * e * (1 - 2 * e)" using assms(2,3,4) by simp
  then have "M \<le> M * (1 - e) * (1 + 2 * e)" by (simp add: algebra_simps)
  also have "\<dots> \<le> p * (1 + 2 * e)" using b(2) assms(3) by (intro mult_right_mono) simp_all
  finally show "M \<le> p * (1 + 2 * e)" .
qed

section \<open>One rounding\<close>

lemma rne_error: "\<bar>of_int (rne x) - x\<bar> \<le> 1 / 2"
proof -
  have "of_int \<lfloor>x\<rfloor> \<le> x" "x < of_int \<lfloor>x\<rfloor> + 1" by linarith+
  then show ?thesis by (auto simp: rne_def Let_def abs_le_iff)
qed

lemma round_pos_error:
  assumes "2 powi (- 1022) \<le> x"
  shows "\<bar>round_pos x - x\<bar> \<le> x * roundoff"
proof -
  let ?b = "2 powi exponent x :: rat"
  have x: "0 < x" using assms powi_pos [of "- 1022"] by linarith
  have "\<bar>of_int (rne (x / ?b)) - x / ?b\<bar> * ?b \<le> 1 / 2 * ?b" by (intro mult_right_mono rne_error) simp
  moreover have "\<bar>of_int (rne (x / ?b)) - x / ?b\<bar> * ?b = \<bar>(of_int (rne (x / ?b)) - x / ?b) * ?b\<bar>" by (simp add: abs_mult)
  moreover have "(of_int (rne (x / ?b)) - x / ?b) * ?b = round_pos x - x" by (simp add: round_pos_def left_diff_distrib)
  ultimately have err: "\<bar>round_pos x - x\<bar> \<le> 1 / 2 * ?b" by simp
  have "2 powi (- 1022) < (2::rat) powi (log2_floor x + 1)" using assms log2_floor_bounds(2) [OF x] by (rule le_less_trans)
  then have "exponent x = log2_floor x - 52"
    using powi_less_imp_less [of "- 1022" "log2_floor x + 1"] by (simp add: exponent_def)
  then have "?b * 2 ^ 52 = 2 powi log2_floor x" using powi_52 [of "exponent x"] by simp
  also have "\<dots> \<le> x" by (rule log2_floor_bounds(1) [OF x])
  finally show ?thesis using err by (simp add: roundoff_def)
qed

text \<open>The range in which neither overflow nor a subnormal occurs.\<close>

definition mid_range :: "rat \<Rightarrow> bool" where
  "mid_range x \<longleftrightarrow> x = 0 \<or> 2 powi (- 1000) \<le> x \<and> x \<le> 2 powi 1000"

lemma near_round:
  assumes "near n x y" "mid_range x" "n \<le> 2 ^ 21"
  obtains z where "round64 y = Finite z" "near (Suc n) x z"
proof (cases "x = 0")
  case True
  then have "y = 0" using assms(1) near_nonneg [OF assms(1)] shrink_power(1) [of n] by (auto simp: near_def mult_le_0_iff not_le [symmetric])
  with True that [of 0] show thesis by (simp add: near_def)
next
  case False
  have x: "2 powi (- 1000) \<le> x" "x \<le> 2 powi 1000" using assms(2) False by (simp_all add: mid_range_def)
  have x0: "0 < x" using x(1) powi_pos [of "- 1000"] by linarith
  have y0: "0 < y" by (rule near_pos [OF assms(1) x0])
  have s: "1 / 2 \<le> shrink ^ n" by (rule shrink_power_half [OF assms(3)])
  have n: "x * shrink ^ n \<le> y" "y * shrink ^ n \<le> x" using assms(1) by (simp_all add: near_def)
  have "x * (1 / 2) \<le> x * shrink ^ n" using s x0 by (intro mult_left_mono) simp_all
  then have "x / 2 \<le> y" using n(1) by simp
  moreover have "2 powi (- 1001) = (2 powi (- 1000) :: rat) / 2" using powi_add [of "- 1001" 1] by simp
  ultimately have lo: "2 powi (- 1001) \<le> y" using x(1) by linarith
  have "y * (1 / 2) \<le> y * shrink ^ n" using s y0 by (intro mult_left_mono) simp_all
  then have "y \<le> 2 * x" using n(2) by simp
  moreover have "2 powi 1001 = 2 * (2 powi 1000 :: rat)" using powi_add [of 1000 1] by simp
  ultimately have hi: "y \<le> 2 powi 1001" using x(2) by linarith
  show thesis
  proof (rule round64_between [OF _ _ lo hi])
    fix z assume z: "round64 y = Finite z"
    then have zy: "z = round_pos y" using y0 by (simp add: round64_pos split: if_splits)
    have "2 powi (- 1022) \<le> (2 powi (- 1001) :: rat)" by (rule powi_mono) simp
    then have err: "\<bar>z - y\<bar> \<le> y * roundoff" unfolding zy using lo by (intro round_pos_error) linarith
    have "y * shrink \<le> z" using err by (simp add: shrink_def algebra_simps)
    moreover have "z * shrink \<le> y"
    proof -
      have "z * shrink \<le> (y + y * roundoff) * shrink" using err by (intro mult_right_mono) (auto simp: abs_le_iff)
      also have "\<dots> = y * ((1 + of_nat 1 * roundoff) * shrink ^ 1)" by (simp add: algebra_simps)
      also have "\<dots> \<le> y * 1" using y0 shrink_power_le [of 1] by (intro mult_left_mono) auto
      finally show ?thesis by simp
    qed
    moreover have "x * shrink ^ n * shrink \<le> y * shrink" using n(1) by (intro mult_right_mono) simp_all
    moreover have "z * shrink * shrink ^ n \<le> y * shrink ^ n"
      using \<open>z * shrink \<le> y\<close> by (intro mult_right_mono) simp_all
    ultimately have "x * shrink ^ n * shrink \<le> z" "z * shrink * shrink ^ n \<le> x" using n(2) by linarith+
    then have "near (Suc n) x z" using x0 by (simp add: near_def mult_ac)
    with z show thesis by (rule that)
  qed simp_all
qed

section \<open>Expressions\<close>

text \<open>\<open>approx n x f\<close>: the double \<open>f\<close> is finite and near \<open>x\<close>.\<close>

definition approx :: "nat \<Rightarrow> rat \<Rightarrow> f64 \<Rightarrow> bool" where
  "approx n x f \<longleftrightarrow> (\<exists>y. f = Finite y \<and> near n x y)"

lemma approxE:
  assumes "approx n x f"
  obtains y where "f = Finite y" "near n x y"
  using assms by (auto simp: approx_def)

lemma approx_round: "near n x y \<Longrightarrow> mid_range x \<Longrightarrow> n \<le> 2 ^ 21 \<Longrightarrow> approx (Suc n) x (round64 y)"
  by (rule near_round [of n x y]) (auto simp: approx_def)

lemma approx_mult:
  "approx m x f \<Longrightarrow> approx n y g \<Longrightarrow> mid_range (x * y) \<Longrightarrow> m + n \<le> 2 ^ 21 \<Longrightarrow>
    approx (Suc (m + n)) (x * y) (f_mul f g)"
  by (elim approxE) (simp add: approx_round near_mult)

lemma approx_div:
  "approx m x f \<Longrightarrow> approx n y g \<Longrightarrow> 0 < y \<Longrightarrow> mid_range (x / y) \<Longrightarrow> m + n \<le> 2 ^ 21 \<Longrightarrow>
    approx (Suc (m + n)) (x / y) (f_div f g)"
proof (elim approxE)
  fix a b assume h: "0 < y" "mid_range (x / y)" "m + n \<le> 2 ^ 21" "f = Finite a" "near m x a" "g = Finite b" "near n y b"
  have "b \<noteq> 0" using near_pos [OF h(7,1)] by simp
  then have "f_div f g = round64 (a / b)" using h by (simp add: f_div.simps(6))
  then show "approx (Suc (m + n)) (x / y) (f_div f g)"
    using approx_round [OF near_divide [OF h(5,7,1)] h(2,3)] by simp
qed

lemma approx_add:
  "approx m x f \<Longrightarrow> approx n y g \<Longrightarrow> mid_range (x + y) \<Longrightarrow> m \<le> 2 ^ 21 \<Longrightarrow> n \<le> 2 ^ 21 \<Longrightarrow>
    approx (Suc (max m n)) (x + y) (f_add f g)"
  by (elim approxE) (simp add: approx_round near_add)

lemma approx_one_minus:
  "approx 1 x f \<Longrightarrow> 0 < m \<Longrightarrow> 1 \<le> (1 - x) * of_nat m \<Longrightarrow> m \<le> 2 ^ 20 \<Longrightarrow> mid_range (1 - x) \<Longrightarrow>
    approx (Suc (2 * m)) (1 - x) (f_sub (f_of_nat 1) f)"
  by (elim approxE) (auto simp: f_sub_def f_of_nat_1 simp del: One_nat_def intro!: approx_round near_one_minus)

lemma approx_nat: "n < 2 ^ 53 \<Longrightarrow> approx 0 (of_nat n) (f_of_nat n)"
  by (simp add: approx_def f_of_nat_def round64_nat near_refl)

lemma rat_div_bounds:
  assumes "0 < (d :: nat)"
  shows "rat_of_nat (a div d) \<le> of_nat a / of_nat d" "of_nat a / of_nat d < rat_of_nat (a div d) + 1"
proof -
  have d: "0 < rat_of_nat d" using assms by simp
  have "rat_of_nat (a div d * d) \<le> of_nat a" by (simp only: of_nat_le_iff div_times_less_eq_dividend)
  then show "rat_of_nat (a div d) \<le> of_nat a / of_nat d" using d by (simp add: pos_le_divide_eq)
  have "rat_of_nat a < of_nat ((a div d + 1) * d)"
    using dividend_less_div_times [OF assms, of a] by (simp only: of_nat_less_iff) simp
  then show "of_nat a / of_nat d < rat_of_nat (a div d) + 1" using d by (simp add: pos_divide_less_eq algebra_simps)
qed

lemma mid_range_between:
  assumes "2 powi j \<le> x" "x \<le> 2 powi k" "- 1000 \<le> j" "k \<le> 1000"
  shows "mid_range x"
  using assms powi_mono [of "- 1000" j] powi_mono [of k 1000] by (auto simp: mid_range_def)

lemma mid_range_0 [simp]: "mid_range 0"
  by (simp add: mid_range_def)

lemma u64_between:
  assumes "a \<noteq> (0 :: u64)"
  shows "1 \<le> rat_of_nat (unat a)" "rat_of_nat (unat a) \<le> 2 ^ 64"
proof -
  show "1 \<le> rat_of_nat (unat a)"
    using assms unat_gt_0 [of a] by (metis of_nat_1 of_nat_le_iff One_nat_def Suc_le_eq)
  have "rat_of_nat (unat a) \<le> of_nat (2 ^ 64)"
    using unat_lt_64 [of a] by (simp only: of_nat_le_iff) (simp del: unat_lt_64)
  then show "rat_of_nat (unat a) \<le> 2 ^ 64" by simp
qed

lemma approx_u64: "approx 1 (of_nat (unat a)) (f_of_u64 a)"
proof -
  have "mid_range (of_nat (unat a))"
    using u64_between [of a] by (cases "a = 0") (auto intro: mid_range_between [of 0 _ 64] simp del: of_nat_unat)
  then show ?thesis
    unfolding f_of_u64_def f_of_nat_def using approx_round [of 0 "of_nat (unat a)"]
    by (simp add: near_refl del: of_nat_unat)
qed

section \<open>Comparing\<close>

lemma near_bounds:
  assumes "near n x y" "n \<le> 2 ^ 21"
  shows "x * (1 - of_nat n * roundoff) \<le> y" "y \<le> x * (1 + 2 * of_nat n * roundoff)"
proof -
  have "x * (1 - of_nat n * roundoff) \<le> x * shrink ^ n"
    using assms(1) shrink_power_ge [of n] by (intro mult_left_mono) (simp_all add: near_def)
  then show "x * (1 - of_nat n * roundoff) \<le> y" using assms(1) by (simp add: near_def)
  show "y \<le> x * (1 + 2 * of_nat n * roundoff)"
    using near_abs [OF assms] unfolding abs_le_iff by (simp add: algebra_simps)
qed

lemma approx_le:
  assumes "approx m x f" "approx n y g" "m \<le> 2 ^ 21" "n \<le> 2 ^ 21"
    and "x * (1 + 2 * of_nat m * roundoff) \<le> y * (1 - of_nat n * roundoff)"
  shows "f_le f g"
  using assms near_bounds by (elim approxE) (simp, meson order_trans)

lemma approx_less:
  assumes "approx m x f" "approx n y g" "m \<le> 2 ^ 21" "n \<le> 2 ^ 21"
    and "x * (1 + 2 * of_nat m * roundoff) < y * (1 - of_nat n * roundoff)"
  shows "f_lt f g"
  using assms near_bounds by (elim approxE) (simp, meson le_less_trans less_le_trans)

lemma approx_pos: "approx n x f \<Longrightarrow> 0 < x \<Longrightarrow> f_lt (Finite 0) f"
  by (elim approxE) (simp add: near_pos)

lemma approx_exact: "0 \<le> x \<Longrightarrow> mid_range x \<Longrightarrow> approx 1 x (round64 x)"
  using approx_round [of 0 x x] by (simp add: near_refl)

text \<open>A difference is compared through a bound on the exact one.\<close>

lemma approx_sub_le:
  assumes f: "approx m x f" "m \<le> 2 ^ 21" and g: "approx n y g" "n \<le> 2 ^ 21" and h: "approx k z h" "k \<le> 2 ^ 21"
    and u: "x * (1 + 2 * of_nat m * roundoff) - y * (1 - of_nat n * roundoff) \<le> u" "0 \<le> u" "mid_range u"
    and le: "u * (1 + 2 * roundoff) \<le> z * (1 - of_nat k * roundoff)"
  shows "f_le (f_sub f g) h"
proof -
  obtain a where a: "f = Finite a" "near m x a" by (rule approxE [OF f(1)])
  obtain b where b: "g = Finite b" "near n y b" by (rule approxE [OF g(1)])
  have "a - b \<le> u" using near_bounds(2) [OF a(2) f(2)] near_bounds(1) [OF b(2) g(2)] u(1) by linarith
  then have "f_le (f_sub f g) (round64 u)" by (simp add: f_sub_def a b round64_mono)
  moreover have "f_le (round64 u) h"
    by (rule approx_le [OF approx_exact [OF u(2,3)] h(1) _ h(2)]) (use le in simp_all)
  ultimately show ?thesis by (rule f_le_trans)
qed

end
