(* ===== verification/Pricing.thy ===== *)
theory Pricing
  imports Bounds F64
begin

text \<open>
  The pricing requirements that the trait \<open>TradingVenue\<close> states for \<open>quote\<close>
  (\<open>src/trading_venue/mod.rs\<close>): on the range that \<open>bounds\<close> finds the output never falls with the
  amount, the price is positive and never rises, and the prices at two amounts bracket the
  average rate between them. A venue answers in integers and in double precision, so the
  last rule holds up to a relative tolerance of the prices and an absolute slack of the outputs.
  The locale \<open>priced_quoter\<close> asks for the rules of any two usable quotes and derives them for
  the range of the search.
\<close>

section \<open>The rules\<close>

abbreviation gap :: "u64 \<Rightarrow> u64 \<Rightarrow> rat" where
  "gap a b \<equiv> of_nat (unat b) - of_nat (unat a)"

text \<open>The output and the price quoted on a range, as functions of the amount.\<close>

definition quotes_curve ::
  "(u64 \<Rightarrow> (venue_error, quote_result) res) \<Rightarrow> u64 \<Rightarrow> u64 \<Rightarrow> (u64 \<Rightarrow> u64) \<Rightarrow> (u64 \<Rightarrow> rat) \<Rightarrow> bool" where
  "quotes_curve f l u out price \<longleftrightarrow> (\<forall>x. l \<le> x \<and> x \<le> u \<longrightarrow>
     (\<exists>q. f x = Ok q \<and> valid_quote q \<and> qr_expected_output q = out x \<and> qr_price q = Finite (price x)))"

text \<open>\<open>p(b) \<le> chord \<le> p(a)\<close>, multiplied by \<open>b - a\<close>.\<close>

definition chord_between :: "rat \<Rightarrow> rat \<Rightarrow> u64 \<Rightarrow> u64 \<Rightarrow> u64 \<Rightarrow> u64 \<Rightarrow> rat \<Rightarrow> rat \<Rightarrow> bool" where
  "chord_between tol sl a b out_a out_b p_a p_b \<longleftrightarrow>
     p_b * (1 - tol) * gap a b - sl \<le> gap out_a out_b \<and> gap out_a out_b \<le> p_a * (1 + tol) * gap a b + sl"

text \<open>The slope on \<open>[b, c]\<close> is at most the slope on \<open>[a, b]\<close>, multiplied by both lengths.\<close>

definition concave_between :: "rat \<Rightarrow> rat \<Rightarrow> u64 \<Rightarrow> u64 \<Rightarrow> u64 \<Rightarrow> u64 \<Rightarrow> u64 \<Rightarrow> u64 \<Rightarrow> bool" where
  "concave_between tol sl a b c out_a out_b out_c \<longleftrightarrow>
     (gap out_b out_c - sl) * gap a b * (1 - tol) \<le> (gap out_a out_b + sl) * gap b c * (1 + tol)"

definition pricing_rules ::
  "(u64 \<Rightarrow> (venue_error, quote_result) res) \<Rightarrow> rat \<Rightarrow> rat \<Rightarrow> u64 \<Rightarrow> u64 \<Rightarrow> bool" where
  "pricing_rules f tol sl l u \<longleftrightarrow>
     (\<exists>q. f 0 = Ok q \<and> qr_expected_output q = 0) \<and>
     (\<exists>out price. quotes_curve f l u out price \<and>
       (\<forall>a b. l \<le> a \<and> a \<le> b \<and> b \<le> u \<longrightarrow>
          out a \<le> out b \<and> 0 < price b \<and> price b \<le> price a \<and>
          chord_between tol sl a b (out a) (out b) (price a) (price b)) \<and>
       (\<forall>a b c. l \<le> a \<and> a \<le> b \<and> b \<le> c \<and> c \<le> u \<longrightarrow>
          concave_between tol sl a b c (out a) (out b) (out c)))"

text \<open>Both functions read off a quoting function, 0 where it does not quote.\<close>

definition out_at :: "(u64 \<Rightarrow> (venue_error, quote_result) res) \<Rightarrow> u64 \<Rightarrow> u64" where
  "out_at f x = (case f x of Inr q \<Rightarrow> qr_expected_output q | Inl _ \<Rightarrow> 0)"

definition price_at :: "(u64 \<Rightarrow> (venue_error, quote_result) res) \<Rightarrow> u64 \<Rightarrow> rat" where
  "price_at f x = (case f x of Inr q \<Rightarrow> (case qr_price q of Finite p \<Rightarrow> p | _ \<Rightarrow> 0) | Inl _ \<Rightarrow> 0)"

section \<open>Chords and concavity\<close>

lemma gap_nonneg: "a \<le> b \<Longrightarrow> 0 \<le> gap a b"
  by (simp add: word_le_nat_alt del: of_nat_unat)

lemma chords_concave:
  assumes "a \<le> b" "b \<le> c" "0 \<le> tol" "tol \<le> 1"
    and ab: "chord_between tol sl a b out_a out_b p_a p_b"
    and bc: "chord_between tol sl b c out_b out_c p_b p_c"
  shows "concave_between tol sl a b c out_a out_b out_c"
proof -
  have "(gap out_b out_c - sl) * (gap a b * (1 - tol)) \<le> p_b * (1 + tol) * gap b c * (gap a b * (1 - tol))"
    using bc gap_nonneg [OF assms(1)] assms(4) by (intro mult_right_mono) (simp_all add: chord_between_def)
  also have "\<dots> = p_b * (1 - tol) * gap a b * (gap b c * (1 + tol))" by simp
  also have "\<dots> \<le> (gap out_a out_b + sl) * (gap b c * (1 + tol))"
    using ab gap_nonneg [OF assms(2)] assms(3) by (intro mult_right_mono) (simp_all add: chord_between_def)
  finally show ?thesis by (simp only: concave_between_def mult.assoc)
qed

section \<open>The interface\<close>

locale priced_quoter = convex_quoter quote_at wf
  for quote_at :: "'s \<Rightarrow> u64 \<Rightarrow> (venue_error, quote_result) res" and wf :: "'s \<Rightarrow> bool" +
  fixes tolerance :: rat and slack :: "'s \<Rightarrow> rat"
  assumes tolerance: "0 \<le> tolerance \<and> tolerance \<le> 1"
    and zero_quote: "wf s \<Longrightarrow> valid_at (quote_at s) x \<Longrightarrow>
      \<exists>q. quote_at s 0 = Ok q \<and> qr_expected_output q = 0"
    and two_quotes: "wf s \<Longrightarrow> a \<le> b \<Longrightarrow> quote_at s a = Ok q \<Longrightarrow> valid_quote q \<Longrightarrow>
      quote_at s b = Ok q' \<Longrightarrow> valid_quote q' \<Longrightarrow>
      \<exists>p p'. qr_price q = Finite p \<and> qr_price q' = Finite p' \<and>
        qr_expected_output q \<le> qr_expected_output q' \<and> 0 < p' \<and> p' \<le> p \<and>
        chord_between tolerance (slack s) a b (qr_expected_output q) (qr_expected_output q') p p'"
begin

lemma curve:
  assumes "wf s" "valid_at (quote_at s) x"
  shows "\<exists>q. quote_at s x = Ok q \<and> valid_quote q \<and> qr_expected_output q = out_at (quote_at s) x \<and>
    qr_price q = Finite (price_at (quote_at s) x)"
proof -
  obtain q where q: "quote_at s x = Ok q" "valid_quote q" using assms(2) by (auto simp: valid_at_eq_Inr)
  then obtain p where "qr_price q = Finite p" using two_quotes [OF assms(1) order_refl q q] by blast
  with q show ?thesis by (simp add: out_at_def price_at_def)
qed

lemma two_amounts:
  assumes "wf s" "valid_at (quote_at s) a" "valid_at (quote_at s) b" "a \<le> b"
  shows "out_at (quote_at s) a \<le> out_at (quote_at s) b" "0 < price_at (quote_at s) b" "price_at (quote_at s) b \<le> price_at (quote_at s) a"
    and "chord_between tolerance (slack s) a b (out_at (quote_at s) a) (out_at (quote_at s) b) (price_at (quote_at s) a) (price_at (quote_at s) b)"
proof -
  obtain q where q: "quote_at s a = Ok q" "valid_quote q" "qr_expected_output q = out_at (quote_at s) a"
    "qr_price q = Finite (price_at (quote_at s) a)"
    using curve [OF assms(1,2)] by blast
  obtain q' where q': "quote_at s b = Ok q'" "valid_quote q'" "qr_expected_output q' = out_at (quote_at s) b"
    "qr_price q' = Finite (price_at (quote_at s) b)"
    using curve [OF assms(1,3)] by blast
  note two = two_quotes [OF assms(1,4) q(1,2) q'(1,2), unfolded q(3,4) q'(3,4)]
  then show "out_at (quote_at s) a \<le> out_at (quote_at s) b" "0 < price_at (quote_at s) b" "price_at (quote_at s) b \<le> price_at (quote_at s) a"
    "chord_between tolerance (slack s) a b (out_at (quote_at s) a) (out_at (quote_at s) b) (price_at (quote_at s) a) (price_at (quote_at s) b)"
    by auto
qed

lemma search_prices:
  assumes "wf s" "find_boundaries (quote_at s) = Ok (l, u)"
  shows "pricing_rules (quote_at s) tolerance (slack s) l u"
proof -
  note valid = search_covers(1) [OF assms]
  have "valid_at (quote_at s) l" using search_ends(1) [OF assms] by blast
  then have zero: "\<exists>q. quote_at s 0 = Ok q \<and> qr_expected_output q = 0" by (rule zero_quote [OF assms(1)])
  have two: "out_at (quote_at s) a \<le> out_at (quote_at s) b \<and> 0 < price_at (quote_at s) b \<and> price_at (quote_at s) b \<le> price_at (quote_at s) a \<and>
      chord_between tolerance (slack s) a b (out_at (quote_at s) a) (out_at (quote_at s) b) (price_at (quote_at s) a) (price_at (quote_at s) b)"
    if "l \<le> a \<and> a \<le> b \<and> b \<le> u" for a b
  proof -
    have "valid_at (quote_at s) a" "valid_at (quote_at s) b" using that by (auto intro: valid)
    then show ?thesis using two_amounts [OF assms(1)] that by blast
  qed
  have three: "concave_between tolerance (slack s) a b c (out_at (quote_at s) a) (out_at (quote_at s) b) (out_at (quote_at s) c)"
    if "l \<le> a \<and> a \<le> b \<and> b \<le> c \<and> c \<le> u" for a b c
  proof -
    have "b \<le> u" "l \<le> b" using that by auto
    then show ?thesis using two [of a b] two [of b c] that tolerance by (blast intro: chords_concave)
  qed
  have "quotes_curve (quote_at s) l u (out_at (quote_at s)) (price_at (quote_at s))"
    unfolding quotes_curve_def using curve [OF assms(1) valid] by blast
  then show ?thesis unfolding pricing_rules_def using zero two three by blast
qed

end

end
