(* ===== verification/Raydium_Price.thy ===== *)
theory Raydium_Price
  imports Raydium_Venue F64_Error Pricing
begin

text \<open>
  The marginal price of a Raydium quote (\<open>price\<close> of \<open>src/example/mod.rs\<close>) against the exact
  one: the double is within a relative \<open>2^-47\<close> of the derivative of the swap curve, and the
  prices of two quotes bracket the slope of the integer outputs between them, up to the
  rounding of the fee and of the output. The venue is an instance of \<open>priced_quoter\<close>.
\<close>

section \<open>The exact curve\<close>

text \<open>What a swap of \<open>x\<close> yields without rounding, and its derivative.\<close>

definition exact_curve :: "rat \<Rightarrow> rat \<Rightarrow> rat \<Rightarrow> rat \<Rightarrow> rat" where
  "exact_curve X Y k x = Y * (k * x) / (X + k * x)"

definition exact_marginal :: "rat \<Rightarrow> rat \<Rightarrow> rat \<Rightarrow> rat \<Rightarrow> rat" where
  "exact_marginal X Y k x = Y * k * X / ((X + k * x) * (X + k * x))"

lemma exact_curve_chord:
  assumes "0 < X" "0 \<le> Y" "0 \<le> k" "0 \<le> x" "x \<le> y"
  shows "exact_marginal X Y k y * (y - x) \<le> exact_curve X Y k y - exact_curve X Y k x"
    and "exact_curve X Y k y - exact_curve X Y k x \<le> exact_marginal X Y k x * (y - x)"
proof -
  let ?a = "X + k * x" and ?b = "X + k * y"
  have k: "0 \<le> k * x" "k * x \<le> k * y" using assms by (simp_all add: mult_left_mono)
  have a: "0 < ?a" "?a \<le> ?b" "0 < ?b" using k assms(1) by linarith+
  have c: "0 \<le> Y * k * X * (y - x)" using assms by simp
  have eq: "exact_curve X Y k y - exact_curve X Y k x = Y * k * X * (y - x) / (?a * ?b)"
  proof -
    have "exact_curve X Y k y - exact_curve X Y k x = (Y * (k * y) * ?a - Y * (k * x) * ?b) / (?b * ?a)"
      unfolding exact_curve_def using a by (intro diff_frac_eq) auto
    also have "Y * (k * y) * ?a - Y * (k * x) * ?b = Y * k * X * (y - x)" by (simp add: algebra_simps)
    finally show ?thesis by (simp only: mult.commute [of ?b ?a])
  qed
  have m: "exact_marginal X Y k z * (y - x) = Y * k * X * (y - x) / ((X + k * z) * (X + k * z))" for z
    by (simp add: exact_marginal_def)
  show "exact_marginal X Y k y * (y - x) \<le> exact_curve X Y k y - exact_curve X Y k x"
    unfolding eq m using c a by (intro divide_left_mono mult_right_mono mult_pos_pos) auto
  show "exact_curve X Y k y - exact_curve X Y k x \<le> exact_marginal X Y k x * (y - x)"
    unfolding eq m using c a by (intro divide_left_mono mult_left_mono mult_pos_pos) auto
qed

text \<open>The integer output loses at most the output's own rounding and one unit of the input.\<close>

lemma exact_curve_floor:
  fixes t :: rat
  assumes "0 < X" "of_nat net \<le> t" "t < of_nat net + 1"
  shows "of_nat (curve_out X Y net) \<le> of_nat Y * t / (of_nat X + t)"
    and "of_nat Y * t / (of_nat X + t) < of_nat (curve_out X Y net) + (1 + of_nat Y / of_nat X :: rat)"
proof -
  let ?X = "rat_of_nat X" and ?Y = "rat_of_nat Y" and ?n = "rat_of_nat net"
  have X: "0 < ?X" using assms(1) by simp
  have pos: "0 < ?X + ?n" "0 < ?X + t" "0 \<le> ?n" "0 \<le> t" using X assms(2,3) of_nat_0_le_iff [of net] by linarith+
  note fl = rat_div_bounds [of "X + net" "Y * net", folded curve_out_def]
  have gap: "?Y * t / (?X + t) - ?Y * ?n / (?X + ?n) = ?Y * (?X * (t - ?n)) / ((?X + t) * (?X + ?n))"
    using pos by (simp add: diff_frac_eq algebra_simps)
  have "?Y * (?X * (t - ?n)) / ((?X + t) * (?X + ?n)) \<ge> 0" using assms(2) X pos by (intro divide_nonneg_pos mult_nonneg_nonneg mult_pos_pos) auto
  then show "of_nat (curve_out X Y net) \<le> ?Y * t / (?X + t)" using fl(1) gap assms(1) by simp
  have "?X * ?X \<le> (?X + t) * (?X + ?n)" using X pos by (intro mult_mono) auto
  then have "?Y * (?X * (t - ?n)) / ((?X + t) * (?X + ?n)) \<le> ?Y * (?X * (t - ?n)) / (?X * ?X)"
    using X pos assms(2) by (intro divide_left_mono mult_nonneg_nonneg mult_pos_pos) auto
  also have "\<dots> \<le> ?Y * (?X * 1) / (?X * ?X)"
    using X assms(3) by (intro divide_right_mono mult_left_mono) auto
  also have "\<dots> = ?Y / ?X" using X by simp
  finally show "?Y * t / (?X + t) < of_nat (curve_out X Y net) + (1 + ?Y / ?X)"
    using fl(2) gap assms(1) by simp
qed

section \<open>The computed price\<close>

definition kept_fraction :: "calculate_result \<Rightarrow> rat" where
  "kept_fraction c = (if cr_swap_fee_denominator c = 0 then 1
     else 1 - of_nat (unat (cr_swap_fee_numerator c)) / of_nat (unat (cr_swap_fee_denominator c)))"

lemma kept_fraction_range:
  assumes "priced_pool c"
  shows "1 / 2 \<le> kept_fraction c" "kept_fraction c \<le> 1"
proof -
  let ?n = "unat (cr_swap_fee_numerator c)" and ?d = "unat (cr_swap_fee_denominator c)"
  have "2 * rat_of_nat ?n \<le> rat_of_nat ?d"
    using assms unfolding priced_pool_def by (metis of_nat_le_iff of_nat_mult of_nat_numeral)
  moreover have "0 < rat_of_nat ?d" if "cr_swap_fee_denominator c \<noteq> 0" using u64_between [OF that] by linarith
  ultimately show "1 / 2 \<le> kept_fraction c" "kept_fraction c \<le> 1"
    by (auto simp: kept_fraction_def field_simps simp del: of_nat_unat)
qed

lemma approx_keep:
  assumes "priced_pool c"
  shows "approx 5 (kept_fraction c) (f_sub (f_of_nat 1)
    (if cr_swap_fee_denominator c = 0 then f_of_nat 0
     else f_div (f_of_u64 (cr_swap_fee_numerator c)) (f_of_u64 (cr_swap_fee_denominator c))))"
    (is "approx 5 _ (f_sub _ ?f)")
proof -
  let ?n = "unat (cr_swap_fee_numerator c)" and ?d = "unat (cr_swap_fee_denominator c)"
  note k = kept_fraction_range [OF assms]
  have fit: "?d < 2 ^ 53" "?n < 2 ^ 53" using assms by (auto simp: priced_pool_def)
  have "approx 1 (1 - kept_fraction c) ?f"
  proof (cases "cr_swap_fee_denominator c = 0")
    case True
    then show ?thesis by (simp add: kept_fraction_def approx_def f_of_nat_def near_refl)
  next
    case False
    have d: "0 < rat_of_nat ?d" using u64_between [OF False] by linarith
    have "mid_range (of_nat ?n / of_nat ?d)"
    proof (cases "cr_swap_fee_numerator c = 0")
      case n: False
      have "1 / 2 ^ 64 \<le> rat_of_nat ?n / of_nat ?d"
        using u64_between [OF False] u64_between [OF n] d by (intro frac_le) auto
      moreover have "rat_of_nat ?n / of_nat ?d \<le> 2 ^ 64 / 1"
        using u64_between [OF False] u64_between [OF n] by (intro frac_le) auto
      ultimately show ?thesis by (intro mid_range_between [of "- 64" _ 64]) (simp_all add: power_int_minus)
    qed simp
    then have "approx (Suc (0 + 0)) (of_nat ?n / of_nat ?d) (f_div (f_of_u64 (cr_swap_fee_numerator c)) (f_of_u64 (cr_swap_fee_denominator c)))"
      unfolding f_of_u64_def using d fit by (intro approx_div approx_nat) simp_all
    then show ?thesis using False by (simp add: kept_fraction_def)
  qed
  moreover have "mid_range (kept_fraction c)"
    using k by (intro mid_range_between [of "- 1" _ 0]) (simp_all add: power_int_minus)
  ultimately have "approx (Suc (2 * 2)) (1 - (1 - kept_fraction c)) (f_sub (f_of_nat 1) ?f)"
    using k by (intro approx_one_minus) simp_all
  then show ?thesis by simp
qed

lemma approx_price_of:
  assumes X: "approx 1 X fX" "1 \<le> X" "X \<le> 2 ^ 64" and Y: "approx 1 Y fY" "1 \<le> Y" "Y \<le> 2 ^ 64"
    and k: "approx 5 k fk" "1 / 2 \<le> k" "k \<le> 1" and a: "approx 1 a fa" "a = 0 \<or> 1 \<le> a" "a \<le> 2 ^ 64"
  shows "approx 27 (exact_marginal X Y k a) (price_of fX fY fk fa)"
proof -
  have a0: "0 \<le> a" using a(2) by auto
  have ka: "0 \<le> k * a" "k * a \<le> 2 ^ 64" using mult_mono [OF k(3) a(3)] k a0 by simp_all
  have "mid_range (k * a)"
  proof (cases "a = 0")
    case False
    then have "1 / 2 * 1 \<le> k * a" using a(2) k by (intro mult_mono) auto
    then show ?thesis using ka by (intro mid_range_between [of "- 1" _ 64]) (simp_all add: power_int_minus)
  qed simp
  then have "approx (Suc (5 + 1)) (k * a) (f_mul fk fa)" by (intro approx_mult k a) simp_all
  moreover have D: "1 \<le> X + k * a" "X + k * a \<le> 2 ^ 65" using X ka by simp_all
  ultimately have "approx (Suc (max 1 (Suc (5 + 1)))) (X + k * a) (f_add fX (f_mul fk fa))"
    by (intro approx_add X) (auto intro: mid_range_between [of 0 _ 65])
  then have d: "approx 8 (X + k * a) (f_add fX (f_mul fk fa))" (is "approx _ ?d ?fd") by simp
  have dd: "1 \<le> ?d * ?d" "?d * ?d \<le> 2 ^ 130"
    using mult_mono [OF D(1) D(1)] mult_mono [OF D(2) D(2)] D by simp_all
  have DD: "approx (Suc (8 + 8)) (?d * ?d) (f_mul ?fd ?fd)"
    using dd by (intro approx_mult d mid_range_between [of 0 _ 130]) simp_all
  have Yk: "1 / 2 \<le> Y * k" "Y * k \<le> 2 ^ 64"
    using mult_mono [OF Y(2) k(2)] mult_mono [OF Y(3) k(3)] Y k by simp_all
  have YkX: "1 / 2 \<le> Y * k * X" "Y * k * X \<le> 2 ^ 128"
    using mult_mono [OF Yk(1) X(2)] mult_mono [OF Yk(2) X(3)] Yk X by simp_all
  have "approx (Suc (1 + 5)) (Y * k) (f_mul fY fk)"
    using Yk by (intro approx_mult Y k mid_range_between [of "- 1" _ 64]) (simp_all add: power_int_minus)
  then have "approx (Suc (Suc (1 + 5) + 1)) (Y * k * X) (f_mul (f_mul fY fk) fX)"
    by (rule approx_mult [OF _ X(1)])
      (use YkX in \<open>auto intro!: mid_range_between [of "- 1" _ 128] simp: power_int_minus\<close>)
  moreover have "1 / 2 / 2 ^ 130 \<le> Y * k * X / (?d * ?d)" "Y * k * X / (?d * ?d) \<le> 2 ^ 128 / 1"
    using YkX dd by (intro frac_le; simp)+
  ultimately have "approx (Suc (Suc (Suc (1 + 5) + 1) + Suc (8 + 8))) (Y * k * X / (?d * ?d)) (price_of fX fY fk fa)"
    unfolding price_of_def Let_def using dd DD
    by (intro approx_div mid_range_between [of "- 131" _ 128]) (simp_all add: power_int_minus)
  then show ?thesis by (simp add: exact_marginal_def)
qed

abbreviation marginal_of :: "calculate_result \<Rightarrow> swap_direction \<Rightarrow> u64 \<Rightarrow> rat" where
  "marginal_of c dir a \<equiv>
     exact_marginal (of_nat (in_reserve_of c dir)) (of_nat (out_reserve_of c dir)) (kept_fraction c) (of_nat (unat a))"

lemma approx_raydium_price:
  assumes "priced_pool c"
  shows "approx 27 (marginal_of c dir a) (raydium_price c dir a)"
proof -
  have pc: "cr_pool_pc_vault_amount c \<noteq> 0" and coin: "cr_pool_coin_vault_amount c \<noteq> 0"
    using assms by (auto simp: priced_pool_def)
  have a: "rat_of_nat (unat a) = 0 \<or> 1 \<le> rat_of_nat (unat a)" "rat_of_nat (unat a) \<le> 2 ^ 64"
    using u64_between [of a] by (cases "a = 0"; simp del: of_nat_unat)+
  show ?thesis
    using approx_price_of [OF approx_u64 u64_between [OF pc] approx_u64 u64_between [OF coin]
        approx_keep [OF assms] kept_fraction_range [OF assms] approx_u64 a]
      approx_price_of [OF approx_u64 u64_between [OF coin] approx_u64 u64_between [OF pc]
        approx_keep [OF assms] kept_fraction_range [OF assms] approx_u64 a]
    by (cases dir) (simp_all add: raydium_price_def price_of_def Let_def del: of_nat_unat)
qed

lemma marginal_pos:
  assumes "priced_pool c"
  shows "0 < marginal_of c dir a"
proof -
  have "0 < rat_of_nat (in_reserve_of c dir)" "0 < rat_of_nat (out_reserve_of c dir)"
    using priced_pool_reserves(1,2) [OF assms, of dir] by simp_all
  moreover have "0 < kept_fraction c" using kept_fraction_range(1) [OF assms] by linarith
  moreover have "0 \<le> kept_fraction c * rat_of_nat (unat a)" using calculation by (simp del: of_nat_unat)
  ultimately show ?thesis unfolding exact_marginal_def by (intro divide_pos_pos mult_pos_pos add_pos_nonneg)
qed

lemma raydium_price_error:
  assumes "priced_pool c"
  obtains p where "raydium_price c dir a = Finite p"
    "\<bar>p - marginal_of c dir a\<bar> \<le> marginal_of c dir a / 2 ^ 47"
proof -
  obtain p where p: "raydium_price c dir a = Finite p" "near 27 (marginal_of c dir a) p"
    using approx_raydium_price [OF assms] by (rule approxE)
  have "\<bar>p - marginal_of c dir a\<bar> \<le> marginal_of c dir a * (2 * of_nat 27 * roundoff)"
    by (rule near_abs [OF p(2)]) simp
  also have "\<dots> \<le> marginal_of c dir a * (1 / 2 ^ 47)"
    using marginal_pos [OF assms, of dir a] by (intro mult_left_mono) (simp_all add: roundoff_def)
  finally show thesis using p(1) by (intro that) simp_all
qed

text \<open>
  C23: the marginal price of a priced pool, computed in double precision with every rounding of the
  code, is within a relative error of \<open>2^-47\<close> of the derivative of the exact swap curve at the amount.
\<close>

theorem raydium_price_accurate:
  assumes "priced_pool c"
  shows "\<exists>p. raydium_price c dir a = Finite p \<and>
    \<bar>p - marginal_of c dir a\<bar> \<le> marginal_of c dir a / 2 ^ 47"
  using raydium_price_error [OF assms] by blast

theorem raydium_price_accurate_witness:
  "\<exists>p. raydium_price sample_pool PC2Coin 1000000 = Finite p \<and>
    \<bar>p - marginal_of sample_pool PC2Coin 1000000\<bar> \<le> marginal_of sample_pool PC2Coin 1000000 / 2 ^ 47"
  by (rule raydium_price_accurate) (simp add: priced_pool_def sample_pool_def)

section \<open>Quotes and prices\<close>

text \<open>What one unit of input can be worth at most, and the rounding of the output.\<close>

definition rounding_slack :: "calculate_result \<Rightarrow> swap_direction \<Rightarrow> rat" where
  "rounding_slack c dir = 1 + of_nat (out_reserve_of c dir) / of_nat (in_reserve_of c dir)"

abbreviation curve_of :: "calculate_result \<Rightarrow> swap_direction \<Rightarrow> u64 \<Rightarrow> rat" where
  "curve_of c dir a \<equiv>
     exact_curve (of_nat (in_reserve_of c dir)) (of_nat (out_reserve_of c dir)) (kept_fraction c) (of_nat (unat a))"

lemma exact_in_on_curve:
  assumes c: "priced_pool c" and ok: "exact_in_of c dir a = Ok out"
  shows "of_nat (unat out) \<le> curve_of c dir a" "curve_of c dir a < of_nat (unat out) + rounding_slack c dir"
proof -
  let ?n = "unat (cr_swap_fee_numerator c)" and ?d = "unat (cr_swap_fee_denominator c)"
  note out = exact_in_Ok [OF ok]
  have nd: "?n \<le> ?d" using priced_pool_reserves(3) [OF c] by (simp add: word_le_nat_alt)
  have d: "cr_swap_fee_denominator c \<noteq> 0" "0 < rat_of_nat ?d" using out(1) by (auto simp del: of_nat_unat)
  have net: "net_in (unat a) ?n ?d = unat a * (?d - ?n) div ?d" by (rule net_in_floor [OF nd out(1)])
  have k: "kept_fraction c * of_nat (unat a) = of_nat (unat a * (?d - ?n)) / of_nat ?d"
    using d nd by (simp add: kept_fraction_def of_nat_diff field_simps del: of_nat_unat)
  note b = rat_div_bounds [OF out(1), of "unat a * (?d - ?n)", folded k net]
  show "of_nat (unat out) \<le> curve_of c dir a" "curve_of c dir a < of_nat (unat out) + rounding_slack c dir"
    unfolding out(5) exact_curve_def rounding_slack_def
    using exact_curve_floor [OF priced_pool_reserves(1) [OF c] b(1,2)] by blast+
qed

lemma quote_on_curve:
  assumes v: "rv_calculate_result v = Some c" "priced_pool c"
    and q: "raydium_quote v (exact_in_request i m x) = Ok q"
  obtains dir where "raydium_direction v (exact_in_request i m x) = Ok dir" "qr_price q = raydium_price c dir x"
    "of_nat (unat (qr_expected_output q)) \<le> curve_of c dir x"
    "curve_of c dir x < of_nat (unat (qr_expected_output q)) + rounding_slack c dir"
proof (cases "x = 0")
  case True
  then obtain dir where dir: "raydium_direction v (exact_in_request i m x) = Ok dir" "qr_price q = raydium_price c dir x"
    "qr_expected_output q = 0"
    using q v(1) by (auto simp: raydium_quote_def exact_in_request_def res_inv)
  have "0 < rounding_slack c dir" by (simp add: rounding_slack_def add_pos_nonneg)
  with dir True show thesis by (intro that [of dir]) (simp_all add: exact_curve_def)
next
  case False
  then obtain dir where "raydium_direction v (exact_in_request i m x) = Ok dir" "qr_price q = raydium_price c dir x"
    "exact_in_of c dir x = Ok (qr_expected_output q)"
    using q by (auto simp: raydium_quote_exact_in [OF v] res_inv split: if_splits)
  then show thesis using exact_in_on_curve [OF v(2)] by (intro that [of dir]) simp_all
qed

lemma raydium_direction_amount:
  "raydium_direction v (exact_in_request i m x) = raydium_direction v (exact_in_request i m y)"
  by (simp add: raydium_direction_def exact_in_request_def Let_def)

text \<open>
  The mean-value property of two exact-in quotes of a priced pool, for amounts \<open>x \<le> y\<close> (0
  included), wherever they lie: up to a relative \<open>2^-46\<close> of the prices and one unit of input and
  one of output lost to rounding.
\<close>

lemma quotes_chord:
  assumes v: "rv_calculate_result v = Some c" "priced_pool c" and "x \<le> y"
    and q: "raydium_quote v (exact_in_request i m x) = Ok q"
    and q': "raydium_quote v (exact_in_request i m y) = Ok q'"
  obtains dir p p' where "raydium_direction v (exact_in_request i m x) = Ok dir"
    "qr_price q = raydium_price c dir x" "qr_price q' = raydium_price c dir y"
    "qr_price q = Finite p" "qr_price q' = Finite p'"
    "p' * (1 - 1 / 2 ^ 46) * (of_nat (unat y) - of_nat (unat x)) - rounding_slack c dir
      \<le> of_nat (unat (qr_expected_output q')) - of_nat (unat (qr_expected_output q))"
    "of_nat (unat (qr_expected_output q')) - of_nat (unat (qr_expected_output q))
      \<le> p * (1 + 1 / 2 ^ 46) * (of_nat (unat y) - of_nat (unat x)) + rounding_slack c dir"
proof -
  obtain dir where x: "raydium_direction v (exact_in_request i m x) = Ok dir" "qr_price q = raydium_price c dir x"
    "of_nat (unat (qr_expected_output q)) \<le> curve_of c dir x"
    "curve_of c dir x < of_nat (unat (qr_expected_output q)) + rounding_slack c dir"
    by (rule quote_on_curve [OF v q])
  have y: "qr_price q' = raydium_price c dir y"
    "of_nat (unat (qr_expected_output q')) \<le> curve_of c dir y"
    "curve_of c dir y < of_nat (unat (qr_expected_output q')) + rounding_slack c dir"
    using quote_on_curve [OF v q'] x(1) raydium_direction_amount [of v i m x y] by (metis sum.inject(2))+
  obtain p where p: "raydium_price c dir x = Finite p" "\<bar>p - marginal_of c dir x\<bar> \<le> marginal_of c dir x / 2 ^ 47"
    by (rule raydium_price_error [OF v(2)])
  obtain p' where p': "raydium_price c dir y = Finite p'" "\<bar>p' - marginal_of c dir y\<bar> \<le> marginal_of c dir y / 2 ^ 47"
    by (rule raydium_price_error [OF v(2)])
  let ?n = "rat_of_nat (unat y) - of_nat (unat x)"
  have xy: "rat_of_nat (unat x) \<le> of_nat (unat y)" using assms(3) by (simp only: word_le_nat_alt of_nat_le_iff)
  then have n: "0 \<le> ?n" by simp
  have "0 < marginal_of c dir y" "0 < marginal_of c dir x" by (rule marginal_pos [OF v(2)])+
  then have "p' * (1 - 1 / 2 ^ 46) \<le> marginal_of c dir y" "marginal_of c dir x \<le> p * (1 + 1 / 2 ^ 46)"
    using relative_error_swap [of p "marginal_of c dir x" "1 / 2 ^ 47"] p(2)
      relative_error_swap [of p' "marginal_of c dir y" "1 / 2 ^ 47"] p'(2) by simp_all
  then have "p' * (1 - 1 / 2 ^ 46) * ?n \<le> marginal_of c dir y * ?n" "marginal_of c dir x * ?n \<le> p * (1 + 1 / 2 ^ 46) * ?n"
    using n by (intro mult_right_mono; simp)+
  moreover have "marginal_of c dir y * ?n \<le> curve_of c dir y - curve_of c dir x"
    "curve_of c dir y - curve_of c dir x \<le> marginal_of c dir x * ?n"
    using priced_pool_reserves(1,2) [OF v(2), of dir] kept_fraction_range(1) [OF v(2)] xy
    by (intro exact_curve_chord; simp del: of_nat_unat)+
  ultimately have "p' * (1 - 1 / 2 ^ 46) * ?n - rounding_slack c dir
      \<le> of_nat (unat (qr_expected_output q')) - of_nat (unat (qr_expected_output q))"
    "of_nat (unat (qr_expected_output q')) - of_nat (unat (qr_expected_output q))
      \<le> p * (1 + 1 / 2 ^ 46) * ?n + rounding_slack c dir"
    using x(3,4) y(2,3) by linarith+
  with x(1,2) y(1) p(1) p'(1) show thesis by (intro that) simp_all
qed

section \<open>The pricing requirements of the trait\<close>

fun raydium_slack :: "raydium_venue \<times> pubkey \<times> pubkey \<Rightarrow> rat" where
  "raydium_slack (v, i, m) =
     (case (rv_calculate_result v, raydium_direction v (exact_in_request i m 0)) of
        (Some c, Inr dir) \<Rightarrow> rounding_slack c dir
      | _ \<Rightarrow> 0)"

lemma raydium_two_quotes:
  assumes v: "rv_calculate_result v = Some c" "priced_pool c" and "a \<le> b"
    and q: "raydium_quote v (exact_in_request i m a) = Ok q" "valid_quote q"
    and q': "raydium_quote v (exact_in_request i m b) = Ok q'"
  shows "\<exists>p p'. qr_price q = Finite p \<and> qr_price q' = Finite p' \<and>
    qr_expected_output q \<le> qr_expected_output q' \<and> 0 < p' \<and> p' \<le> p \<and>
    chord_between (1 / 2 ^ 46) (raydium_slack (v, i, m)) a b (qr_expected_output q) (qr_expected_output q') p p'"
proof -
  obtain dir p p' where d: "raydium_direction v (exact_in_request i m a) = Ok dir"
    and p: "qr_price q = raydium_price c dir a" "qr_price q' = raydium_price c dir b"
      "qr_price q = Finite p" "qr_price q' = Finite p'"
    and ch: "p' * (1 - 1 / 2 ^ 46) * gap a b - rounding_slack c dir \<le> gap (qr_expected_output q) (qr_expected_output q')"
      "gap (qr_expected_output q) (qr_expected_output q') \<le> p * (1 + 1 / 2 ^ 46) * gap a b + rounding_slack c dir"
    by (rule quotes_chord [OF v assms(3) q(1) q'])
  have shape: "0 < p' \<and> p' \<le> p"
    using raydium_price_shape [OF v(2) assms(3), of dir] p by auto
  have d0: "raydium_direction v (exact_in_request i m z) = Ok dir" for z
    using d raydium_direction_amount [of v i m a z] by simp
  have "valid_at (raydium_quote_at (v, i, m)) a" using q by (auto simp: valid_at_eq_Inr)
  then have "a \<noteq> 0" by (simp add: raydium_valid_at_iff [OF v])
  then have "b \<noteq> 0" using assms(3) by auto
  have "exact_in_of c dir a = Ok (qr_expected_output q)" "exact_in_of c dir b = Ok (qr_expected_output q')"
    using q(1) q' d0 by (auto simp: raydium_quote_exact_in [OF v \<open>a \<noteq> 0\<close>] raydium_quote_exact_in [OF v \<open>b \<noteq> 0\<close>] res_inv split: if_splits)
  then have "qr_expected_output q \<le> qr_expected_output q'"
    using exact_in_larger [OF _ priced_pool_reserves(3) [OF v(2)] assms(3)] by fastforce
  then show ?thesis
    using p(3,4) shape ch d0 [of 0] v(1) by (simp only: chord_between_def raydium_slack.simps) auto
qed

interpretation raydium_prices: priced_quoter raydium_quote_at "\<lambda>(v, _). raydium_ready v" "1 / 2 ^ 46" raydium_slack
proof
  show "0 \<le> (1 / 2 ^ 46 :: rat) \<and> 1 / 2 ^ 46 \<le> (1 :: rat)" by simp
next
  fix s :: "raydium_venue \<times> pubkey \<times> pubkey" and x
  assume "case s of (v, _) \<Rightarrow> raydium_ready v" and x: "valid_at (raydium_quote_at s) x"
  then obtain v i m c where s: "s = (v, i, m)" and c: "rv_calculate_result v = Some c" "priced_pool c"
    by (cases s) (auto simp: raydium_ready_def split: option.splits)
  obtain dir where "raydium_direction v (exact_in_request i m 0) = Ok dir"
    using x unfolding s raydium_valid_at_iff [OF c] by blast
  then show "\<exists>q. raydium_quote_at s 0 = Ok q \<and> qr_expected_output q = 0"
    by (simp add: s raydium_quote_def c(1)) (simp add: exact_in_request_def)
next
  fix s :: "raydium_venue \<times> pubkey \<times> pubkey" and a b q q'
  assume "case s of (v, _) \<Rightarrow> raydium_ready v" and ab: "a \<le> b"
    and q: "raydium_quote_at s a = Ok q" "valid_quote q" "raydium_quote_at s b = Ok q'"
  then obtain v i m c where s: "s = (v, i, m)" and c: "rv_calculate_result v = Some c" "priced_pool c"
    by (cases s) (auto simp: raydium_ready_def split: option.splits)
  show "\<exists>p p'. qr_price q = Finite p \<and> qr_price q' = Finite p' \<and>
      qr_expected_output q \<le> qr_expected_output q' \<and> 0 < p' \<and> p' \<le> p \<and>
      chord_between (1 / 2 ^ 46) (raydium_slack s) a b (qr_expected_output q) (qr_expected_output q') p p'"
    using raydium_two_quotes [OF c ab] q unfolding s raydium_quote_at.simps by blast
qed

text \<open>
  C21: a ready venue meets the pricing requirements of the trait: on the range returned by
  \<open>bounds\<close> every amount is quoted in full, the output never falls, the price is finite, positive and
  never rises, the prices at two amounts bracket the average rate between them and larger fills
  receive a weaker rate; a zero amount is quoted at nothing. The tolerance is a relative \<open>2^-46\<close>, the slack
  one unit of output and the worth of one unit of input.
\<close>

theorem raydium_meets_pricing_rules:
  assumes "raydium_ready v" "bounds (raydium_trading_venue X iter v) i j = Ok (l, u)"
  shows "pricing_rules (\<lambda>x. raydium_quote v (exact_in_request (raydium_token_at v i) (raydium_token_at v j) x))
    (1 / 2 ^ 46) (raydium_slack (v, raydium_token_at v i, raydium_token_at v j)) l u"
proof -
  let ?s = "(v, raydium_token_at v i, raydium_token_at v j)"
  have "find_boundaries (raydium_quote_at ?s) = Ok (l, u)" using assms(2) by (simp add: raydium_bounds_eq split: if_splits)
  moreover have "raydium_quote_at ?s = (\<lambda>x. raydium_quote v (exact_in_request (raydium_token_at v i) (raydium_token_at v j) x))"
    by (rule ext) simp
  ultimately show ?thesis using raydium_prices.search_prices [of ?s l u] assms(1) by simp
qed

theorem raydium_meets_pricing_rules_witness:
  "\<exists>l u. bounds (raydium_trading_venue (undefined :: ext) undefined sample_venue) 0 1 = Ok (l, u) \<and>
    pricing_rules (\<lambda>x. raydium_quote sample_venue (exact_in_request 2 3 x)) (1 / 2 ^ 46) (7 / 6) l u"
proof -
  obtain l u where b: "bounds (raydium_trading_venue (undefined :: ext) undefined sample_venue) 0 1 = Ok (l, u)"
    using sample_venue_bounds by blast
  have t: "raydium_token_at sample_venue 0 = 2" "raydium_token_at sample_venue 1 = 3"
    by (simp_all add: sample_venue_def)
  have "raydium_direction sample_venue (exact_in_request 2 3 0) = Ok Coin2PC"
    by (simp add: raydium_direction_def sample_venue_def exact_in_request_def)
  moreover have "rounding_slack sample_pool Coin2PC = 7 / 6" by (simp add: rounding_slack_def sample_pool_def)
  ultimately have sl: "raydium_slack (sample_venue, 2, 3) = 7 / 6" by (simp add: sample_venue_def)
  show ?thesis using b raydium_meets_pricing_rules [OF sample_venue_ready b, unfolded t sl] by blast
qed

end
