(* ===== verification/Huma_Price.thy ===== *)
theory Huma_Price
  imports Huma_Math F64_Error
begin

text \<open>
  The marginal price of an instant withdrawal (\<open>src/huma/math.rs\<close>) against the amounts it pays:
  the double is within a relative \<open>2^-37\<close> of the exact rate after the fee of the bracket reached,
  and the prices at two sizes bracket the average payout between them, up to rounding.
\<close>

section \<open>The growth of the fee\<close>

text \<open>Only the brackets from the one reached first to the one reached last take part.\<close>

lemma bracket_part_unchanged:
  assumes st: "starts_in cs T L s" and en: "ends_in cs T L w e" "e \<le> s" and en': "ends_in cs T L w' e'" "e' \<le> s"
    and w: "w \<le> w'" and i: "i \<le> s" "bracket_part cs T L s w i \<noteq> bracket_part cs T L s w' i"
  shows "e' \<le> i" "i \<le> e"
proof -
  note cut = ends_in_cuts [OF st en] and cut' = ends_in_cuts [OF st en']
  note b = ends_in_boundaries [OF st en(1)] and b' = ends_in_boundaries [OF st en'(1)]
  show "i \<le> e"
  proof (rule ccontr)
    assume "\<not> i \<le> e"
    then have above: "e \<le> i - 1" "i - 1 < s" "e < i" using i(1) by auto
    have "boundary (ratio_of (cs ! (i - 1))) T L \<le> w" by (rule b(1) [OF above(1,2)])
    then have "upper_cut cs T L s w i = upper_cut cs T L s w' i"
      using above(3) w by (simp add: upper_cut_def min_absorb2)
    moreover have "lower_cut cs T L s w i = lower_cut cs T L s w' i"
      using b(1) [of i] above(3) i(1) w by (cases "i = s") (simp_all add: lower_cut_def min_absorb2)
    ultimately have "bracket_part cs T L s w i = bracket_part cs T L s w' i"
      by (simp only: bracket_part_def)
    then show False using i(2) by simp
  qed
  show "e' \<le> i"
  proof (rule ccontr)
    assume "\<not> e' \<le> i"
    then have below: "i < e'" "i < s" using en'(2) by auto
    have "w' \<le> boundary (ratio_of (cs ! i)) T L" by (rule b'(2) [OF below])
    then have "bracket_part cs T L s w i = 0" "bracket_part cs T L s w' i = 0"
      using w below cuts_order(2) [OF st i(1)] by (simp_all add: bracket_part_def lower_cut_def)
    then show False using i(2) by simp
  qed
qed

lemma ceil_div_rat:
  assumes "0 < b"
  shows "of_nat x / of_nat b \<le> rat_of_nat (ceil_div x b)" "rat_of_nat (ceil_div x b) < of_nat x / of_nat b + 1"
proof -
  have b: "0 < rat_of_nat b" using assms by simp
  have "rat_of_nat x \<le> of_nat (b * ceil_div x b)" using ceil_div_ge [OF assms] by (simp only: of_nat_le_iff)
  then show "of_nat x / of_nat b \<le> rat_of_nat (ceil_div x b)" using b by (simp add: pos_divide_le_eq mult.commute)
  have "b * ceil_div x b < x + b"
  proof (cases "ceil_div x b")
    case (Suc c)
    then have "b * c < x" using ceil_div_le_iff [OF assms, of x c] by linarith
    then show ?thesis by (simp add: Suc)
  qed (use assms in simp)
  then have "rat_of_nat (b * ceil_div x b) < of_nat (x + b)" by (simp only: of_nat_less_iff)
  then have "of_nat (ceil_div x b) * rat_of_nat b < of_nat x + of_nat b" by (simp add: mult.commute)
  then show "rat_of_nat (ceil_div x b) < of_nat x / of_nat b + 1"
    using b by (simp add: field_simps)
qed

lemma fee_growth:
  assumes st: "starts_in cs T L s" and fd: "fees_descend cs"
    and en: "ends_in cs T L w e" "e \<le> s" and en': "ends_in cs T L w' e'" "e' \<le> s" and w: "w \<le> w'"
  shows "of_nat (w' - w) * (of_nat (fee_of (cs ! e)) / 10000) - of_nat (Suc s)
      \<le> rat_of_nat (progressive_fee cs T L s w') - of_nat (progressive_fee cs T L s w)"
    and "rat_of_nat (progressive_fee cs T L s w') - of_nat (progressive_fee cs T L s w)
      \<le> of_nat (w' - w) * (of_nat (fee_of (cs ! e')) / 10000) + of_nat (Suc s)"
proof -
  let ?p = "bracket_part cs T L s w" and ?p' = "bracket_part cs T L s w'"
  let ?f = "\<lambda>i. rat_of_nat (fee_of (cs ! i))"
  let ?d = "\<lambda>i. rat_of_nat (?p' i - ?p i)"
  have le: "?p i \<le> ?p' i" if "i \<le> s" for i by (rule part_mono [OF st that w])
  have order: "?d i * ?f e \<le> ?d i * ?f i" "?d i * ?f i \<le> ?d i * ?f e'" if i: "i \<le> s" for i
  proof -
    have "?f e \<le> ?f i \<and> ?f i \<le> ?f e'" if "?p i \<noteq> ?p' i"
    proof -
      note mid = bracket_part_unchanged [OF st en en' w i that]
      have "e < length cs" using starts_inD(1) [OF st] en(2) by simp
      then have "fee_of (cs ! e) \<le> fee_of (cs ! i)" "fee_of (cs ! i) \<le> fee_of (cs ! e')"
        using fd mid by (cases "i = e"; cases "e' = i"; auto simp: fees_descend_def sorted_wrt_iff_nth_less)+
      then show ?thesis by (simp only: of_nat_le_iff)
    qed
    then show "?d i * ?f e \<le> ?d i * ?f i" "?d i * ?f i \<le> ?d i * ?f e'"
      by (cases "?p i = ?p' i"; auto intro: mult_left_mono simp del: of_nat_unat)+
  qed
  have total: "(\<Sum>i\<le> s. ?d i) = of_nat (w' - w)"
  proof -
    have "(\<Sum>i\<le> s. ?p' i - ?p i) = (\<Sum>i\<le> s. ?p' i) - (\<Sum>i\<le> s. ?p i)"
      using le by (intro sum_subtractf_nat) auto
    also have "\<dots> = w' - w" by (simp add: parts_sum [OF st] lower_cut_def)
    finally show ?thesis by (metis of_nat_sum)
  qed
  have part: "?d i * ?f i / 10000 - 1 \<le> rat_of_nat (part_fee cs T L s w' i) - of_nat (part_fee cs T L s w i)"
    "rat_of_nat (part_fee cs T L s w' i) - of_nat (part_fee cs T L s w i) \<le> ?d i * ?f i / 10000 + 1" if "i \<le> s" for i
    using ceil_div_rat [of 10000 "?p i * fee_of (cs ! i)"] ceil_div_rat [of 10000 "?p' i * fee_of (cs ! i)"] le [OF that]
    by (simp_all add: part_fee_def of_nat_diff left_diff_distrib diff_divide_distrib del: of_nat_unat)
  have lower: "(\<Sum>i\<le> s. ?d i * (?f e / 10000) - 1) \<le> (\<Sum>i\<le> s. rat_of_nat (part_fee cs T L s w' i) - of_nat (part_fee cs T L s w i))"
    using part(1) order(1) by (intro sum_mono) (fastforce simp del: of_nat_unat)
  have upper: "(\<Sum>i\<le> s. rat_of_nat (part_fee cs T L s w' i) - of_nat (part_fee cs T L s w i)) \<le> (\<Sum>i\<le> s. ?d i * (?f e' / 10000) + 1)"
    using part(2) order(2) by (intro sum_mono) (fastforce simp del: of_nat_unat)
  have fees: "(\<Sum>i\<le> s. rat_of_nat (part_fee cs T L s w' i) - of_nat (part_fee cs T L s w i)) =
      rat_of_nat (progressive_fee cs T L s w') - of_nat (progressive_fee cs T L s w)"
    by (simp add: progressive_fee_def sum_subtractf)
  show "of_nat (w' - w) * (?f e / 10000) - of_nat (Suc s)
      \<le> rat_of_nat (progressive_fee cs T L s w') - of_nat (progressive_fee cs T L s w)"
    using lower unfolding fees unfolding sum_subtractf sum_distrib_right [symmetric] total by simp
  show "rat_of_nat (progressive_fee cs T L s w') - of_nat (progressive_fee cs T L s w)
      \<le> of_nat (w' - w) * (?f e' / 10000) + of_nat (Suc s)"
    using upper unfolding fees unfolding sum.distrib sum_distrib_right [symmetric] total by simp
qed

section \<open>The computed price\<close>

lemma approx_keep_of:
  assumes "unat f < 10000"
  shows "approx 20001 (1 - of_nat (unat f) / 10000) (keep_of f)"
proof -
  let ?x = "rat_of_nat (unat f) / 10000"
  have "rat_of_nat (unat f) \<le> of_nat 9999" using assms by (simp only: of_nat_le_iff)
  then have f: "rat_of_nat (unat f) \<le> 9999" by simp
  have "mid_range ?x"
  proof (cases "unat f = 0")
    case False
    then have "1 \<le> rat_of_nat (unat f)" by (metis of_nat_1 of_nat_le_iff One_nat_def Suc_le_eq neq0_conv)
    then have "1 / 10000 \<le> ?x" by (intro divide_right_mono) simp_all
    then show ?thesis using f by (intro mid_range_between [of "- 14" _ 0]) (simp_all add: power_int_minus)
  qed simp
  then have "approx (Suc (0 + 0)) (of_nat (unat f) / of_nat 10000) (f_div (f_of_u16 f) (f_of_u64 HUNDRED_PERCENT_BPS))"
    unfolding f_of_u16_def f_of_u64_def HUNDRED_PERCENT_BPS_def using assms
    by (simp add: approx_div [OF approx_nat approx_nat, of "unat f" 10000, simplified])
  then have "approx 1 ?x (f_div (f_of_u16 f) (f_of_u64 HUNDRED_PERCENT_BPS))" by simp
  then have "approx (Suc (2 * 10000)) (1 - ?x) (keep_of f)"
    unfolding keep_of_def
    by (rule approx_one_minus)
      (use f in \<open>auto intro: mid_range_between [of "- 14" _ 0] simp: power_int_minus simp del: of_nat_unat\<close>)
  then show ?thesis by simp
qed

definition exact_rate :: "u64 \<Rightarrow> u64 \<Rightarrow> u16 \<Rightarrow> rat" where
  "exact_rate mode_assets mode_supply fee =
     of_nat (unat mode_assets) / of_nat (unat mode_supply) * (1 - of_nat (unat fee) / 10000)"

lemma approx_rate:
  assumes A: "mode_assets \<noteq> 0" and S: "mode_supply \<noteq> 0" and f: "unat fee < 10000"
  shows "approx 20005 (exact_rate mode_assets mode_supply fee)
      (f_mul (f_div (f_of_u64 mode_assets) (f_of_u64 mode_supply)) (keep_of fee))"
    and "0 < exact_rate mode_assets mode_supply fee"
proof -
  let ?q = "rat_of_nat (unat mode_assets) / of_nat (unat mode_supply)" and ?k = "1 - rat_of_nat (unat fee) / 10000"
  note a = u64_between [OF A] and s = u64_between [OF S]
  have s0: "0 < rat_of_nat (unat mode_supply)" using s by linarith
  have q: "1 / 2 ^ 64 \<le> ?q" "?q \<le> 2 ^ 64 / 1" using a s s0 by (intro frac_le; simp del: of_nat_unat)+
  have "rat_of_nat (unat fee) \<le> of_nat 9999" using f by (simp only: of_nat_le_iff)
  then have k: "1 / 10000 \<le> ?k" "?k \<le> 1" by (simp_all del: of_nat_unat)
  have rate: "1 / 2 ^ 64 * (1 / 10000) \<le> ?q * ?k" "?q * ?k \<le> 2 ^ 64 / 1 * 1"
    using q k by (intro mult_mono; simp del: of_nat_unat)+
  have "approx (Suc (1 + 1)) ?q (f_div (f_of_u64 mode_assets) (f_of_u64 mode_supply))"
    using q by (intro approx_div approx_u64 s0 mid_range_between [of "- 64" _ 64]) (simp_all add: power_int_minus del: of_nat_unat)
  then have "approx (Suc (Suc (1 + 1) + 20001)) (?q * ?k)
      (f_mul (f_div (f_of_u64 mode_assets) (f_of_u64 mode_supply)) (keep_of fee))"
    by (rule approx_mult [OF _ approx_keep_of [OF f]])
      (use rate in \<open>auto intro!: mid_range_between [of "- 78" _ 64] simp: power_int_minus simp del: of_nat_unat\<close>)
  then show "approx 20005 (exact_rate mode_assets mode_supply fee)
      (f_mul (f_div (f_of_u64 mode_assets) (f_of_u64 mode_supply)) (keep_of fee))"
    by (simp add: exact_rate_def del: of_nat_unat)
  show "0 < exact_rate mode_assets mode_supply fee"
    unfolding exact_rate_def using rate(1) by (rule less_le_trans [rotated]) simp
qed

lemma rate_error:
  assumes "mode_assets \<noteq> 0" "mode_supply \<noteq> 0" "unat fee < 10000"
  obtains p where "f_mul (f_div (f_of_u64 mode_assets) (f_of_u64 mode_supply)) (keep_of fee) = Finite p"
    "\<bar>p - exact_rate mode_assets mode_supply fee\<bar> \<le> exact_rate mode_assets mode_supply fee * (1 / 2 ^ 37)"
    "0 < exact_rate mode_assets mode_supply fee"
proof -
  let ?r = "exact_rate mode_assets mode_supply fee"
  note pos = approx_rate(2) [OF assms]
  obtain p where p: "f_mul (f_div (f_of_u64 mode_assets) (f_of_u64 mode_supply)) (keep_of fee) = Finite p"
    "near 20005 ?r p"
    using approx_rate(1) [OF assms] by (rule approxE)
  have "\<bar>p - ?r\<bar> \<le> ?r * (2 * of_nat 20005 * roundoff)"
    by (rule near_abs [OF p(2)]) simp
  also have "\<dots> \<le> ?r * (1 / 2 ^ 37)"
    using pos by (intro mult_left_mono) (simp_all add: roundoff_def)
  finally show thesis using p(1) pos by (intro that)
qed

lemma scale_rat:
  assumes "mode_supply \<noteq> 0" "unat shares * unat mode_assets div unat mode_supply < 2 ^ 64"
  shows "of_nat (unat (scale shares mode_assets mode_supply))
      \<le> rat_of_nat (unat shares) * (of_nat (unat mode_assets) / of_nat (unat mode_supply))"
    and "rat_of_nat (unat shares) * (of_nat (unat mode_assets) / of_nat (unat mode_supply))
      < of_nat (unat (scale shares mode_assets mode_supply)) + 1"
  using rat_div_bounds [of "unat mode_supply" "unat shares * unat mode_assets"] assms
  by (simp_all add: unat_scale unat_gt_0 del: of_nat_unat)

section \<open>Payouts and prices\<close>

lemma payout_chord:
  fixes A S T L :: u64
  assumes cs: "wf_fees (instant_withdrawal_fee_configs config)" "fees_descend (instant_withdrawal_fee_configs config)"
    and LT: "L \<le> T" and w: "w \<le> w'" "w \<noteq> 0"
    and f: "compute_instant_withdrawal_fee config T L w = (Ok (Some f) :: ('e, u64 option) res)"
    and f': "compute_instant_withdrawal_fee config T L w' = (Ok (Some f') :: ('e, u64 option) res)"
  obtains m m' where "marginal_fee_bps config T L w = (Ok (Some m) :: ('e, u16 option) res)" "unat m < 10000"
    "marginal_fee_bps config T L w' = (Ok (Some m') :: ('e, u16 option) res)" "unat m' < 10000"
    "of_nat (unat w' - unat w) * (of_nat (unat m) / 10000) - of_nat (length (instant_withdrawal_fee_configs config))
      \<le> rat_of_nat (unat f') - of_nat (unat f)"
    "rat_of_nat (unat f') - of_nat (unat f) \<le> of_nat (unat w' - unat w) * (of_nat (unat m') / 10000) +
      of_nat (length (instant_withdrawal_fee_configs config))"
proof -
  let ?cs = "instant_withdrawal_fee_configs config"
  obtain s e where s: "starts_in ?cs (unat T) (unat L) s" "ends_in ?cs (unat T) (unat L) (unat w) e" "e \<le> s"
    "unat f = progressive_fee ?cs (unat T) (unat L) s (unat w)" "fee_of (?cs ! e) < 10000"
    "marginal_fee_bps config T L w = (Ok (Some (fee_bps (?cs ! e))) :: ('e, u16 option) res)"
    by (rule compute_fee_marginal [OF cs(1) LT f w(2)])
  have "w' \<noteq> 0" using w by auto
  then obtain s' e' where s': "starts_in ?cs (unat T) (unat L) s'" "ends_in ?cs (unat T) (unat L) (unat w') e'" "e' \<le> s'"
    "unat f' = progressive_fee ?cs (unat T) (unat L) s' (unat w')" "fee_of (?cs ! e') < 10000"
    "marginal_fee_bps config T L w' = (Ok (Some (fee_bps (?cs ! e'))) :: ('e, u16 option) res)"
    by (rule compute_fee_marginal [OF cs(1) LT f'])
  have eq: "s' = s" using s(1) s'(1) by (simp add: starts_in_def)
  have ww: "unat w \<le> unat w'" using w(1) by (simp add: word_le_nat_alt)
  have "Suc s \<le> length ?cs" using starts_inD(1) [OF s(1)] by simp
  then have len: "rat_of_nat (Suc s) \<le> of_nat (length ?cs)" by (simp only: of_nat_le_iff)
  note growth = fee_growth [OF s(1) cs(2) s(2,3) s'(2,3) [unfolded eq] ww, folded s(4) s'(4) [unfolded eq]]
  show thesis
    using growth len by (intro that [OF s(6,5) s'(6,5)]) linarith+
qed

text \<open>
  The arithmetic of the next theorem: \<open>d\<close> atoms withdrawn for \<open>n\<close> shares at the rate \<open>q\<close>, of which \<open>f\<close>
  go to the fee, a fraction of \<open>m\<close> at one end and of \<open>m'\<close> at the other.
\<close>

lemma payout_between:
  fixes n q d m m' f l p p' e :: rat
  assumes "0 \<le> n" "n * q - 1 \<le> d" "d \<le> n * q + 1" "0 \<le> m \<and> m \<le> 1" "0 \<le> m' \<and> m' \<le> 1"
    and "d * m - l \<le> f" "f \<le> d * m' + l" "p' * (1 - e) \<le> q * (1 - m')" "q * (1 - m) \<le> p * (1 + e)"
  shows "p' * (1 - e) * n - (l + 1) \<le> d - f" "d - f \<le> p * (1 + e) * n + (l + 1)"
proof -
  have "(n * q - 1) * (1 - m') \<le> d * (1 - m')" "d * (1 - m) \<le> (n * q + 1) * (1 - m)"
    using assms by (intro mult_right_mono; simp)+
  then have "n * q * (1 - m') - 1 \<le> d * (1 - m')" "d * (1 - m) \<le> n * q * (1 - m) + 1"
    using conjunct1 [OF assms(4)] conjunct1 [OF assms(5)] by (simp_all only: left_diff_distrib distrib_right mult_1)
  moreover have "p' * (1 - e) * n \<le> q * (1 - m') * n" "q * (1 - m) * n \<le> p * (1 + e) * n"
    using assms by (intro mult_right_mono; simp)+
  ultimately show "p' * (1 - e) * n - (l + 1) \<le> d - f" "d - f \<le> p * (1 + e) * n + (l + 1)"
    using assms(6,7) by (simp_all add: algebra_simps)
qed

lemma fee_share:
  assumes "unat (g :: u16) < 10000"
  shows "0 \<le> rat_of_nat (unat g) / 10000 \<and> rat_of_nat (unat g) / 10000 \<le> 1"
proof -
  have "rat_of_nat (unat g) \<le> of_nat 10000" using assms by (simp only: of_nat_le_iff)
  then show ?thesis by (simp del: of_nat_unat)
qed

text \<open>
  The mean-value property of instant withdrawals, stated by the unit test of \<open>math.rs\<close> for one
  pool and here for all: with ascending thresholds and fees that rise as the liquid ratio falls,
  whenever two sizes are served both have a finite price, the price at the larger size is at
  most the average payout per share between them and the price at the smaller size at least that,
  up to a relative \<open>2^-36\<close> of the prices and one atom per fee tier plus one. (The larger amount
  fits 64 bits: the code casts it down.)
\<close>

lemma prices_chord:
  assumes "wf_fees (instant_withdrawal_fee_configs config)" "fees_descend (instant_withdrawal_fee_configs config)"
    and "shares \<le> shares'" "unat shares' * unat mode_assets div unat mode_supply < 2 ^ 64"
    and out: "underlying_for_instant_withdraw shares mode_assets total_assets mode_supply b d config =
      (Ok (Some out) :: ('e, u64 option) res)"
    and out': "underlying_for_instant_withdraw shares' mode_assets total_assets mode_supply b d config =
      (Ok (Some out') :: ('e, u64 option) res)"
  obtains p p' where
    "instant_withdraw_price shares mode_assets total_assets mode_supply b d config = (Ok (Some (Finite p)) :: ('e, f64 option) res)"
    "instant_withdraw_price shares' mode_assets total_assets mode_supply b d config = (Ok (Some (Finite p')) :: ('e, f64 option) res)"
    "p' * (1 - 1 / 2 ^ 36) * (of_nat (unat shares') - of_nat (unat shares)) -
        (of_nat (length (instant_withdrawal_fee_configs config)) + 1) \<le> of_nat (unat out') - of_nat (unat out)"
    "of_nat (unat out') - of_nat (unat out) \<le> p * (1 + 1 / 2 ^ 36) * (of_nat (unat shares') - of_nat (unat shares)) +
        (of_nat (length (instant_withdrawal_fee_configs config)) + 1)"
proof -
  let ?w = "scale shares mode_assets mode_supply" and ?w' = "scale shares' mode_assets mode_supply"
  let ?L = "liquid_assets d b total_assets" and ?q = "rat_of_nat (unat mode_assets) / of_nat (unat mode_supply)"
  let ?l = "rat_of_nat (length (instant_withdrawal_fee_configs config))"
  obtain f where S: "mode_supply \<noteq> 0" and f: "compute_instant_withdrawal_fee config total_assets ?L ?w = (Ok (Some f) :: ('e, u64 option) res)"
    "f < ?w" "out = ?w - f"
    using out unfolding underlying_Some by blast
  obtain f' where f': "compute_instant_withdrawal_fee config total_assets ?L ?w' = (Ok (Some f') :: ('e, u64 option) res)"
    "f' < ?w'" "out' = ?w' - f'"
    using out' unfolding underlying_Some by blast
  have w0: "?w \<noteq> 0" using f(2) by auto
  have A: "mode_assets \<noteq> 0" using w0 by (auto simp: scale_def)
  have sh: "rat_of_nat (unat shares) \<le> of_nat (unat shares')" using assms(3) by (simp only: word_le_nat_alt of_nat_le_iff)
  have le: "unat shares * unat mode_assets div unat mode_supply \<le> unat shares' * unat mode_assets div unat mode_supply"
    using assms(3) by (intro div_le_mono mult_le_mono1) (simp add: word_le_nat_alt)
  note fits = order_le_less_trans [OF le assms(4)]
  have ww: "?w \<le> ?w'" using le unfolding word_le_nat_alt by (simp only: unat_scale [OF S fits] unat_scale [OF S assms(4)])
  obtain m m' where m: "marginal_fee_bps config total_assets ?L ?w = (Ok (Some m) :: ('e, u16 option) res)" "unat m < 10000"
    "marginal_fee_bps config total_assets ?L ?w' = (Ok (Some m') :: ('e, u16 option) res)" "unat m' < 10000"
    "of_nat (unat ?w' - unat ?w) * (of_nat (unat m) / 10000) - ?l \<le> rat_of_nat (unat f') - of_nat (unat f)"
    "rat_of_nat (unat f') - of_nat (unat f) \<le> of_nat (unat ?w' - unat ?w) * (of_nat (unat m') / 10000) + ?l"
    by (rule payout_chord [OF assms(1,2) liquid_le_total ww w0 f(1) f'(1)])
  obtain p where p: "f_mul (f_div (f_of_u64 mode_assets) (f_of_u64 mode_supply)) (keep_of m) = Finite p"
    "\<bar>p - exact_rate mode_assets mode_supply m\<bar> \<le> exact_rate mode_assets mode_supply m * (1 / 2 ^ 37)"
    "0 < exact_rate mode_assets mode_supply m"
    by (rule rate_error [OF A S m(2)])
  obtain p' where p': "f_mul (f_div (f_of_u64 mode_assets) (f_of_u64 mode_supply)) (keep_of m') = Finite p'"
    "\<bar>p' - exact_rate mode_assets mode_supply m'\<bar> \<le> exact_rate mode_assets mode_supply m' * (1 / 2 ^ 37)"
    "0 < exact_rate mode_assets mode_supply m'"
    by (rule rate_error [OF A S m(4)])
  let ?n = "rat_of_nat (unat shares') - of_nat (unat shares)" and ?d = "rat_of_nat (unat ?w') - of_nat (unat ?w)"
  have wd: "rat_of_nat (unat ?w' - unat ?w) = ?d" using ww by (simp add: of_nat_diff word_le_nat_alt del: of_nat_unat)
  have gain: "rat_of_nat (unat out') - of_nat (unat out) = ?d - (of_nat (unat f') - of_nat (unat f))"
    using f(2,3) f'(2,3) by (simp add: unat_sub_le order_less_imp_le of_nat_diff word_less_nat_alt del: of_nat_unat)
  have n: "0 \<le> ?n" using sh by simp
  have nq: "?n * ?q - 1 \<le> ?d" "?d \<le> ?n * ?q + 1"
    using scale_rat [OF S fits] scale_rat [OF S assms(4)] unfolding left_diff_distrib by linarith+
  have "p' * (1 - 1 / 2 ^ 36) \<le> exact_rate mode_assets mode_supply m'" "exact_rate mode_assets mode_supply m \<le> p * (1 + 1 / 2 ^ 36)"
    using relative_error_swap [OF p(2)] relative_error_swap [OF p'(2)] p(3) p'(3) by simp_all
  then have "p' * (1 - 1 / 2 ^ 36) * ?n - (?l + 1) \<le> of_nat (unat out') - of_nat (unat out)"
    "of_nat (unat out') - of_nat (unat out) \<le> p * (1 + 1 / 2 ^ 36) * ?n + (?l + 1)"
    unfolding gain exact_rate_def
    using payout_between [OF n nq fee_share [OF m(2)] fee_share [OF m(4)] m(5,6) [unfolded wd]] by blast+
  moreover have "instant_withdraw_price shares mode_assets total_assets mode_supply b d config = (Ok (Some (Finite p)) :: ('e, f64 option) res)"
    "instant_withdraw_price shares' mode_assets total_assets mode_supply b d config = (Ok (Some (Finite p')) :: ('e, f64 option) res)"
    using S by (simp_all add: instant_withdraw_price_eq m p p')
  ultimately show thesis by (intro that)
qed

end
