(* ===== verification/Unit_Tests.thy ===== *)
theory Unit_Tests
  imports Swap_Route Raydium_Price Huma_Price
begin

text \<open>
  The unit tests of the crate (\<open>example/mod.rs\<close>, \<open>huma/math.rs\<close>, \<open>huma/instruction.rs\<close>,
  \<open>swap_route/mod.rs\<close>), with their fixtures, run on the model: a test is the conjunction of its
  assertions, and an \<open>unwrap\<close> or \<open>expect\<close> that would panic makes it fail. They pin the model to what
  its authors expect of the code.
\<close>

section \<open>Assertions\<close>

text \<open>\<open>unwrap\<close> of a result or of an option inside one, a float literal, float equality and absolute value.\<close>

fun unwrapped :: "('e, 'a) res \<Rightarrow> ('a \<Rightarrow> bool) \<Rightarrow> bool" where
  "unwrapped (Inr a) P = P a"
| "unwrapped (Inl e) P = False"

fun expected :: "('e, 'a option) res \<Rightarrow> ('a \<Rightarrow> bool) \<Rightarrow> bool" where
  "expected (Inr (Some a)) P = P a"
| "expected (Inr None) P = False"
| "expected (Inl e) P = False"

definition lit :: "rat \<Rightarrow> f64" where "lit x = round64 x"

definition f_eq :: "f64 \<Rightarrow> f64 \<Rightarrow> bool" where "f_eq x y = (f_le x y \<and> f_le y x)"

fun f_abs :: "f64 \<Rightarrow> f64" where
  "f_abs NaN = NaN"
| "f_abs (Infinite s) = Infinite False"
| "f_abs (Finite x) = Finite \<bar>x\<bar>"

text \<open>\<open>f64::max\<close> ignores a NaN.\<close>

definition f_max :: "f64 \<Rightarrow> f64 \<Rightarrow> f64" where
  "f_max x y = (if x = NaN then y else if y = NaN \<or> f_le y x then x else y)"

section \<open>\<open>huma/instruction.rs\<close>\<close>

definition deposit_layout :: "'x ext_scheme \<Rightarrow> bool" where
  "deposit_layout X =
     unwrapped (huma_pack X (Deposit 1000) :: (unit, u8 list) res) (\<lambda>data.
       length data = 34 \<and>
       (from_le_bytes (slice 8 8 data) :: u64) = 1000 \<and>
       (from_le_bytes (slice 16 4 data) :: u32) = 13 \<and>
       slice 20 13 data = ascii NO_COMMITMENT \<and>
       data ! 33 = 0)"

definition instant_withdraw_layout :: "'x ext_scheme \<Rightarrow> bool" where
  "instant_withdraw_layout X =
     unwrapped (huma_pack X (InstantWithdraw 500 200) :: (unit, u8 list) res) (\<lambda>data.
       length data = 24 \<and>
       (from_le_bytes (slice 8 8 data) :: u64) = 500 \<and>
       (from_le_bytes (slice 16 8 data) :: u64) = 200)"

definition create_lender_accounts_layout :: "'x ext_scheme \<Rightarrow> bool" where
  "create_lender_accounts_layout X =
     unwrapped (huma_pack X CreateLenderAccountsV2 :: (unit, u8 list) res) (\<lambda>data.
       length data = 8 \<and>
       unwrapped (anchor_instruction_discriminator X ''create_lender_accounts_v2'' :: (unit, u8 list) res)
         (\<lambda>d. data = d))"

section \<open>\<open>swap_route/mod.rs\<close>\<close>

definition VENUE_PID :: pubkey where "VENUE_PID = key_of_bytes (replicate 32 7)"

record mock_venue =
  mock_titan_pda :: pubkey
  mock_other :: pubkey
  mock_protocol :: pool_protocol
  mock_token_info :: "token_info list"

definition mock_quote :: "quote_request \<Rightarrow> (venue_error, quote_result) res" where
  "mock_quote request =
     Ok \<lparr>qr_input_mint = req_input_mint request, qr_output_mint = req_output_mint request,
         qr_amount = req_amount request, qr_expected_output = req_amount request,
         qr_not_enough_liquidity = False, qr_price = lit 1\<rparr>"

definition mock_generate_swap_instruction ::
  "mock_venue \<Rightarrow> quote_request \<Rightarrow> pubkey \<Rightarrow> (venue_error, instruction) res" where
  "mock_generate_swap_instruction v request user =
     Ok \<lparr>ix_program_id = VENUE_PID,
         ix_accounts = [meta_new (mock_titan_pda v) True, meta_new (mock_other v) False],
         ix_data = []\<rparr>"

definition mock_trading_venue :: "mock_venue \<Rightarrow> trading_venue" where
  "mock_trading_venue v =
     \<lparr>v_initialized = True,
      v_program_id = VENUE_PID,
      v_program_dependencies = [VENUE_PID],
      v_market_id = 0,
      v_get_token_info = mock_token_info v,
      v_protocol = mock_protocol v,
      v_required_pubkeys = Ok [],
      v_quote = mock_quote,
      v_generate_swap_instruction = mock_generate_swap_instruction v\<rparr>"

text \<open>\<open>update_state\<close> leaves the venue as it is.\<close>

definition mock_update_state :: "mock_venue \<Rightarrow> (venue_error, unit) res \<times> mock_venue" where
  "mock_update_state v = (Ok (), v)"

definition test_request :: quote_request where
  "test_request =
     \<lparr>req_input_mint = key_of_bytes (replicate 32 1), req_output_mint = key_of_bytes (replicate 32 2),
      req_amount = 1000, req_swap_type = ExactIn\<rparr>"

definition mock_venue_of :: "pool_protocol \<Rightarrow> token_info list \<Rightarrow> mock_venue" where
  "mock_venue_of protocol infos =
     \<lparr>mock_titan_pda = key_of_bytes (replicate 32 9), mock_other = key_of_bytes (replicate 32 8),
      mock_protocol = protocol, mock_token_info = infos\<rparr>"

definition protocol_maps_to_venue :: bool where
  "protocol_maps_to_venue =
     unwrapped (protocol_to_venue (mock_trading_venue (mock_venue_of RaydiumAMM [])) test_request)
       (\<lambda>selector. selector = RouteRaydiumAmm)"

definition build_swap_leg_clears_titan_pda_signer_and_appends_program_id :: bool where
  "build_swap_leg_clears_titan_pda_signer_and_appends_program_id =
     (let titan_pda = key_of_bytes (replicate 32 9);
          venue = \<lparr>mock_titan_pda = titan_pda, mock_other = key_of_bytes (replicate 32 8),
                   mock_protocol = RaydiumAMM, mock_token_info = []\<rparr>
      in unwrapped (build_swap_leg (mock_trading_venue venue) test_request titan_pda 0 1 ROUTE_WEIGHT_ALL)
           (\<lambda>(spec, accounts).
             length accounts = 3 \<and>
             sp_n_accounts spec = 3 \<and>
             sp_venue spec = RouteRaydiumAmm \<and>
             (sp_from spec, sp_to spec) = (0, 1) \<and>
             (case find (\<lambda>a. am_pubkey a = titan_pda) accounts of
                None \<Rightarrow> False
              | Some titan_pda_meta \<Rightarrow> \<not> is_signer titan_pda_meta) \<and>
             accounts \<noteq> [] \<and>
             am_pubkey (last accounts) = VENUE_PID \<and>
             \<not> is_signer (last accounts) \<and> \<not> is_writable (last accounts)))"

definition encodes_instruction_data_like_anchor :: bool where
  "encodes_instruction_data_like_anchor =
     (let spec = \<lparr>sp_venue = RouteRaydiumAmm, sp_from = 0, sp_to = 1,
                  sp_weight_nanos = ROUTE_WEIGHT_ALL, sp_n_accounts = 3\<rparr>;
          data = encode_swap_route_v3_data 5000 2 [spec];
          expected_data = [SWAP_ROUTE_V3_DISCRIMINATOR] @ to_le_bytes (5000 :: u64) @ [2] @
            to_le_bytes (1 :: u32) @ [0] @ [0] @ [1] @ to_le_bytes ROUTE_WEIGHT_ALL @ [3]
      in data = expected_data)"

definition venue_borsh_bytes_are_stable :: bool where
  "venue_borsh_bytes_are_stable \<longleftrightarrow>
     to_borsh_bytes RouteRaydiumAmm = [0] \<and>
     to_borsh_bytes (RouteHuma False) = [1, 0] \<and>
     to_borsh_bytes (RouteHuma True) = [1, 1]"

section \<open>\<open>huma/math.rs\<close>\<close>

definition test_fee_config :: "(u16 \<times> u16) list \<Rightarrow> withdrawal_config" where
  "test_fee_config tiers =
     \<lparr>instant_withdrawal_reserve_limit = 0,
      instant_withdrawal_fee_configs =
        map (\<lambda>(ratio_lt, fee). \<lparr>liquid_asset_ratio_lt_bps = ratio_lt, fee_bps = fee\<rparr>) tiers,
      liquidity_source = None\<rparr>"

text \<open>The tests of the deposits and withdrawals, at their types: no error is possible, only a panic.\<close>

abbreviation test_deposit :: "u64 \<Rightarrow> u64 \<Rightarrow> u64 \<Rightarrow> (unit, u64 option) res" where
  "test_deposit \<equiv> shares_for_deposit"

abbreviation test_withdraw :: "u64 \<Rightarrow> u64 \<Rightarrow> u64 \<Rightarrow> u64 \<Rightarrow> u64 \<Rightarrow> u64 \<Rightarrow> withdrawal_config \<Rightarrow> (unit, u64 option) res" where
  "test_withdraw \<equiv> underlying_for_instant_withdraw"

definition deposit_empty_pool_one_to_one :: bool where
  "deposit_empty_pool_one_to_one \<longleftrightarrow> test_deposit 1000 0 0 = Ok (Some 1000)"

definition deposit_proportional :: bool where
  "deposit_proportional \<longleftrightarrow> test_deposit 1000 2000 1000 = Ok (Some 500)"

definition deposit_insolvent_returns_none :: bool where
  "deposit_insolvent_returns_none \<longleftrightarrow> test_deposit 1000 0 500 = Ok None"

definition deposit_rounds_to_zero_returns_none :: bool where
  "deposit_rounds_to_zero_returns_none \<longleftrightarrow> test_deposit 1 1000000 1000 = Ok None"

definition withdraw_no_fee_proportional :: bool where
  "withdraw_no_fee_proportional \<longleftrightarrow>
     test_withdraw 500 2000 2000 1000 2000 0 (test_fee_config [(10000, 0)]) = Ok (Some 1000)"

definition withdraw_zero_supply_returns_none :: bool where
  "withdraw_zero_supply_returns_none \<longleftrightarrow>
     test_withdraw 500 2000 2000 0 2000 0 (test_fee_config [(10000, 0)]) = Ok None"

definition withdraw_no_matching_tier_returns_none :: bool where
  "withdraw_no_matching_tier_returns_none \<longleftrightarrow>
     test_withdraw 800 1000 1000 1000 1000 0 (test_fee_config [(5000, 100)]) = Ok None"

definition deposit_price_is_constant_spot_rate :: bool where
  "deposit_price_is_constant_spot_rate \<longleftrightarrow>
     f_eq (deposit_price 2000 1000) (lit (1 / 2)) \<and>
     f_eq (deposit_price 1000 1000) (lit 1) \<and>
     f_eq (deposit_price 0 0) (lit 1)"

text \<open>The fixture of the price test, its loop over the samples and its loop over their windows.\<close>

definition test_tiers :: withdrawal_config where
  "test_tiers = test_fee_config [(2500, 500), (5000, 200), (10000, 50)]"

definition test_out :: "u64 \<Rightarrow> (unit, u64 option) res" where
  "test_out shares = underlying_for_instant_withdraw shares 1000000 1000000 1000000 600000 0 test_tiers"

definition test_price :: "u64 \<Rightarrow> (unit, f64 option) res" where
  "test_price shares = instant_withdraw_price shares 1000000 1000000 1000000 600000 0 test_tiers"

fun prices_fall :: "f64 \<Rightarrow> u64 list \<Rightarrow> bool" where
  "prices_fall prev [] = True"
| "prices_fall prev (s # ss) =
     expected (test_price s) (\<lambda>p.
       f_lt (Finite 0) p \<and> f_le p (f_add prev (lit (1 / 10 ^ 9))) \<and> prices_fall p ss)"

definition chord_bracketed :: "u64 \<Rightarrow> u64 \<Rightarrow> bool" where
  "chord_bracketed a b =
     expected (test_out b) (\<lambda>out_b. expected (test_out a) (\<lambda>out_a.
     expected (test_price a) (\<lambda>pa. expected (test_price b) (\<lambda>pb.
       let chord = f_div (f_sub (f_of_u64 out_b) (f_of_u64 out_a)) (f_of_u64 (b - a));
           atol = f_div (lit 2) (f_of_u64 (b - a))
       in f_le chord (f_add pa atol) \<and> f_le (f_sub pb atol) chord))))"

definition test_samples :: "u64 list" where
  "test_samples = [10000, 50000, 150000, 250000, 350000, 450000, 520000]"

definition instant_withdraw_price_positive_non_increasing_and_brackets_chord :: bool where
  "instant_withdraw_price_positive_non_increasing_and_brackets_chord \<longleftrightarrow>
     expected (test_price 0) (\<lambda>spot. f_lt (Finite 0) spot \<and> f_le spot (lit 1)) \<and>
     prices_fall (Infinite False) test_samples \<and>
     list_all (\<lambda>(a, b). chord_bracketed a b) (zip test_samples (tl test_samples))"

section \<open>\<open>example/mod.rs\<close>\<close>

definition finite_difference_agrees :: "swap_direction \<Rightarrow> u64 \<Rightarrow> bool" where
  "finite_difference_agrees dir x =
     (let analytic = raydium_price sample_pool dir x;
          h = max (x div 1000) 1000
      in unwrapped (exact_in_of sample_pool dir (x + h)) (\<lambda>above.
         unwrapped (exact_in_of sample_pool dir (x - h)) (\<lambda>below.
           let fd = f_div (f_sub (f_of_u64 above) (f_of_u64 below)) (f_mul (lit 2) (f_of_u64 h));
               rel = f_div (f_abs (f_sub analytic fd)) (f_max (f_abs fd) (lit (1 / 10 ^ 9)))
           in f_lt rel (lit (1 / 10 ^ 2)))))"

definition price_matches_finite_difference :: bool where
  "price_matches_finite_difference =
     list_all (\<lambda>dir. list_all (finite_difference_agrees dir)
       [1000000, 50000000, 1000000000, 50000000000]) [Coin2PC, PC2Coin]"

fun pool_prices_fall :: "swap_direction \<Rightarrow> f64 \<Rightarrow> u64 list \<Rightarrow> bool" where
  "pool_prices_fall dir prev [] = True"
| "pool_prices_fall dir prev (x # xs) =
     (let p = raydium_price sample_pool dir x
      in f_lt (Finite 0) p \<and> f_le p prev \<and> pool_prices_fall dir p xs)"

definition price_is_positive_and_decreasing :: bool where
  "price_is_positive_and_decreasing =
     list_all (\<lambda>dir. pool_prices_fall dir (Infinite False)
       [0, 1000, 1000000, 1000000000, 100000000000]) [Coin2PC, PC2Coin]"

section \<open>The layouts and the legs\<close>

lemma layout_tests:
  assumes "hashes_ok X"
  shows "deposit_layout X" "instant_withdraw_layout X" "create_lender_accounts_layout X"
proof -
  have d: "\<exists>d. anchor_instruction_discriminator X name = (Ok d :: (unit, u8 list) res) \<and> length d = 8" for name
    using assms by (simp add: anchor_instruction_discriminator_def anchor_discriminator_def get_range_def hashes_ok_def
        DISCRIMINATOR_LEN_def)
  obtain d where d1: "anchor_instruction_discriminator X ''deposit'' = (Ok d :: (unit, u8 list) res)" "length d = 8"
    using d by blast
  then show "deposit_layout X"
    by (simp add: deposit_layout_def borsh_string_def borsh_bool_def NO_COMMITMENT_def byte_simps nth_append)
  obtain d where d2: "anchor_instruction_discriminator X ''instant_withdraw'' = (Ok d :: (unit, u8 list) res)" "length d = 8"
    using d by blast
  then show "instant_withdraw_layout X" by (simp add: instant_withdraw_layout_def byte_simps)
  obtain d where d3: "anchor_instruction_discriminator X ''create_lender_accounts_v2'' = (Ok d :: (unit, u8 list) res)" "length d = 8"
    using d by blast
  then show "create_lender_accounts_layout X" by (simp add: create_lender_accounts_layout_def)
qed

lemma route_tests:
  "protocol_maps_to_venue" "build_swap_leg_clears_titan_pda_signer_and_appends_program_id"
  "encodes_instruction_data_like_anchor" "venue_borsh_bytes_are_stable"
  by (simp_all add: protocol_maps_to_venue_def protocol_to_venue_def mock_trading_venue_def mock_venue_of_def
      build_swap_leg_clears_titan_pda_signer_and_appends_program_id_def build_swap_leg_def
      mock_generate_swap_instruction_def assemble_leg_accounts_def meta_new_def meta_readonly_def Let_def
      encodes_instruction_data_like_anchor_def encode_swap_route_v3_data_def swap_spec_bytes_def
      venue_borsh_bytes_are_stable_def borsh_bool_def)

section \<open>The Huma prices\<close>

lemma small_u64_exact: "n < 2 ^ 53 \<Longrightarrow> f_of_u64 (of_nat n) = Finite (of_nat n)"
  by (simp add: f_of_u64_def f_of_nat_def unat_of_nat_less round64_nat)

lemma one_over_powi: "round64 (1 / 2) = Finite (1 / 2)"
  using round64_powi [of "- 1"] by (simp add: power_int_minus)

lemma deposit_tests:
  "deposit_empty_pool_one_to_one" "deposit_proportional" "deposit_insolvent_returns_none"
  "deposit_rounds_to_zero_returns_none"
  by (simp_all add: deposit_empty_pool_one_to_one_def deposit_proportional_def deposit_insolvent_returns_none_def
      deposit_rounds_to_zero_returns_none_def deposit_shares_def scale_def Let_def)

lemma deposit_price_test: "deposit_price_is_constant_spot_rate"
proof -
  have "round64 1 = Finite 1" "round64 1000 = Finite 1000" "round64 2000 = Finite 2000"
    using round64_nat [of 1] round64_nat [of 1000] round64_nat [of 2000] by simp_all
  then show ?thesis
    by (simp add: deposit_price_is_constant_spot_rate_def deposit_price_def f_of_u64_def f_of_nat_def lit_def
        f_eq_def one_over_powi)
qed

lemma wf_test_fees: "wf_fees (instant_withdrawal_fee_configs (test_fee_config [(10000, 0)]))"
  "wf_fees (instant_withdrawal_fee_configs (test_fee_config [(5000, 100)]))"
  "wf_fees (instant_withdrawal_fee_configs test_tiers)"
  "fees_descend (instant_withdrawal_fee_configs test_tiers)"
  by (simp_all add: wf_fees_def fees_descend_def test_fee_config_def test_tiers_def)

lemma withdraw_tests:
  "withdraw_no_fee_proportional" "withdraw_zero_supply_returns_none" "withdraw_no_matching_tier_returns_none"
proof -
  have L: "liquid_assets 0 2000 2000 = 2000" "liquid_assets 0 1000 1000 = 1000"
    by (simp_all add: liquid_assets_def saturating_add_def)
  have w: "scale 500 2000 1000 = 1000" "scale 800 1000 1000 = 800" by (simp_all add: scale_def)
  have "compute_instant_withdrawal_fee (test_fee_config [(10000, 0)]) 2000 2000 1000 = (Ok (Some 0) :: (unit, u64 option) res)"
    using compute_fee_eq [OF wf_test_fees(1), of 2000 2000 1000]
    by (simp add: Let_def) (simp add: test_fee_config_def in_ratio_def progressive_fee_def part_fee_def ceil_div_def)
  then show "withdraw_no_fee_proportional"
    by (simp add: withdraw_no_fee_proportional_def underlying_scaled L w Let_def saturating_sub_def)
  have "compute_instant_withdrawal_fee (test_fee_config [(5000, 100)]) 1000 1000 800 = (Ok None :: (unit, u64 option) res)"
    using compute_fee_eq [OF wf_test_fees(2), of 1000 1000 800]
    by (simp add: Let_def) (simp add: test_fee_config_def in_ratio_def)
  then show "withdraw_no_matching_tier_returns_none"
    by (simp add: withdraw_no_matching_tier_returns_none_def underlying_scaled L w Let_def)
qed (simp add: withdraw_zero_supply_returns_none_def underlying_scaled)

text \<open>The bracket boundaries of the fixture lie at 200000 and 466666 atoms.\<close>

definition test_fee :: "nat \<Rightarrow> nat" where
  "test_fee w = ceil_div ((w - min w 466666) * 500) 10000 +
     ceil_div ((min w 466666 - min w 200000) * 200) 10000 + ceil_div (min w 200000 * 50) 10000"

lemma test_starts: "starts_in (instant_withdrawal_fee_configs test_tiers) 1000000 600000 2"
  by (simp add: starts_in_def wf_test_fees) (simp add: test_tiers_def test_fee_config_def in_ratio_def)

lemma test_progressive: "progressive_fee (instant_withdrawal_fee_configs test_tiers) 1000000 600000 2 w = test_fee w"
proof -
  have "{..2::nat} = {0, 1, 2}" by auto
  then show ?thesis
    by (simp add: progressive_fee_def part_fee_def bracket_part_def upper_cut_def lower_cut_def boundary_def
        test_tiers_def test_fee_config_def test_fee_def)
qed

lemma test_liquid: "liquid_assets 0 600000 1000000 = 600000"
  by (simp add: liquid_assets_def saturating_add_def)

lemma test_fee_below:
  assumes "i < 3"
  shows "fee_of (instant_withdrawal_fee_configs test_tiers ! i) < 10000"
proof -
  have "i = 0 \<or> i = 1 \<or> i = 2" using assms by auto
  then show ?thesis by (elim disjE) (simp_all add: test_tiers_def test_fee_config_def)
qed

lemma test_scale:
  assumes "w < 600000"
  shows "scale (of_nat w) 1000000 1000000 = of_nat w"
proof -
  have n: "unat (of_nat w :: u64) = w" using assms by (simp add: unat_of_nat_less)
  have "unat (scale (of_nat w) 1000000 1000000) = w"
    using unat_scale [of 1000000 "of_nat w" 1000000] assms by (simp only: n) simp
  with n show ?thesis by (simp only: word_unat_eq_iff)
qed

lemma test_out_eq:
  assumes w: "0 < w" "w < 600000" and e: "test_fee w < w"
  shows "test_out (of_nat w) = Ok (Some (of_nat (w - test_fee w)))"
proof -
  have n: "unat (of_nat w :: u64) = w" using w by (simp add: unat_of_nat_less)
  note s = test_scale [OF w(2)]
  obtain i where i: "ends_in (instant_withdrawal_fee_configs test_tiers) 1000000 600000 w i" "i \<le> 2"
    by (rule ends_before [OF test_starts, of w]) (use w in auto)
  then have "fee_of (instant_withdrawal_fee_configs test_tiers ! i) \<noteq> 10000" using test_fee_below [of i] by simp
  then have "compute_instant_withdrawal_fee test_tiers 1000000 600000 (of_nat w) =
      (Ok (Some (of_nat (test_fee w))) :: (unit, u64 option) res)"
    using i(1) w test_starts
    by (subst compute_fee_eq [OF wf_test_fees(3)])
      (simp_all add: Let_def n test_progressive starts_in_def ends_in_def word_le_nat_alt word_unat_eq_iff [of _ 0])
  moreover have "unat (of_nat (test_fee w) :: u64) = test_fee w" using e w by (simp add: unat_of_nat_less)
  ultimately show ?thesis using e
    by (simp add: test_out_def underlying_Some s test_liquid word_less_nat_alt n of_nat_diff)
qed

lemma test_price_eq:
  assumes w: "w < 600000"
    and e: "position (\<lambda>c. in_ratio (ratio_of c) (1000000 - w) (600000 - w)) (instant_withdrawal_fee_configs test_tiers) = Some e"
  shows "test_price (of_nat w) = Ok (Some (f_mul (f_div (f_of_u64 1000000) (f_of_u64 1000000))
    (keep_of (fee_bps (instant_withdrawal_fee_configs test_tiers ! e)))))"
proof -
  have n: "unat (of_nat w :: u64) = w" using w by (simp add: unat_of_nat_less)
  note s = test_scale [OF w]
  have en: "ends_in (instant_withdrawal_fee_configs test_tiers) 1000000 600000 w e"
    using e w by (simp add: ends_in_def)
  moreover have "e < 3" using e unfolding position_eq_Some by (simp add: test_tiers_def test_fee_config_def)
  then have "fee_of (instant_withdrawal_fee_configs test_tiers ! e) < 10000" by (rule test_fee_below)
  ultimately have "marginal_fee_bps test_tiers 1000000 600000 (of_nat w) =
      (Ok (Some (fee_bps (instant_withdrawal_fee_configs test_tiers ! e))) :: (unit, u16 option) res)"
    unfolding marginal_fee_Some by (simp add: n) blast
  then show ?thesis by (simp add: test_price_def instant_withdraw_price_eq s test_liquid)
qed

lemma test_out_values:
  "test_out 10000 = Ok (Some 9950)" "test_out 50000 = Ok (Some 49750)" "test_out 150000 = Ok (Some 149250)"
  "test_out 250000 = Ok (Some 248000)" "test_out 350000 = Ok (Some 346000)" "test_out 450000 = Ok (Some 444000)"
  "test_out 520000 = Ok (Some 510999)"
  using test_out_eq [of 10000] test_out_eq [of 50000] test_out_eq [of 150000] test_out_eq [of 250000]
    test_out_eq [of 350000] test_out_eq [of 450000] test_out_eq [of 520000]
  by (simp_all add: test_fee_def ceil_div_def)

text \<open>The price of the fixture at a fee.\<close>

definition test_rate :: "u16 \<Rightarrow> f64" where
  "test_rate fee = f_mul (f_div (f_of_u64 1000000) (f_of_u64 1000000)) (keep_of fee)"

lemma test_price_values:
  "test_price 0 = Ok (Some (test_rate 50))" "test_price 10000 = Ok (Some (test_rate 50))"
  "test_price 50000 = Ok (Some (test_rate 50))" "test_price 150000 = Ok (Some (test_rate 50))"
  "test_price 250000 = Ok (Some (test_rate 200))" "test_price 350000 = Ok (Some (test_rate 200))"
  "test_price 450000 = Ok (Some (test_rate 200))" "test_price 520000 = Ok (Some (test_rate 500))"
  using test_price_eq [of 0 2] test_price_eq [of 10000 2] test_price_eq [of 50000 2] test_price_eq [of 150000 2]
    test_price_eq [of 250000 1] test_price_eq [of 350000 1] test_price_eq [of 450000 1] test_price_eq [of 520000 0]
  by (simp_all add: test_tiers_def test_fee_config_def in_ratio_def test_rate_def)

lemma approx_test_rate:
  assumes "unat fee < 10000"
  shows "approx 20005 (1 - of_nat (unat fee) / 10000) (test_rate fee)"
  using approx_rate(1) [of 1000000 1000000 fee] assms by (simp add: exact_rate_def test_rate_def)

lemma test_rates:
  "approx 20005 (199 / 200) (test_rate 50)" "approx 20005 (49 / 50) (test_rate 200)" "approx 20005 (19 / 20) (test_rate 500)"
  using approx_test_rate [of 50] approx_test_rate [of 200] approx_test_rate [of 500] by simp_all

lemma small_mid_range: "1 / 2 ^ 64 \<le> x \<Longrightarrow> x \<le> 2 ^ 64 \<Longrightarrow> mid_range x"
  by (rule mid_range_between [of "- 64" _ 64]) (simp_all add: power_int_minus)

lemma not_above_previous:
  assumes "approx 20005 r p" "approx 20005 r' q" "r \<le> r'" "r' \<le> 1"
  shows "f_le p (f_add q (lit (1 / 10 ^ 9)))"
proof -
  have r: "0 \<le> r" "0 \<le> r'" using assms(1,2) by (auto simp: approx_def near_def)
  have "approx 1 (1 / 10 ^ 9) (lit (1 / 10 ^ 9))"
    unfolding lit_def by (intro approx_exact small_mid_range) simp_all
  then have "approx (Suc (max 20005 1)) (r' + 1 / 10 ^ 9) (f_add q (lit (1 / 10 ^ 9)))"
    using assms r by (intro approx_add small_mid_range) simp_all
  then show ?thesis
    by (rule approx_le [OF assms(1)]) (use assms r in \<open>simp_all add: roundoff_def\<close>)
qed

lemma price_sweep: "prices_fall (Infinite False) test_samples"
proof -
  have "f_le p (f_add (Infinite False) (lit (1 / 10 ^ 9)))" if "approx 20005 r p" for r p
  proof -
    obtain y where "lit (1 / 10 ^ 9) = Finite y"
      unfolding lit_def by (rule approxE [OF approx_exact, of "1 / 10 ^ 9"]) (simp_all add: small_mid_range)
    then show ?thesis using that by (auto simp: approx_def)
  qed
  note first = this [OF test_rates(1)]
  note pos = test_rates [THEN approx_pos, simplified]
  note next_price = not_above_previous [OF test_rates(1) test_rates(1), simplified]
    not_above_previous [OF test_rates(2) test_rates(1), simplified] not_above_previous [OF test_rates(2) test_rates(2), simplified]
    not_above_previous [OF test_rates(3) test_rates(2), simplified]
  show ?thesis unfolding test_samples_def using first pos next_price by (simp add: test_price_values)
qed

lemma f_div_Finite: "y \<noteq> 0 \<Longrightarrow> f_div (Finite x) (Finite y) = round64 (x / y)"
  by simp

lemma chord_compare:
  fixes n g ra rb :: rat
  assumes approx: "approx 20005 ra pa" "approx 20005 rb pb" "ra \<le> 1" "1 / 2 \<le> rb" "rb \<le> 1"
    and n: "1000 \<le> n" "n \<le> 10 ^ 6" and g: "g \<le> ra * n + 1" "rb * n - 1 \<le> g"
  shows "f_le (f_div (Finite g) (Finite n)) (f_add pa (f_div (lit 2) (Finite n)))"
    and "f_le (f_sub pb (f_div (lit 2) (Finite n))) (f_div (Finite g) (Finite n))"
proof -
  have ra: "0 \<le> ra" using approx(1) by (auto simp: approx_def near_def)
  have "1 / 2 * 1000 \<le> rb * n" "ra * n \<le> 1 * 10 ^ 6" using approx n ra by (intro mult_mono; simp)+
  then have g': "499 \<le> g" "g \<le> 10 ^ 6 + 1" using g by linarith+
  then have "1 / 2 ^ 20 \<le> g / n" "g / n \<le> 2 ^ 20 / 1" using n by (intro frac_le; simp)+
  moreover have "0 \<le> g / n" using g' n by simp
  ultimately have "approx 1 (g / n) (round64 (g / n))"
    by (intro approx_exact mid_range_between [of "- 20" _ 20]) (simp_all add: power_int_minus)
  then have c: "approx 1 (g / n) (f_div (Finite g) (Finite n))" using n by (subst f_div_Finite) auto
  have t0: "2 / 10 ^ 6 \<le> 2 / n" "2 / n \<le> 2 / 1000" using n by (intro frac_le; simp)+
  have "lit 2 = Finite 2" using round64_nat [of 2] by (simp add: lit_def)
  moreover have "0 \<le> n" using n by simp
  then have "approx 1 (2 / n) (round64 (2 / n))"
    using t0 by (intro approx_exact mid_range_between [of "- 20" _ 20]) (simp_all add: power_int_minus)
  ultimately have t: "approx 1 (2 / n) (f_div (lit 2) (Finite n))" using n by simp
  have "g / n \<le> (ra * n + 1) / n" "(rb * n - 1) / n \<le> g / n" using g n by (intro divide_right_mono; simp)+
  then have gn: "g / n \<le> ra + 1 / n" "rb - 1 / n \<le> g / n"
    using n by (simp_all add: add_divide_distrib diff_divide_distrib)
  have "approx (Suc (max 20005 1)) (ra + 2 / n) (f_add pa (f_div (lit 2) (Finite n)))"
    using ra approx(3) t0 by (intro approx_add approx t mid_range_between [of "- 20" _ 20]) (simp_all add: power_int_minus)
  then show "f_le (f_div (Finite g) (Finite n)) (f_add pa (f_div (lit 2) (Finite n)))"
    by (rule approx_le [OF c]) (use gn(1) t0 ra approx(3) in \<open>simp_all add: roundoff_def\<close>)
  show "f_le (f_sub pb (f_div (lit 2) (Finite n))) (f_div (Finite g) (Finite n))"
    by (rule approx_sub_le [OF approx(2) _ t _ c, of "rb - 3 / 2 / n"])
      (use gn(2) t0 approx(4,5) in \<open>simp_all add: roundoff_def small_mid_range\<close>)
qed

lemma chord_test:
  assumes out: "test_out (of_nat a) = Ok (Some (of_nat oa))" "test_out (of_nat b) = Ok (Some (of_nat ob))"
    and price: "test_price (of_nat a) = Ok (Some pa)" "test_price (of_nat b) = Ok (Some pb)"
    and approx: "approx 20005 ra pa" "approx 20005 rb pb" "ra \<le> 1" "1 / 2 \<le> rb" "rb \<le> 1"
    and order: "a + 1000 \<le> b" "b - a \<le> 10 ^ 6" "oa \<le> ob" "b < 2 ^ 53" "ob < 2 ^ 53"
    and chord: "of_nat (ob - oa) \<le> ra * of_nat (b - a) + (1 :: rat)" "rb * of_nat (b - a) - 1 \<le> (of_nat (ob - oa) :: rat)"
  shows "chord_bracketed (of_nat a) (of_nat b)"
proof -
  have "rat_of_nat 1000 \<le> of_nat (b - a)" "rat_of_nat (b - a) \<le> of_nat (10 ^ 6)"
    using order(1,2) by (simp_all only: of_nat_le_iff)
  then have n: "1000 \<le> rat_of_nat (b - a)" "rat_of_nat (b - a) \<le> 10 ^ 6" by simp_all
  have len: "f_of_u64 (of_nat b - of_nat a) = Finite (of_nat (b - a))"
    using small_u64_exact [of "b - a"] order by (simp add: of_nat_diff)
  have gain: "f_sub (f_of_u64 (of_nat ob)) (f_of_u64 (of_nat oa)) = Finite (of_nat (ob - oa))"
    using small_u64_exact [of oa] small_u64_exact [of ob] round64_nat [of "ob - oa"] order
    by (simp add: f_sub_def of_nat_diff)
  show ?thesis
    using chord_compare [OF approx n chord] by (simp only: chord_bracketed_def out price len gain expected.simps Let_def)
qed

lemma fixture_chords:
  "chord_bracketed 10000 50000" "chord_bracketed 50000 150000" "chord_bracketed 150000 250000"
  "chord_bracketed 250000 350000" "chord_bracketed 350000 450000" "chord_bracketed 450000 520000"
  using chord_test [OF _ _ _ _ test_rates(1) test_rates(1), of 10000 9950 50000 49750]
    chord_test [OF _ _ _ _ test_rates(1) test_rates(1), of 50000 49750 150000 149250]
    chord_test [OF _ _ _ _ test_rates(1) test_rates(2), of 150000 149250 250000 248000]
    chord_test [OF _ _ _ _ test_rates(2) test_rates(2), of 250000 248000 350000 346000]
    chord_test [OF _ _ _ _ test_rates(2) test_rates(2), of 350000 346000 450000 444000]
    chord_test [OF _ _ _ _ test_rates(2) test_rates(3), of 450000 444000 520000 510999]
  by (simp_all add: test_out_values test_price_values)

lemma price_test: "instant_withdraw_price_positive_non_increasing_and_brackets_chord"
proof -
  have "approx 1 1 (lit 1)" unfolding lit_def by (intro approx_exact small_mid_range) simp_all
  then have "f_le (test_rate 50) (lit 1)"
    by (rule approx_le [OF test_rates(1)]) (simp_all add: roundoff_def)
  then show ?thesis
    using price_sweep approx_pos [OF test_rates(1)]
    by (simp add: instant_withdraw_price_positive_non_increasing_and_brackets_chord_def test_price_values)
      (simp add: test_samples_def fixture_chords)
qed

section \<open>The Raydium prices\<close>

lemma sample_priced: "priced_pool sample_pool"
  by (simp add: priced_pool_def sample_pool_def)

lemma pool_prices_fall_from:
  assumes "sorted (a # xs)"
  shows "pool_prices_fall dir (raydium_price sample_pool dir a) xs"
  using assms
proof (induction xs arbitrary: a)
  case (Cons x xs)
  have "a \<le> x" using Cons.prems by simp
  with Cons show ?case
    using raydium_price_shape [OF sample_priced, of a x dir] by (auto simp: Let_def)
qed simp

lemma falling_test: "price_is_positive_and_decreasing"
proof -
  have "pool_prices_fall dir (Infinite False) (0 # xs)" if "sorted (0 # xs)" for dir xs
    using raydium_price_shape [OF sample_priced, of 0 0 dir] pool_prices_fall_from [OF that] by (auto simp: Let_def)
  then show ?thesis by (simp add: price_is_positive_and_decreasing_def del: pool_prices_fall.simps)
qed

lemma f_abs_round64: "f_abs (round64 x) = round64 \<bar>x\<bar>"
proof (cases "0 \<le> x")
  case True
  then show ?thesis using round64_nonneg [of x] by (cases "round64 x") auto
next
  case False
  then have "f_le (Finite 0) (round64 (- x))" by (intro round64_nonneg) simp
  with False show ?thesis by (cases "round64 x") (auto simp: round64_neg)
qed

lemma f_le_lt_trans: "f_le x y \<Longrightarrow> f_lt y z \<Longrightarrow> f_lt x z"
  by (meson f_le_trans f_lt_def)

text \<open>A price and a difference quotient that are close as exact numbers pass the test.\<close>

lemma quotient_small:
  assumes y: "approx 27 M fa" and z: "approx 1 D fd" and D: "1 / 2 ^ 60 \<le> D" "D \<le> 2 ^ 60"
    and close: "\<bar>M - D\<bar> \<le> D / 150"
  shows "f_lt (f_div (f_abs (f_sub fa fd)) (f_max (f_abs fd) (lit (1 / 10 ^ 9)))) (lit (1 / 10 ^ 2))"
proof -
  obtain y z where v: "fa = Finite y" "near 27 M y" "fd = Finite z" "near 1 D z"
    using y z by (auto simp: approx_def)
  obtain l where l: "lit (1 / 10 ^ 9) = Finite l"
    unfolding lit_def by (rule approxE [OF approx_exact, of "1 / 10 ^ 9"]) (simp_all add: small_mid_range)
  have D0: "0 < D" using D(1) by (rule less_le_trans [rotated]) simp
  have z0: "0 < z" by (rule near_pos [OF v(4) D0])
  have M: "M \<le> D * (151 / 150)" using close unfolding abs_le_iff by simp
  have "\<bar>y - M\<bar> \<le> M * (1 / 1000000)" "\<bar>z - D\<bar> \<le> D * (1 / 1000000)"
  proof -
    have "M * (2 * of_nat 27 * roundoff) \<le> M * (1 / 1000000)"
      using v(2) by (intro mult_left_mono) (simp_all add: near_def roundoff_def)
    then show "\<bar>y - M\<bar> \<le> M * (1 / 1000000)" using near_abs [OF v(2)] by simp
    have "D * (2 * of_nat 1 * roundoff) \<le> D * (1 / 1000000)"
      using D0 by (intro mult_left_mono) (simp_all add: roundoff_def)
    then show "\<bar>z - D\<bar> \<le> D * (1 / 1000000)" using near_abs [OF v(4)] by simp
  qed
  then have gaps: "y - M \<le> M / 1000000" "M - y \<le> M / 1000000" "z - D \<le> D / 1000000" "D - z \<le> D / 1000000"
    "M - D \<le> D / 150" "D - M \<le> D / 150"
    using close unfolding abs_le_iff by simp_all
  have zD: "D / 2 \<le> z" "z \<le> 2 * D" using gaps(3,4) D0 by linarith+
  have "y - z \<le> z / 130" "z - y \<le> z / 130" using gaps M D0 by linarith+
  then have yz: "\<bar>y - z\<bar> \<le> z / 130" by (intro abs_leI) simp_all
  have "mid_range (z / 130)"
    using zD D by (intro mid_range_between [of "- 70" _ 70]) (simp_all add: power_int_minus)
  then obtain b where b: "round64 (z / 130) = Finite b" "near 1 (z / 130) b"
    using z0 by (elim approxE [OF approx_exact, rotated 2]) simp_all
  have "b \<le> z / 130 * (1 + 2 * of_nat 1 * roundoff)" by (rule near_bounds(2) [OF b(2)]) simp
  also have "\<dots> \<le> z / 130 * (130 / 120)" using z0 by (intro mult_left_mono) (simp_all add: roundoff_def)
  finally have b': "b \<le> z / 120" by simp
  have abs: "f_abs (f_sub fa fd) = round64 \<bar>y - z\<bar>" by (simp add: f_sub_def v f_abs_round64)
  obtain n where n: "round64 \<bar>y - z\<bar> = Finite n" "n \<le> b"
    using round64_mono [OF yz] round64_nonneg [of "\<bar>y - z\<bar>"] b(1) by (cases "round64 \<bar>y - z\<bar>") auto
  have d: "f_max (f_abs fd) (lit (1 / 10 ^ 9)) = Finite (max z l)"
    using z0 by (simp add: f_max_def v l [simplified] max_def)
  have "n / max z l \<le> (z / 120) / max z l" using n(2) b' z0 by (intro divide_right_mono) auto
  also have "\<dots> \<le> (z / 120) / z" using z0 by (intro divide_left_mono) auto
  finally have "n / max z l \<le> 1 / 120" using z0 by simp
  then have "f_le (round64 (n / max z l)) (round64 (1 / 120))" by (rule round64_mono)
  moreover have "max z l \<noteq> 0" using z0 by simp
  ultimately have "f_le (f_div (f_abs (f_sub fa fd)) (f_max (f_abs fd) (lit (1 / 10 ^ 9)))) (round64 (1 / 120))"
    unfolding abs n(1) d by (metis f_div_Finite)
  moreover have "f_lt (round64 (1 / 120)) (lit (1 / 10 ^ 2))"
    unfolding lit_def
    by (rule approx_less [OF approx_exact approx_exact]) (simp_all add: small_mid_range roundoff_def)
  ultimately show ?thesis by (rule f_le_lt_trans)
qed

lemma finite_difference_test:
  assumes out: "exact_in_of sample_pool dir (of_nat (x + h)) = Ok (of_nat hi)"
    "exact_in_of sample_pool dir (of_nat (x - h)) = Ok (of_nat lo)"
    and h: "h = max (x div 1000) 1000" "h \<le> x" "x \<le> 10 ^ 12"
    and order: "lo < hi" "hi < 2 ^ 53"
    and close: "\<bar>marginal_of sample_pool dir (of_nat x) - of_nat (hi - lo) / (2 * of_nat h)\<bar>
      \<le> of_nat (hi - lo) / (2 * of_nat h) / (150 :: rat)"
  shows "finite_difference_agrees dir (of_nat x)"
proof -
  let ?g = "rat_of_nat (hi - lo)" and ?h = "rat_of_nat h"
  have "1 \<le> hi - lo" "hi - lo \<le> 2 ^ 53" using order by auto
  then have "rat_of_nat 1 \<le> ?g" "?g \<le> of_nat (2 ^ 53)" by (simp_all only: of_nat_le_iff)
  then have g: "1 \<le> ?g" "?g \<le> 2 ^ 53" by simp_all
  have "1000 \<le> h" "h \<le> 10 ^ 12" using h by auto
  then have "rat_of_nat 1000 \<le> ?h" "?h \<le> of_nat (10 ^ 12)" by (simp_all only: of_nat_le_iff)
  then have hh: "1000 \<le> ?h" "?h \<le> 10 ^ 12" by simp_all
  have step: "max ((of_nat x :: u64) div 1000) 1000 = of_nat h"
  proof -
    have "x < 2 ^ 64" using h(3) by simp
    then have "unat ((of_nat x :: u64) div 1000) = x div 1000" by (simp add: unat_div unat_of_nat_less)
    then have "(of_nat x :: u64) div 1000 = of_nat (x div 1000)" by (metis of_nat_unat ucast_id)
    moreover have "unat (of_nat (x div 1000) :: u64) = x div 1000" using h(3) by (intro unat_of_nat_less) simp
    ultimately show ?thesis by (auto simp: h(1) max_def word_le_nat_alt)
  qed
  have "f_sub (f_of_u64 (of_nat hi)) (f_of_u64 (of_nat lo)) = Finite ?g"
    using small_u64_exact [of hi] small_u64_exact [of lo] round64_nat [of "hi - lo"] order
    by (simp add: f_sub_def of_nat_diff)
  moreover have "f_mul (lit 2) (f_of_u64 (of_nat h)) = Finite (2 * ?h)"
    using small_u64_exact [of h] round64_nat [of 2] round64_nat [of "2 * h"] \<open>h \<le> 10 ^ 12\<close> by (simp add: lit_def)
  ultimately have fd: "f_div (f_sub (f_of_u64 (of_nat hi)) (f_of_u64 (of_nat lo))) (f_mul (lit 2) (f_of_u64 (of_nat h)))
      = round64 (?g / (2 * ?h))" using hh by (metis f_div_Finite mult_eq_0_iff not_numeral_le_zero of_nat_0 zero_neq_numeral)
  define D where "D = ?g / (2 * ?h)"
  have "1 / (2 * 10 ^ 12) \<le> D" "D \<le> 2 ^ 53 / 2000"
    unfolding D_def using g hh by (intro frac_le; simp)+
  then have D: "1 / 2 ^ 60 \<le> D" "D \<le> 2 ^ 60" "0 \<le> D"
    using order_trans [of "1 / 2 ^ 60" "1 / (2 * 10 ^ 12)" D] order_trans [of D "2 ^ 53 / 2000" "2 ^ 60"]
      order_trans [of 0 "1 / (2 * 10 ^ 12)" D] by simp_all
  have "approx 1 D (round64 D)"
    using D by (intro approx_exact mid_range_between [of "- 60" _ 60]) (simp_all add: power_int_minus)
  then have "f_lt (f_div (f_abs (f_sub (raydium_price sample_pool dir (of_nat x)) (round64 D)))
      (f_max (f_abs (round64 D)) (lit (1 / 10 ^ 9)))) (lit (1 / 10 ^ 2))"
    by (rule quotient_small [OF approx_raydium_price [OF sample_priced] _ D(1,2) close [folded D_def]])
  moreover have "(of_nat x - of_nat h :: u64) = of_nat (x - h)" using h(2) by (simp add: of_nat_diff)
  ultimately show ?thesis
    using out by (simp add: finite_difference_agrees_def step fd D_def Let_def del: of_nat_diff)
qed

lemma sample_outputs:
  "exact_in_of sample_pool Coin2PC 1001000 = Ok 166416" "exact_in_of sample_pool Coin2PC 999000 = Ok 166083"
  "exact_in_of sample_pool Coin2PC 50050000 = Ok 8320798" "exact_in_of sample_pool Coin2PC 49950000 = Ok 8304173"
  "exact_in_of sample_pool Coin2PC 1001000000 = Ok 166410711" "exact_in_of sample_pool Coin2PC 999000000 = Ok 166078233"
  "exact_in_of sample_pool Coin2PC 50050000000 = Ok 8306988321" "exact_in_of sample_pool Coin2PC 49950000000 = Ok 8290418462"
  "exact_in_of sample_pool PC2Coin 1001000 = Ok 5990980" "exact_in_of sample_pool PC2Coin 999000 = Ok 5979010"
  "exact_in_of sample_pool PC2Coin 50050000 = Ok 299546259" "exact_in_of sample_pool PC2Coin 49950000 = Ok 298947770"
  "exact_in_of sample_pool PC2Coin 1001000000 = Ok 5989788842" "exact_in_of sample_pool PC2Coin 999000000 = Ok 5977823616"
  "exact_in_of sample_pool PC2Coin 50050000000 = Ok 296587827952" "exact_in_of sample_pool PC2Coin 49950000000 = Ok 296001091720"
  by (simp_all add: exact_in_eq exact_in_spec_def net_in_def curve_out_def ceil_div_def sample_pool_def)

text \<open>The exact price of the fixture as a quotient of integers, and the comparison in integers.\<close>

lemma marginal_quotient:
  assumes "0 < X"
  shows "exact_marginal (of_nat X) (of_nat Y) (399 / 400) (of_nat x) =
    of_nat (159600 * X * Y) / of_nat ((400 * X + 399 * x) * (400 * X + 399 * x))"
proof -
  let ?X = "rat_of_nat X" and ?x = "rat_of_nat x" and ?Y = "rat_of_nat Y"
  have "?X + 399 / 400 * ?x = (400 * ?X + 399 * ?x) / 400" by simp
  then have "exact_marginal ?X ?Y (399 / 400) ?x = ?Y * (399 / 400) * ?X / ((400 * ?X + 399 * ?x) / 400 * ((400 * ?X + 399 * ?x) / 400))"
    by (simp only: exact_marginal_def)
  then show ?thesis by simp
qed

lemma close_quotients:
  assumes "0 < h" "0 < Q" "149 * g * Q \<le> 300 * h * N" "300 * h * N \<le> 151 * g * (Q :: nat)"
  shows "\<bar>of_nat N / of_nat Q - of_nat g / (2 * of_nat h)\<bar> \<le> of_nat g / (2 * of_nat h) / (150 :: rat)"
proof -
  let ?h = "rat_of_nat h" and ?Q = "rat_of_nat Q" and ?g = "rat_of_nat g" and ?N = "rat_of_nat N"
  have pos: "0 < ?h" "0 < ?Q" using assms by simp_all
  have "rat_of_nat (149 * g * Q) \<le> of_nat (300 * h * N)" "rat_of_nat (300 * h * N) \<le> of_nat (151 * g * Q)"
    using assms(3,4) by (simp_all only: of_nat_le_iff)
  then have "149 * ?g / (300 * ?h) \<le> ?N / ?Q" "?N / ?Q \<le> 151 * ?g / (300 * ?h)"
    using pos by (simp_all add: frac_le_eq divide_simps mult_ac)
  moreover have "149 * ?g / (300 * ?h) = ?g / (2 * ?h) - ?g / (2 * ?h) / 150"
    "151 * ?g / (300 * ?h) = ?g / (2 * ?h) + ?g / (2 * ?h) / 150"
    using pos by (simp_all add: divide_simps)
  ultimately have "?g / (2 * ?h) - ?g / (2 * ?h) / 150 \<le> ?N / ?Q" "?N / ?Q \<le> ?g / (2 * ?h) + ?g / (2 * ?h) / 150"
    by metis+
  then show ?thesis unfolding abs_le_iff minus_diff_eq diff_le_eq by (simp only: add.commute conj_commute)
qed

lemma sample_difference:
  assumes "exact_in_of sample_pool dir (of_nat (x + h)) = Ok (of_nat hi)"
    "exact_in_of sample_pool dir (of_nat (x - h)) = Ok (of_nat lo)"
    and "h = max (x div 1000) 1000" "h \<le> x" "x \<le> 10 ^ 12" "lo < hi" "hi < 2 ^ 53"
    and reserves: "in_reserve_of sample_pool dir = X" "out_reserve_of sample_pool dir = Y" "0 < X"
    and close: "149 * (hi - lo) * ((400 * X + 399 * x) * (400 * X + 399 * x)) \<le> 300 * h * (159600 * X * Y)"
      "300 * h * (159600 * X * Y) \<le> 151 * (hi - lo) * ((400 * X + 399 * x) * (400 * X + 399 * x))"
  shows "finite_difference_agrees dir (of_nat x)"
proof (rule finite_difference_test [OF assms(1-7)])
  have k: "kept_fraction sample_pool = 399 / 400" by (simp add: kept_fraction_def sample_pool_def)
  have x: "unat (of_nat x :: u64) = x" using assms(5) by (intro unat_of_nat_less) simp
  have "0 < h" using assms(3) by simp
  moreover have "0 < (400 * X + 399 * x) * (400 * X + 399 * x)" using reserves(3) by simp
  ultimately show "\<bar>marginal_of sample_pool dir (of_nat x) - of_nat (hi - lo) / (2 * of_nat h)\<bar>
      \<le> of_nat (hi - lo) / (2 * of_nat h) / (150 :: rat)"
    unfolding k x reserves(1,2) marginal_quotient [OF reserves(3)] using close by (rule close_quotients)
qed

lemma sample_reserves:
  "in_reserve_of sample_pool Coin2PC = 30000000000000" "out_reserve_of sample_pool Coin2PC = 5000000000000"
  "in_reserve_of sample_pool PC2Coin = 5000000000000" "out_reserve_of sample_pool PC2Coin = 30000000000000"
  by (simp_all add: sample_pool_def)

lemma difference_Coin2PC_1M: "finite_difference_agrees Coin2PC 1000000"
proof -
  have "finite_difference_agrees Coin2PC (of_nat 1000000)"
    by (rule sample_difference [OF _ _ _ _ _ _ _ sample_reserves(1,2), of 1000000 1000 166416 166083])
      (simp_all add: sample_outputs)
  then show ?thesis by simp
qed

lemma difference_Coin2PC_50M: "finite_difference_agrees Coin2PC 50000000"
proof -
  have "finite_difference_agrees Coin2PC (of_nat 50000000)"
    by (rule sample_difference [OF _ _ _ _ _ _ _ sample_reserves(1,2), of 50000000 50000 8320798 8304173])
      (simp_all add: sample_outputs)
  then show ?thesis by simp
qed

lemma difference_Coin2PC_1G: "finite_difference_agrees Coin2PC 1000000000"
proof -
  have "finite_difference_agrees Coin2PC (of_nat 1000000000)"
    by (rule sample_difference [OF _ _ _ _ _ _ _ sample_reserves(1,2), of 1000000000 1000000 166410711 166078233])
      (simp_all add: sample_outputs)
  then show ?thesis by simp
qed

lemma difference_Coin2PC_50G: "finite_difference_agrees Coin2PC 50000000000"
proof -
  have "finite_difference_agrees Coin2PC (of_nat 50000000000)"
    by (rule sample_difference [OF _ _ _ _ _ _ _ sample_reserves(1,2), of 50000000000 50000000 8306988321 8290418462])
      (simp_all add: sample_outputs)
  then show ?thesis by simp
qed

lemma difference_PC2Coin_1M: "finite_difference_agrees PC2Coin 1000000"
proof -
  have "finite_difference_agrees PC2Coin (of_nat 1000000)"
    by (rule sample_difference [OF _ _ _ _ _ _ _ sample_reserves(3,4), of 1000000 1000 5990980 5979010])
      (simp_all add: sample_outputs)
  then show ?thesis by simp
qed

lemma difference_PC2Coin_50M: "finite_difference_agrees PC2Coin 50000000"
proof -
  have "finite_difference_agrees PC2Coin (of_nat 50000000)"
    by (rule sample_difference [OF _ _ _ _ _ _ _ sample_reserves(3,4), of 50000000 50000 299546259 298947770])
      (simp_all add: sample_outputs)
  then show ?thesis by simp
qed

lemma difference_PC2Coin_1G: "finite_difference_agrees PC2Coin 1000000000"
proof -
  have "finite_difference_agrees PC2Coin (of_nat 1000000000)"
    by (rule sample_difference [OF _ _ _ _ _ _ _ sample_reserves(3,4), of 1000000000 1000000 5989788842 5977823616])
      (simp_all add: sample_outputs)
  then show ?thesis by simp
qed

lemma difference_PC2Coin_50G: "finite_difference_agrees PC2Coin 50000000000"
proof -
  have "finite_difference_agrees PC2Coin (of_nat 50000000000)"
    by (rule sample_difference [OF _ _ _ _ _ _ _ sample_reserves(3,4), of 50000000000 50000000 296587827952 296001091720])
      (simp_all add: sample_outputs)
  then show ?thesis by simp
qed

lemmas difference_cases =
  difference_Coin2PC_1M difference_Coin2PC_50M difference_Coin2PC_1G difference_Coin2PC_50G
  difference_PC2Coin_1M difference_PC2Coin_50M difference_PC2Coin_1G difference_PC2Coin_50G

section \<open>The test suite\<close>

definition unit_tests :: "'x ext_scheme \<Rightarrow> bool list" where
  "unit_tests X =
     [price_matches_finite_difference, price_is_positive_and_decreasing,
      deposit_layout X, instant_withdraw_layout X, create_lender_accounts_layout X,
      deposit_empty_pool_one_to_one, deposit_proportional, deposit_insolvent_returns_none,
      deposit_rounds_to_zero_returns_none, withdraw_no_fee_proportional,
      withdraw_zero_supply_returns_none, withdraw_no_matching_tier_returns_none,
      deposit_price_is_constant_spot_rate,
      instant_withdraw_price_positive_non_increasing_and_brackets_chord,
      protocol_maps_to_venue, build_swap_leg_clears_titan_pda_signer_and_appends_program_id,
      encodes_instruction_data_like_anchor, venue_borsh_bytes_are_stable]"

text \<open>
  The tests pass on the model, for any hash function with at least eight bytes of output: the
  two price tests of \<open>example/mod.rs\<close> and the one of \<open>huma/math.rs\<close> with every floating-point
  rounding, the instruction layouts, the deposits and withdrawals, and the wire format of the
  route builder. This says nothing beyond the inputs of the tests: it checks the model against
  its authors' expectations, the general facts are the properties of the components.
\<close>

lemma unit_tests_pass:
  assumes "hashes_ok X"
  shows "list_all (\<lambda>passes. passes) (unit_tests X)"
  using layout_tests [OF assms] difference_cases
  by (simp add: unit_tests_def route_tests deposit_tests withdraw_tests deposit_price_test price_test falling_test
      price_matches_finite_difference_def)

lemma unit_tests_pass_sample: "list_all (\<lambda>passes. passes) (unit_tests sample_huma)"
  by (rule unit_tests_pass) (simp add: hashes_ok_def sample_huma_def)

end
