(* ===== verification/Huma_Pricing.thy ===== *)
theory Huma_Pricing
  imports Huma_Quotes Huma_Price Pricing
begin

text \<open>
  The Huma venue meets the pricing requirements of the trait: both directions of
  \<open>src/huma/venue.rs\<close> as an instance of \<open>priced_quoter\<close>.
\<close>

section \<open>Deposits\<close>

lemma deposit_price_error:
  assumes "mode_assets \<noteq> 0" "mode_supply \<noteq> 0"
  obtains p where "deposit_price mode_assets mode_supply = Finite p" "0 < p"
    "p * (1 - 1 / 2 ^ 36) \<le> of_nat (unat mode_supply) / of_nat (unat mode_assets)"
    "of_nat (unat mode_supply) / of_nat (unat mode_assets) \<le> p * (1 + 1 / 2 ^ 36)"
proof -
  let ?q = "rat_of_nat (unat mode_supply) / of_nat (unat mode_assets)"
  note a = u64_between [OF assms(1)] and s = u64_between [OF assms(2)]
  have a0: "0 < rat_of_nat (unat mode_assets)" using a(1) by linarith
  have q: "1 / 2 ^ 64 \<le> ?q" "?q \<le> 2 ^ 64 / 1" using a s a0 by (intro frac_le; simp del: of_nat_unat)+
  have q0: "0 < ?q" using q(1) by (rule less_le_trans [rotated]) simp
  have "approx (Suc (1 + 1)) ?q (f_div (f_of_u64 mode_supply) (f_of_u64 mode_assets))"
    using q by (intro approx_div approx_u64 a0 mid_range_between [of "- 64" _ 64]) (simp_all add: power_int_minus del: of_nat_unat)
  then obtain p where p: "f_div (f_of_u64 mode_supply) (f_of_u64 mode_assets) = Finite p" "near 3 ?q p"
    by (auto elim: approxE simp: numeral_3_eq_3)
  have "\<bar>p - ?q\<bar> \<le> ?q * (2 * of_nat 3 * roundoff)" by (rule near_abs [OF p(2)]) simp
  also have "\<dots> \<le> ?q * (1 / 2 ^ 37)" using q0 by (intro mult_left_mono) (simp_all add: roundoff_def)
  finally have "p * (1 - 2 * (1 / 2 ^ 37)) \<le> ?q" "?q \<le> p * (1 + 2 * (1 / 2 ^ 37))"
    using relative_error_swap [of p ?q "1 / 2 ^ 37"] q0 by simp_all
  then show thesis using p(1) near_pos [OF p(2) q0] assms(2) by (intro that) (simp_all add: deposit_price_def)
qed

text \<open>Outputs within one atom of an exact rate, quoted at a price near the rate.\<close>

lemma rate_chord:
  assumes "x \<le> y" "p * (1 - tol) \<le> q" "q \<le> p * (1 + tol)" "1 \<le> sl"
    and "q * gap x y - 1 \<le> gap n m" "gap n m \<le> q * gap x y + 1"
  shows "chord_between tol sl x y n m p p"
proof -
  have "p * (1 - tol) * gap x y \<le> q * gap x y" "q * gap x y \<le> p * (1 + tol) * gap x y"
    using assms(2,3) gap_nonneg [OF assms(1)] by (intro mult_right_mono; simp)+
  then show ?thesis unfolding chord_between_def using assms(4,5,6) by (intro conjI) linarith+
qed

text \<open>The shares of two deposits differ by the rate times the difference, up to one share.\<close>

lemma deposits_chord:
  assumes xy: "x \<le> y" and fit: "unat y * unat mode_supply div unat mode_assets < 2 ^ 64"
    and n: "deposit_shares x mode_assets mode_supply = Some n"
    and m: "deposit_shares y mode_assets mode_supply = Some m"
    and sl: "1 \<le> sl"
  obtains p where "deposit_price mode_assets mode_supply = Finite p" "0 < p" "n \<le> m"
    "chord_between (1 / 2 ^ 36) sl x y n m p p"
proof (cases "mode_supply = 0")
  case True
  have "chord_between (1 / 2 ^ 36) sl x y x y 1 1"
    by (rule rate_chord [OF xy, of _ _ 1]) (use sl in simp_all)
  then show thesis using True n m xy
    by (intro that [of 1]) (simp_all add: deposit_shares_def deposit_price_def f_of_nat_1 del: One_nat_def)
next
  case False
  then have a: "mode_assets \<noteq> 0" and eq: "n = scale x mode_supply mode_assets" "m = scale y mode_supply mode_assets"
    using n m by (auto simp: deposit_shares_def Let_def split: if_splits)
  let ?q = "rat_of_nat (unat mode_supply) / of_nat (unat mode_assets)"
  have "unat x * unat mode_supply div unat mode_assets \<le> unat y * unat mode_supply div unat mode_assets"
    using xy by (intro div_le_mono mult_le_mono1) (simp add: word_le_nat_alt)
  note fit' = order_le_less_trans [OF this fit]
  obtain m' where "deposit_shares y mode_assets mode_supply = Some m'" "n \<le> m'"
    by (rule shares_for_deposit_mono [OF xy fit n])
  then have nm: "n \<le> m" using m by simp
  obtain p where p: "deposit_price mode_assets mode_supply = Finite p" "0 < p"
    "p * (1 - 1 / 2 ^ 36) \<le> ?q" "?q \<le> p * (1 + 1 / 2 ^ 36)"
    by (rule deposit_price_error [OF a False])
  have "?q * gap x y - 1 \<le> gap n m" "gap n m \<le> ?q * gap x y + 1"
    unfolding eq right_diff_distrib
    using scale_rat [OF a fit'] scale_rat [OF a fit] by (simp_all only: mult.commute [of ?q]; linarith)+
  then have "chord_between (1 / 2 ^ 36) sl x y n m p p"
    by (rule rate_chord [OF xy p(3,4) sl])
  then show thesis using p(1,2) nm by (intro that)
qed

section \<open>Valid quotes\<close>

lemma valid_deposit_quote:
  assumes s: "hv_state v = Some s" "venue_mode_assets X v s = Ok a"
    "refreshed_total_assets (is_pool_state s) (is_mode_index s) a = (Ok t :: (venue_error, u64) res)"
    and q: "quote_deposit X v r = Ok q" "valid_quote q"
  shows "req_amount r \<le> available_cap s t"
    and "deposit_shares (req_amount r) a (is_mode_supply s) = Some (qr_expected_output q)"
    and "qr_price q = deposit_price a (is_mode_supply s)"
proof -
  have ok: "req_amount r \<noteq> 0" "req_amount r \<le> available_cap s t"
    using valid_deposit_iff [OF s, of r] q by blast+
  then have "min (req_amount r) (available_cap s t) = req_amount r" by simp
  with q(1) ok show "req_amount r \<le> available_cap s t"
    "deposit_shares (req_amount r) a (is_mode_supply s) = Some (qr_expected_output q)"
    "qr_price q = deposit_price a (is_mode_supply s)"
    by (auto simp: quote_deposit_eq [OF s ok(1)] split: if_splits option.splits)
qed

lemma valid_withdraw_quote:
  assumes s: "hv_state v = Some s" "venue_mode_assets X v s = Ok a"
    "refreshed_total_assets (is_pool_state s) (is_mode_index s) a = (Ok t :: (venue_error, u64) res)"
    and q: "quote_instant_withdraw X v r = Ok q" "valid_quote q"
  shows "req_amount r \<le> servable_shares s a (available_balance s)"
    and "payout s a t (req_amount r) = Ok (Some (qr_expected_output q))"
    and "price_for s a t (available_balance s) (req_amount r) = Ok (qr_price q)"
proof -
  have ok: "req_amount r \<noteq> 0" "all_mode_assets_fresh (is_pool_state s) (is_current_ts s)"
    "\<not> window_limit_reached s (req_amount r)" "req_amount r \<le> servable_shares s a (available_balance s)"
    using valid_withdraw_iff [OF s, of r] q by blast+
  then have "min (req_amount r) (servable_shares s a (available_balance s)) = req_amount r" by simp
  with q(1) ok s show "req_amount r \<le> servable_shares s a (available_balance s)"
    "payout s a t (req_amount r) = Ok (Some (qr_expected_output q))"
    "price_for s a t (available_balance s) (req_amount r) = Ok (qr_price q)"
    by (auto simp: quote_instant_withdraw_def Let_def venue_state_def res_inv simp flip: available_balance_def)
qed

section \<open>Withdrawals\<close>

abbreviation fee_configs :: "initialized_state \<Rightarrow> fee_config list" where
  "fee_configs s \<equiv> instant_withdrawal_fee_configs (pcf_instant_withdrawal_config (is_pool_config s))"

lemma price_for_Ok:
  "price_for s a t b n = Ok p \<longleftrightarrow>
    instant_withdraw_price n a t (is_mode_supply s) b (ps_liquid_assets_deployed (is_pool_state s))
      (pcf_instant_withdrawal_config (is_pool_config s)) = (Ok (Some p) :: (venue_error, f64 option) res)"
  by (auto simp: price_for_def res_inv ok_or_def split: option.splits)

lemma payouts_chord:
  assumes cs: "wf_fees (fee_configs s)" "fees_descend (fee_configs s)"
    and xy: "x \<le> y" "y \<le> servable_shares s a (available_balance s)"
    and x: "payout s a t x = Ok (Some n)" "price_for s a t (available_balance s) x = Ok px"
    and y: "payout s a t y = Ok (Some m)" "price_for s a t (available_balance s) y = Ok py"
  obtains p p' where "px = Finite p" "py = Finite p'" "n \<le> m" "0 < p'" "p' \<le> p"
    "chord_between (1 / 2 ^ 36) (of_nat (length (fee_configs s)) + 1) x y n m p p'"
proof -
  obtain fee fee' where fee: "fee_on s t (withdrawn s a x) = Ok (Some fee)" "fee < withdrawn s a x"
    "fee_on s t (withdrawn s a y) = Ok (Some fee')" and ms: "is_mode_supply s \<noteq> 0"
    using x(1) y(1) unfolding payout_Some by blast
  have a0: "a \<noteq> 0" using fee(2) by (auto simp: scale_def)
  have "unat y * unat a div unat (is_mode_supply s) \<le> unat a"
    using max_servable_fits(1) [OF xy(2) ms] by simp
  then have fit: "unat y * unat a div unat (is_mode_supply s) < 2 ^ 64"
    by (rule order_le_less_trans) simp
  obtain p p' where ch: "price_for s a t (available_balance s) x = Ok (Finite p)"
    "price_for s a t (available_balance s) y = Ok (Finite p')"
    "p' * (1 - 1 / 2 ^ 36) * gap x y - (of_nat (length (fee_configs s)) + 1) \<le> gap n m"
    "gap n m \<le> p * (1 + 1 / 2 ^ 36) * gap x y + (of_nat (length (fee_configs s)) + 1)"
    unfolding price_for_Ok by (rule prices_chord [OF cs xy(1) fit x(1) y(1)])
  have p: "px = Finite p" "py = Finite p'" using x(2) y(2) ch(1,2) by simp_all
  obtain m' where "payout s a t y = Ok (Some m')" "n \<le> m'" by (rule payout_mono [OF cs(1) xy x(1) fee(3)])
  then have "n \<le> m" using y(1) by simp
  moreover have "0 < p'" "p' \<le> p"
    using instant_withdraw_price_positive_decreasing [OF cs(2) a0 xy(1) fit x(2) [unfolded price_for_Ok] y(2) [unfolded price_for_Ok]]
    by (auto simp: p)
  ultimately show thesis using p ch(3,4) by (intro that) (simp_all only: chord_between_def)
qed

text \<open>Where a withdrawal is served, the zero withdrawal has a price.\<close>

lemma price_for_0:
  assumes "wf_fees (fee_configs s)" "fees_descend (fee_configs s)" "payout s a t x = Ok (Some out)"
  obtains p where "price_for s a t (available_balance s) 0 = Ok p"
proof -
  obtain fee where fee: "fee_on s t (withdrawn s a x) = Ok (Some fee)" "fee < withdrawn s a x" and ms: "is_mode_supply s \<noteq> 0"
    using assms(3) unfolding payout_Some by blast
  have x: "0 \<le> withdrawn s a x" "withdrawn s a x \<noteq> 0" using fee(2) by auto
  obtain g where "marginal_fee_bps (pcf_instant_withdrawal_config (is_pool_config s)) t
      (liquid_assets (ps_liquid_assets_deployed (is_pool_state s)) (available_balance s) t) 0 =
      (Ok (Some g) :: (venue_error, u16 option) res)"
    by (rule bracket_at_smaller [OF assms(1) liquid_le_total assms(2) fee(1) x])
  then show thesis using ms by (intro that) (simp add: price_for_def instant_withdraw_price_eq)
qed

section \<open>The pricing requirements of the trait\<close>

fun huma_slack :: "huma_venue \<times> pubkey \<times> pubkey \<Rightarrow> rat" where
  "huma_slack (v, _) = (case hv_state v of None \<Rightarrow> 0 | Some s \<Rightarrow> of_nat (length (fee_configs s)) + 1)"

lemma huma_two_quotes:
  assumes ok: "huma_curve_ok X v" and ab: "a \<le> b"
    and q: "huma_quote X v (exact_in_request i m a) = Ok q" "valid_quote q"
    and q': "huma_quote X v (exact_in_request i m b) = Ok q'" "valid_quote q'"
  shows "\<exists>p p'. qr_price q = Finite p \<and> qr_price q' = Finite p' \<and>
    qr_expected_output q \<le> qr_expected_output q' \<and> 0 < p' \<and> p' \<le> p \<and>
    chord_between (1 / 2 ^ 36) (huma_slack (v, i, m)) a b (qr_expected_output q) (qr_expected_output q') p p'"
proof -
  obtain s where s: "hv_state v = Some s" using huma_quote_Ok(2) [OF q(1)] by (auto simp: is_active_def split: option.splits)
  then have ready: "state_ready s" and fits: "deposit_fits X v s" and fd: "fees_descend (fee_configs s)"
    using ok by (auto simp: huma_curve_ok_def)
  have cs: "wf_fees (fee_configs s)" using ready by (simp add: state_ready_def)
  obtain as t where at: "venue_mode_assets X v s = Ok as"
    "refreshed_total_assets (is_pool_state s) (is_mode_index s) as = (Ok t :: (venue_error, u64) res)"
    by (rule ready_inputs [OF ready])
  obtain d where d: "huma_swap_direction v i m = Ok d" using q(1) by (auto simp: huma_quote_def res_inv split: if_splits)
  show ?thesis
  proof (cases d)
    case DepositDirection
    then have e: "quote_deposit X v (exact_in_request i m a) = Ok q" "quote_deposit X v (exact_in_request i m b) = Ok q'"
      using q(1) q'(1) d by (auto simp: huma_quote_def split: if_splits)
    note va = valid_deposit_quote [OF s at e(1) q(2), unfolded req_simps]
      and vb = valid_deposit_quote [OF s at e(2) q'(2), unfolded req_simps]
    have "unat b * unat (is_mode_supply s) div unat as \<le> unat (available_cap s t) * unat (is_mode_supply s) div unat as"
      using vb(1) by (intro div_le_mono mult_le_mono1) (simp add: word_le_nat_alt)
    also have "\<dots> < 2 ^ 64" using fits at by (simp add: deposit_fits_def)
    finally have fit: "unat b * unat (is_mode_supply s) div unat as < 2 ^ 64" .
    have sl: "1 \<le> huma_slack (v, i, m)" by (simp add: s)
    show ?thesis by (rule deposits_chord [OF ab fit va(2) vb(2) sl]) (use va(3) vb(3) in auto)
  next
    case InstantWithdrawDirection
    then have e: "quote_instant_withdraw X v (exact_in_request i m a) = Ok q"
      "quote_instant_withdraw X v (exact_in_request i m b) = Ok q'"
      using q(1) q'(1) d by (auto simp: huma_quote_def split: if_splits)
    note va = valid_withdraw_quote [OF s at e(1) q(2), unfolded req_simps]
      and vb = valid_withdraw_quote [OF s at e(2) q'(2), unfolded req_simps]
    show ?thesis
      by (rule payouts_chord [OF cs fd ab vb(1) va(2,3) vb(2,3)]) (use s in auto)
  qed
qed

lemma huma_zero_quote:
  assumes ok: "huma_curve_ok X v" and x: "valid_at (huma_quote_at X (v, i, m)) x"
  shows "\<exists>q. huma_quote X v (exact_in_request i m 0) = Ok q \<and> qr_expected_output q = 0"
proof -
  have act: "is_active v" using x by (simp add: valid_at_huma)
  then obtain s where s: "hv_state v = Some s" by (auto simp: is_active_def split: option.splits)
  then have ready: "state_ready s" and fd: "fees_descend (fee_configs s)" using ok by (auto simp: huma_curve_ok_def)
  have cs: "wf_fees (fee_configs s)" using ready by (simp add: state_ready_def)
  obtain as t where at: "venue_mode_assets X v s = Ok as"
    "refreshed_total_assets (is_pool_state s) (is_mode_index s) as = (Ok t :: (venue_error, u64) res)"
    by (rule ready_inputs [OF ready])
  obtain d where d: "huma_swap_direction v i m = Ok d" using x by (auto simp: valid_at_huma)
  show ?thesis
  proof (cases d)
    case DepositDirection
    then show ?thesis
      using act d s at by (simp add: huma_quote_def quote_deposit_def venue_state_def Let_def)
  next
    case InstantWithdrawDirection
    then obtain out where out: "payout s as t x = Ok (Some out)"
      using x d valid_withdraw_iff [OF s at, of "exact_in_request i m x"] by (auto simp: valid_at_huma)
    obtain p where "price_for s as t (available_balance s) 0 = Ok p" by (rule price_for_0 [OF cs fd out])
    then show ?thesis
      using act d s at InstantWithdrawDirection
      by (simp add: huma_quote_def quote_instant_withdraw_def venue_state_def Let_def flip: available_balance_def)
  qed
qed

interpretation huma_prices: priced_quoter "huma_quote_at X" "\<lambda>(v, _). huma_curve_ok X v" "1 / 2 ^ 36" huma_slack for X
proof
  show "0 \<le> (1 / 2 ^ 36 :: rat) \<and> 1 / 2 ^ 36 \<le> (1 :: rat)" by simp
next
  fix s :: "huma_venue \<times> pubkey \<times> pubkey" and x
  assume "case s of (v, _) \<Rightarrow> huma_curve_ok X v" "valid_at (huma_quote_at X s) x"
  then show "\<exists>q. huma_quote_at X s 0 = Ok q \<and> qr_expected_output q = 0"
    by (cases s) (auto intro: huma_zero_quote)
next
  fix s :: "huma_venue \<times> pubkey \<times> pubkey" and a b q q'
  assume "case s of (v, _) \<Rightarrow> huma_curve_ok X v" "a \<le> b" "huma_quote_at X s a = Ok q" "valid_quote q"
    "huma_quote_at X s b = Ok q'" "valid_quote q'"
  then show "\<exists>p p'. qr_price q = Finite p \<and> qr_price q' = Finite p' \<and>
      qr_expected_output q \<le> qr_expected_output q' \<and> 0 < p' \<and> p' \<le> p \<and>
      chord_between (1 / 2 ^ 36) (huma_slack s) a b (qr_expected_output q) (qr_expected_output q') p p'"
    by (cases s) (simp only: prod.case huma_quote_at.simps huma_two_quotes)
qed

text \<open>
  C22: an initialized venue whose fees rise as liquidity falls meets the pricing requirements of the
  trait in both directions: on the range returned by \<open>bounds\<close> every amount is quoted in full, the output
  never falls, the price is finite, positive and never rises, the prices at two amounts bracket the
  average rate between them and larger fills receive a weaker rate; a zero amount is quoted at
  nothing. The tolerance is a relative \<open>2^-36\<close>, the slack one atom and one per fee tier.
\<close>

theorem huma_meets_pricing_rules:
  assumes "huma_curve_ok X v" "hv_state v = Some s" "bounds (huma_trading_venue X v) i j = Ok (l, u)"
  shows "pricing_rules (\<lambda>x. huma_quote X v (exact_in_request (huma_token_at s i) (huma_token_at s j) x))
    (1 / 2 ^ 36) (of_nat (length (fee_configs s)) + 1) l u"
proof -
  let ?s = "(v, huma_token_at s i, huma_token_at s j)"
  have "find_boundaries (huma_quote_at X ?s) = Ok (l, u)"
    using assms(3) by (simp add: huma_bounds_eq [OF assms(2)] split: if_splits)
  moreover have "huma_quote_at X ?s = (\<lambda>x. huma_quote X v (exact_in_request (huma_token_at s i) (huma_token_at s j) x))"
    by (rule ext) simp
  ultimately show ?thesis using huma_prices.search_prices [of X ?s l u] assms(1,2) by simp
qed

theorem huma_meets_pricing_rules_witness:
  "\<exists>l u. bounds (huma_trading_venue sample_huma sample_huma_venue) 0 1 = Ok (l, u) \<and>
    pricing_rules (\<lambda>x. huma_quote sample_huma sample_huma_venue
      (exact_in_request (huma_token_at sample_state 0) (huma_token_at sample_state 1) x))
      (1 / 2 ^ 36) (of_nat (length (fee_configs sample_state)) + 1) l u"
proof -
  obtain l u where "bounds (huma_trading_venue sample_huma sample_huma_venue) 0 1 = Ok (l, u)"
    using sample_huma_bounds by blast
  with huma_meets_pricing_rules [OF sample_huma_curve sample_venue_simps(1) this] show ?thesis by blast
qed

end
