(* ===== verification/Spec2Isabelle.thy ===== *)
theory Spec2Isabelle
  imports Route_Runs Cache_Steps Bounds_Queries Unit_Tests Huma_Pricing
begin

text \<open>
  A verification development for the Titan venue-integration template: a Rust crate
  (\<open>src/src\<close>) with which a router quotes and builds swaps over trading venues, and the
  on-chain program (\<open>src/program-template/programs/titan-v3-venue-template\<close>) that runs the
  routes it builds.

  \<^bold>\<open>The program.\<close> A venue (\<open>trading_venue/mod.rs\<close>) reads its accounts through a cache
  (\<open>account_caching\<close>), answers quotes from what it read, and turns a request into a swap
  instruction. Two venues are implemented: the Raydium AMM (\<open>example\<close>) and Huma (\<open>huma\<close>),
  whose instant withdrawals draw on a lending strategy (\<open>huma/strategy\<close>). The boundary search
  (\<open>trading_venue/bounds.rs\<close>) finds the quotable range of any venue. The route builder
  (\<open>swap_route\<close>) turns the instruction of a venue into a leg of a route, and the route program
  takes the user's input, runs the legs against the venues with its own signature, pays the
  output and checks that it lost nothing.

  \<^bold>\<open>Conventions.\<close> Machine integers are words of their width; a Rust \<open>Result\<close> whose code may
  also panic is the sum type \<open>res\<close>, where \<open>Panic\<close> stands for a failed \<open>unwrap\<close>, an index, slice
  or shift out of range, a division by zero or an overflow. The operations that can panic are
  \<open>unwrap\<close>, \<open>slice_p\<close>, \<open>shl_p\<close>, \<open>add_p\<close>, \<open>sub_p\<close>, \<open>usub_p\<close>, \<open>mul_p\<close> and \<open>div_p\<close>, each used where the code
  uses the operator; the guards that keep the code from them are then facts to prove. Where they
  are proved, the lemmas go on with the value: \<open>bitmap_add\<close> and \<open>bitmap_has\<close> for the bitmap of the
  route, \<open>scale\<close>, \<open>deposit_shares\<close> and \<open>servable_shares\<close> for the Huma divisions, each with the
  equation that ties it to the code. A method on \<open>&mut self\<close> is a function from a state to a result and
  a state, which keeps the changes made before an error. A public key is the number its 32
  bytes spell. Library code that is not in the repository (address derivation, hashing,
  account decoders, the power function) is an argument: the records \<open>ext\<close>, \<open>huma_ext\<close> and
  \<open>runtime\<close>. The decoders that the Borsh derives give are arguments of the venue too, so that
  its theorems hold for any, and are then instantiated by the readers of \<open>Huma_Borsh\<close>.
  Integer arithmetic on 128 and 256 bits is modelled at its width, double precision by an
  exact rounding function.

  \<^bold>\<open>Theories, in the order of their imports.\<close>
  \<^item> \<open>Prelude\<close>: results, the stateful combinators, Rust's integer operations, the rule
    collections \<open>res_simps\<close>, \<open>res_inv\<close>, \<open>unat_ops\<close>, \<open>keeps_intros\<close>.
  \<^item> \<open>F64\<close>: double-precision numbers, rounding to nearest even, monotonicity of the operations;
    \<open>F64_Bits\<close>: their bit patterns; \<open>F64_Error\<close>: the relative error of an expression, read off
    its shape.
  \<^item> \<open>Borsh\<close>: readers and writers of the Borsh format, and the locale \<open>codec\<close> (a writer, a reader that
    reads it back and depends on the bytes it consumes only), interpreted on every account.
  \<^item> \<open>Venue_Types\<close>, \<open>Bytes\<close>: the vocabulary of \<open>trading_venue\<close> (errors, protocols, token
    metadata, requests, the \<open>TradingVenue\<close> trait with its default methods), and bytes.
  \<^item> \<open>Bounds\<close>: the boundary search. The locale \<open>quoter\<close> is what it needs of a venue, and
    \<open>convex_quoter\<close> what makes its answer the quotable range; both venues are interpretations.
    \<open>Bounds_Queries\<close>: how many quotes the search asks. \<open>Pricing\<close>: the pricing requirements that the
    trait states for \<open>quote\<close>, with the locale \<open>priced_quoter\<close>, which both venues interpret.
  \<^item> \<open>Account_Cache\<close>: \<open>rpc_cache.rs\<close>, as a locale of caches with the RPC cache as instance.
    \<open>Cache_Steps\<close>: its calls in flight, as an inductive step relation over the shared map and a
    chain that moves.
  \<^item> \<open>Raydium_State\<close>, \<open>Raydium_Math\<close>, \<open>Raydium_Venue\<close>: account layout, swap arithmetic against
    unbounded reference curves, and the venue of \<open>example/mod.rs\<close>.
    \<open>Raydium_Price\<close>: the accuracy of its price, and its quotes against the pricing requirements.
  \<^item> \<open>Huma_State\<close>, \<open>Huma_Fee\<close>, \<open>Huma_Math\<close>: the accounts and pure methods of \<open>huma/state.rs\<close>,
    the progressive fee against a bracket-by-bracket reference, the prices of \<open>math.rs\<close>;
    \<open>Huma_Price\<close>: these prices against the amounts paid; \<open>Huma_Pricing\<close>: the quotes of the venue
    against the pricing requirements.
  \<^item> \<open>Huma_Strategy\<close>: JupLend, KaminoLend and their dispatch, with the locale
    \<open>lending_strategy\<close> of what the venue relies on, interpreted on all three.
  \<^item> \<open>Huma_Venue\<close>, \<open>Huma_Quotes\<close>, \<open>Huma_Update\<close>: \<open>huma/venue.rs\<close>; its quotes (coverage, caps,
    monotonicity, freedom from panics, the bounds); its update in three rounds, with what a
    complete snapshot leads to (\<open>strategy_snapshot\<close> says what it holds for the strategy) and the
    venues reachable through updates as an inductive predicate.
  \<^item> \<open>Huma_Borsh\<close>, \<open>Huma_Images\<close>: the bytes of the Huma accounts and their defaults; their decoding
    and the data it refuses, and the venue over these bytes.
  \<^item> \<open>Swap_Route\<close>: \<open>swap_route/mod.rs\<close>.
  \<^item> \<open>Route_State\<close>: \<open>state.rs\<close>, \<open>error.rs\<close>, \<open>lib.rs\<close>, \<open>initialize.rs\<close> and the venue adapters of
    the program, with the Borsh readers its derives give.
  \<^item> \<open>Route_Program\<close>: \<open>swap_route_v3.rs\<close>. The accounts are one store indexed by key, so that
    infos of the same key share their account; the effect of a called program on the store
    is the parameter \<open>rt_cpi\<close>, and the calls that succeeded are recorded in order.
    \<open>execute\<close> is the composition of the code's blocks, one definition each.
  \<^item> \<open>Route_Safety\<close>, \<open>Route_Effects\<close>: the balances the route keeps (the bitmap is an
    interpretation of the locale \<open>index_set\<close>), the rejected arguments, freedom from panics,
    what the PDA signs, the token ledger.
  \<^item> \<open>Route_Legs\<close>: a leg from the venue's instruction to the program's call.
  \<^item> \<open>Route_Entry\<close>: the dispatch of \<open>lib.rs\<close> and the checks of the account struct before \<open>execute\<close>.
  \<^item> \<open>Route_Runs\<close>: the legs of a built route in the remaining accounts, and the payment.
  \<^item> \<open>Unit_Tests\<close>: the unit tests of the crate and their fixtures, run on the model as a check of
    the definitions; it adds no property.

  \<^bold>\<open>What the theorems show.\<close> Quotes: the arithmetic equals its reference on every branch,
  never gives away value, is monotone, and is safe from panics on the states that updates
  produce (the exceptions are stated and proved too); the prices in double precision are accurate to
  a stated relative error, both venues meet the pricing requirements of the trait on the range of
  the boundary search (monotone output, positive falling price, mean value, concavity). Updates:
  every number of a venue comes from the bytes of one snapshot, a complete snapshot is enough to
  succeed, invariants over every sequence of updates, what a failure leaves behind; accounts
  are read back as they were serialized, and data that holds none is refused with the error of
  its case. The cache: whatever
  calls overlap, an answer was true at some time. Routes: nothing runs without the signatures
  and accounts that the program demands, the two ends of the wire agree byte for byte, each leg
  takes its share of the balance that is not reserved, the user is paid the whole gain by exactly
  one transfer, no input makes the program panic, and a
  route that succeeds leaves every account of the PDA at or above its former balance whatever
  the venues do.

  \<^bold>\<open>Termination and bounds.\<close> Every loop is a total recursion: over lists, over the 64 powers
  of two of the coarse search, or on the shrinking interval of the binary searches; the search
  asks at most 185 quotes. No fuel is used. Statements about the final check of a route cover the account indices below 256,
  the capacity of its bitmap.

  \<^bold>\<open>Not modelled.\<close> The network behind the RPC client, logging, the executor of the
  asynchronous methods (a venue's update runs alone; only the calls of the cache interleave);
  the creation of the PDA account that Anchor generates for \<open>initialize\<close>, which is an argument,
  the IDL instructions that Anchor adds to the entry point behind a tag of eight bytes of its own,
  and the transaction rollback after an error; integration tests, which need a chain, and crate
  roots. The
  reserved tail bytes of accounts are left out of the records: readers skip them and writers
  fill them with zeros.
\<close>

end
